(* ===== verification/Mota_Prelude.thy ===== *)
theory Mota_Prelude
  imports Main "HOL-Library.Word"
begin

text \<open>
  Shared vocabulary of the development: machine integers, byte strings, the result type with
  Rust's two ways of failing, panicking slices, and little-endian numbers.

  A \<open>usize\<close> that counts bytes or indexes a buffer is a \<open>nat\<close>: on the 64-bit hosts the tool
  runs on, buffer lengths are far below \<open>2 ^ 63\<close> and sums of two of them cannot overflow.
  Fields with a declared width (\<open>u8\<close>, \<open>u16\<close>, \<open>u32\<close>, \<open>u64\<close>) are words of that width.
  A Rust \<open>String\<close> is its UTF-8 byte list; static message texts are HOL strings.
\<close>

unbundle bit_operations_syntax

named_theorems mota_const \<open>the numeric and textual constants of the source\<close>
named_theorems mota_len \<open>lengths of the byte strings the operations produce\<close>

section \<open>Types\<close>

type_synonym u8 = "8 word"
type_synonym u16 = "16 word"
type_synonym u32 = "32 word"
type_synonym u64 = "64 word"
type_synonym bytes = "u8 list"

text \<open>
  \<open>Bail\<close> carries the message of an \<open>anyhow\<close> error (the fixed part of its format string);
  \<open>Panic\<close> is an out-of-range slice or index, an \<open>unwrap\<close> of a missing value, or a failed assertion.
\<close>

datatype err = Panic | Bail string

type_synonym 'a result = "err + 'a"

definition ensure :: "bool \<Rightarrow> string \<Rightarrow> 'a result \<Rightarrow> 'a result" where
  "ensure c msg k = (if c then k else Inl (Bail msg))"

definition bindr :: "'a result \<Rightarrow> ('a \<Rightarrow> 'b result) \<Rightarrow> 'b result" where
  "bindr m f = (case m of Inl e \<Rightarrow> Inl e | Inr x \<Rightarrow> f x)"

definition of_opt :: "string \<Rightarrow> 'a option \<Rightarrow> 'a result" where
  "of_opt msg x = (case x of None \<Rightarrow> Inl (Bail msg) | Some v \<Rightarrow> Inr v)"

definition is_ok :: "'a result \<Rightarrow> bool" where
  "is_ok r = (case r of Inl _ \<Rightarrow> False | Inr _ \<Rightarrow> True)"

text \<open>\<open>map_err(|e| anyhow!("prefix{e:#}"))\<close>.\<close>

definition err_prefix :: "string \<Rightarrow> 'a result \<Rightarrow> 'a result" where
  "err_prefix pre r =
    (case r of Inl (Bail msg) \<Rightarrow> Inl (Bail (pre @ msg)) | Inl Panic \<Rightarrow> Inl Panic | Inr x \<Rightarrow> Inr x)"

text \<open>\<open>context(msg)\<close> on a \<open>Result\<close>: the message shown is the outermost one.\<close>

definition context_msg :: "string \<Rightarrow> 'a result \<Rightarrow> 'a result" where
  "context_msg msg r =
    (case r of Inl (Bail _) \<Rightarrow> Inl (Bail msg) | Inl Panic \<Rightarrow> Inl Panic | Inr x \<Rightarrow> Inr x)"

lemma ensure_simps [simp]:
  "ensure True msg k = k"
  "ensure False msg k = Inl (Bail msg)"
  by (simp_all add: ensure_def)

lemma ensure_Inr [simp]: "ensure c msg k = Inr x \<longleftrightarrow> c \<and> k = Inr x"
  by (simp add: ensure_def)

lemma ensure_Panic [simp]: "ensure c msg k = Inl Panic \<longleftrightarrow> c \<and> k = Inl Panic"
  by (simp add: ensure_def)

lemma bindr_simps [simp]:
  "bindr (Inl e) f = Inl e"
  "bindr (Inr x) f = f x"
  by (simp_all add: bindr_def)

lemma bindr_Inr [simp]: "bindr m f = Inr y \<longleftrightarrow> (\<exists>x. m = Inr x \<and> f x = Inr y)"
  by (cases m) simp_all

lemma bindr_Panic: "bindr m f = Inl Panic \<longleftrightarrow> m = Inl Panic \<or> (\<exists>x. m = Inr x \<and> f x = Inl Panic)"
  by (cases m) auto

lemma of_opt_simps [simp]:
  "of_opt msg None = Inl (Bail msg)"
  "of_opt msg (Some v) = Inr v"
  by (simp_all add: of_opt_def)

lemma of_opt_Inr [simp]: "of_opt msg x = Inr v \<longleftrightarrow> x = Some v"
  by (cases x) simp_all

lemma of_opt_Panic [simp]: "of_opt msg x \<noteq> Inl Panic"
  by (cases x) simp_all

lemma err_prefix_Inr [simp]: "err_prefix pre r = Inr x \<longleftrightarrow> r = Inr x"
  by (auto simp: err_prefix_def split: sum.splits err.splits)

lemma err_prefix_Panic [simp]: "err_prefix pre r = Inl Panic \<longleftrightarrow> r = Inl Panic"
  by (auto simp: err_prefix_def split: sum.splits err.splits)

lemma context_msg_Inr [simp]: "context_msg msg r = Inr x \<longleftrightarrow> r = Inr x"
  by (auto simp: context_msg_def split: sum.splits err.splits)

lemma context_msg_Panic [simp]: "context_msg msg r = Inl Panic \<longleftrightarrow> r = Inl Panic"
  by (auto simp: context_msg_def split: sum.splits err.splits)

lemma is_ok_simps [simp]:
  "is_ok (Inr x)"
  "\<not> is_ok (Inl e)"
  by (simp_all add: is_ok_def)

section \<open>Slices\<close>

text \<open>\<open>slice a b buf\<close> is the contents of \<open>&buf[a..b]\<close>; \<open>rng\<close> adds Rust's bounds check.\<close>

definition slice :: "nat \<Rightarrow> nat \<Rightarrow> 'a list \<Rightarrow> 'a list" where
  "slice a b buf = take (b - a) (drop a buf)"

definition rng :: "'a list \<Rightarrow> nat \<Rightarrow> nat \<Rightarrow> 'a list result" where
  "rng buf a b = (if a \<le> b \<and> b \<le> length buf then Inr (slice a b buf) else Inl Panic)"

definition idx :: "'a list \<Rightarrow> nat \<Rightarrow> 'a result" where
  "idx buf i = (if i < length buf then Inr (buf ! i) else Inl Panic)"

text \<open>\<open>buf[off..off + s.len()].copy_from_slice(s)\<close> for a range known to lie inside \<open>buf\<close>.\<close>

definition put :: "nat \<Rightarrow> 'a list \<Rightarrow> 'a list \<Rightarrow> 'a list" where
  "put off s buf = take off buf @ s @ drop (off + length s) buf"

lemma length_slice [simp]: "length (slice a b buf) = min (b - a) (length buf - a)"
  by (simp add: slice_def)

lemma slice_full [simp]: "slice 0 (length buf) buf = buf"
  by (simp add: slice_def)

lemma slice_empty [simp]: "slice a a buf = []"
  by (simp add: slice_def)

lemma rng_ok: "a \<le> b \<Longrightarrow> b \<le> length buf \<Longrightarrow> rng buf a b = Inr (slice a b buf)"
  by (simp add: rng_def)

lemma idx_ok: "i < length buf \<Longrightarrow> idx buf i = Inr (buf ! i)"
  by (simp add: idx_def)

lemma slice_append_left: "b \<le> length xs \<Longrightarrow> slice a b (xs @ ys) = slice a b xs"
  by (simp add: slice_def take_append drop_append)

lemma slice_append_right:
  "length xs \<le> a \<Longrightarrow> slice a b (xs @ ys) = slice (a - length xs) (b - length xs) ys"
  by (simp add: slice_def)

lemma slice_append_exact: "slice (length xs) (length xs + length ys) (xs @ ys @ zs) = ys"
  by (simp add: slice_def)

lemma slice_slice: "b \<le> d - c \<Longrightarrow> slice a b (slice c d buf) = slice (c + a) (c + b) buf"
  by (simp add: slice_def drop_take take_take min_def add.commute)

lemma slice_drop: "slice a b (drop c buf) = slice (c + a) (c + b) buf"
  by (simp add: slice_def add.commute)

lemma nth_slice: "i < length buf \<Longrightarrow> [buf ! i] = slice i (Suc i) buf"
  by (simp add: slice_def take_Suc_conv_app_nth hd_drop_conv_nth take_Suc)

lemma slice_join: "a \<le> b \<Longrightarrow> b \<le> c \<Longrightarrow> slice a b buf @ slice b c buf = slice a c buf"
proof -
  assume "a \<le> b" and "b \<le> c"
  then obtain d e where "b = a + d" and "c = a + d + e" by (metis le_iff_add)
  then show ?thesis by (simp add: slice_def take_add add.commute)
qed

lemma slice_join_more: "a \<le> b \<Longrightarrow> b \<le> c \<Longrightarrow> slice a b buf @ slice b c buf @ r = slice a c buf @ r"
  by (metis append_assoc slice_join)

lemma slice_drop_split: "i \<le> j \<Longrightarrow> drop i data = slice i j data @ drop j data"
  by (metis append_take_drop_id drop_drop le_add_diff_inverse2 slice_def)

lemma length_put [mota_len, simp]: "off + length s \<le> length buf \<Longrightarrow> length (put off s buf) = length buf"
  by (simp add: put_def)

lemma slice_put_same:
  "off + length s \<le> length buf \<Longrightarrow> b = off + length s \<Longrightarrow> slice off b (put off s buf) = s"
  by (simp add: slice_def put_def)

lemma slice_put_before: "b \<le> off \<Longrightarrow> off \<le> length buf \<Longrightarrow> slice a b (put off s buf) = slice a b buf"
  by (simp add: put_def slice_append_left) (simp add: slice_def drop_take)

lemma slice_put_after:
  assumes "off + length s \<le> a" and "off + length s \<le> length buf"
  shows "slice a b (put off s buf) = slice a b buf"
proof -
  have "drop a (put off s buf) = drop a buf"
    using assms by (simp add: put_def)
  then show ?thesis by (simp add: slice_def)
qed

lemma nth_put:
  assumes "off + length s \<le> length buf" and "i < length buf"
  shows "put off s buf ! i = (if off \<le> i \<and> i < off + length s then s ! (i - off) else buf ! i)"
  using assms by (auto simp: put_def nth_append min_def)

lemma put_append_right:
  "length xs \<le> off \<Longrightarrow> put off s (xs @ ys) = xs @ put (off - length xs) s ys"
  by (simp add: put_def)

section \<open>Little-endian numbers\<close>

fun le_nat :: "bytes \<Rightarrow> nat" where
  "le_nat [] = 0"
| "le_nat (b # bs) = unat b + 256 * le_nat bs"

fun nat_le :: "nat \<Rightarrow> nat \<Rightarrow> bytes" where
  "nat_le 0 v = []"
| "nat_le (Suc n) v = of_nat v # nat_le n (v div 256)"

lemma length_nat_le [mota_len, simp]: "length (nat_le n v) = n"
  by (induction n arbitrary: v) auto

lemma unat_of_nat_u8 [simp]: "unat (of_nat v :: u8) = v mod 256"
  by (simp add: unat_of_nat)

lemma unat_mod_256: "unat (b :: u8) mod 256 = unat b"
proof -
  have "unat b < 256" using unsigned_less [of b] by simp
  then show ?thesis by simp
qed

lemma le_nat_bound: "le_nat bs < 256 ^ length bs"
proof (induction bs)
  case Nil
  then show ?case by simp
next
  case (Cons b bs)
  have "unat b < 256" using unsigned_less [of b] by simp
  with Cons show ?case by simp
qed

lemma le_nat_nat_le [simp]: "le_nat (nat_le n v) = v mod 256 ^ n"
proof (induction n arbitrary: v)
  case 0
  then show ?case by simp
next
  case (Suc n)
  have "v mod (256 * 256 ^ n) = 256 * (v div 256 mod 256 ^ n) + v mod 256"
    by (rule mod_mult2_eq)
  with Suc show ?case by simp
qed

lemma nat_le_le_nat [simp]: "length bs = n \<Longrightarrow> nat_le n (le_nat bs) = bs"
proof (induction bs arbitrary: n)
  case Nil
  then show ?case by simp
next
  case (Cons b bs)
  have lt: "unat b < 256" using unsigned_less [of b] by simp
  have "unat (of_nat (unat b + 256 * le_nat bs) :: u8) = unat b"
    using lt by (simp only: unat_of_nat_u8) simp
  then have "of_nat (unat b + 256 * le_nat bs) = b"
    by (simp only: word_unat_eq_iff)
  moreover have "(unat b + 256 * le_nat bs) div 256 = le_nat bs" using lt by simp
  ultimately show ?case using Cons by auto
qed

lemma le_nat_inj: "length xs = length ys \<Longrightarrow> le_nat xs = le_nat ys \<Longrightarrow> xs = ys"
  by (metis nat_le_le_nat)

text \<open>\<open>u32::from_le_bytes\<close>, \<open>to_le_bytes\<close> and their 16-bit versions.\<close>

definition u32_le :: "bytes \<Rightarrow> u32" where
  "u32_le bs = of_nat (le_nat bs)"

definition le_u32 :: "u32 \<Rightarrow> bytes" where
  "le_u32 v = nat_le 4 (unat v)"

definition u16_le :: "bytes \<Rightarrow> u16" where
  "u16_le bs = of_nat (le_nat bs)"

definition le_u16 :: "u16 \<Rightarrow> bytes" where
  "le_u16 v = nat_le 2 (unat v)"

lemma length_le_u32 [mota_len, simp]: "length (le_u32 v) = 4"
  by (simp add: le_u32_def)

lemma length_le_u16 [mota_len, simp]: "length (le_u16 v) = 2"
  by (simp add: le_u16_def)

section \<open>Interface: fixed-width little-endian fields\<close>

text \<open>
  What the container format needs of a field type: a width, an encoder onto exactly that many
  bytes, and a decoder that inverts it in both directions.
\<close>

locale le_field =
  fixes width :: nat
    and enc :: "'a \<Rightarrow> bytes"
    and dec :: "bytes \<Rightarrow> 'a"
  assumes enc_length: "length (enc v) = width"
    and dec_enc: "dec (enc v) = v"
    and enc_dec: "length bs = width \<Longrightarrow> enc (dec bs) = bs"
begin

lemma enc_inject: "enc v = enc w \<longleftrightarrow> v = w"
  by (metis dec_enc)

lemma dec_inject: "length bs = width \<Longrightarrow> length cs = width \<Longrightarrow> dec bs = dec cs \<longleftrightarrow> bs = cs"
  by (metis enc_dec)

lemma dec_slice_append: "dec (slice (length xs) (length xs + width) (xs @ enc v @ ys)) = v"
  using slice_append_exact [of xs "enc v" ys] by (simp add: enc_length dec_enc)

lemma dec_slice_put:
  "off + width \<le> length buf \<Longrightarrow> dec (slice off (off + width) (put off (enc v) buf)) = v"
  by (simp add: slice_put_same enc_length dec_enc)

end

lemma le_word_round_trip:
  "length bs = n \<Longrightarrow> 256 ^ n = (2 :: nat) ^ LENGTH('a) \<Longrightarrow>
    nat_le n (unat (of_nat (le_nat bs) :: 'a::len word)) = bs"
  using le_nat_bound [of bs] by (simp add: unat_of_nat)

lemma unat_u32_bound: "unat (v :: u32) < 4294967296"
  using unsigned_less [of v] by simp

lemma unat_u16_bound: "unat (v :: u16) < 65536"
  using unsigned_less [of v] by simp

interpretation u32f: le_field 4 le_u32 u32_le
  by unfold_locales
    (simp_all add: le_u32_def u32_le_def le_word_round_trip unat_u32_bound)

interpretation u16f: le_field 2 le_u16 u16_le
  by unfold_locales
    (simp_all add: le_u16_def u16_le_def le_word_round_trip unat_u16_bound)

lemmas le_field_round_trip [simp] = u32f.dec_enc u16f.dec_enc

lemma unat_u32_le: "length bs = 4 \<Longrightarrow> unat (u32_le bs) = le_nat bs"
  using le_nat_bound [of bs] by (simp add: u32_le_def unat_of_nat)

section \<open>ASCII literals and lists\<close>

definition ascii :: "string \<Rightarrow> bytes" where
  "ascii s = map of_char s"

lemma length_ascii [mota_len, simp]: "length (ascii s) = length s"
  by (simp add: ascii_def)

text \<open>\<open>xs.chunks(n)\<close> for \<open>n > 0\<close>: consecutive pieces of \<open>n\<close> elements, the last may be short.\<close>

function chunks :: "nat \<Rightarrow> 'a list \<Rightarrow> 'a list list" where
  "chunks n xs = (if n = 0 \<or> xs = [] then [] else take n xs # chunks n (drop n xs))"
  by pat_completeness auto
termination
  by (relation "measure (\<lambda>(n, xs). length xs)") auto

declare chunks.simps [simp del]

lemma chunks_Nil [simp]: "chunks n [] = []"
  by (simp add: chunks.simps)

lemma chunks_step: "0 < n \<Longrightarrow> xs \<noteq> [] \<Longrightarrow> chunks n xs = take n xs # chunks n (drop n xs)"
  by (subst chunks.simps) simp

lemma concat_chunks: "0 < n \<Longrightarrow> concat (chunks n xs) = xs"
proof (induction n xs rule: chunks.induct)
  case (1 n xs)
  then show ?case by (cases "xs = []") (simp_all add: chunks_step)
qed

definition div_ceil :: "nat \<Rightarrow> nat \<Rightarrow> nat" where
  "div_ceil a b = a div b + (if a mod b = 0 then 0 else 1)"

lemma div_ceil_0 [simp]: "div_ceil 0 b = 0"
  by (simp add: div_ceil_def)

lemma div_ceil_le: "div_ceil a b \<le> a"
proof (cases "a = 0 \<or> b \<le> 1")
  case True
  then show ?thesis by (cases b) (auto simp: div_ceil_def)
next
  case False
  then have "a div b < a" by simp
  then show ?thesis by (simp add: div_ceil_def)
qed

lemma div_ceil_step: "0 < b \<Longrightarrow> 0 < a \<Longrightarrow> div_ceil a b = Suc (div_ceil (a - b) b)"
proof -
  assume b: "0 < b" and a: "0 < a"
  show ?thesis
  proof (cases "b \<le> a")
    case True
    then obtain c where "a = c + b" by (metis add.commute le_iff_add)
    with b show ?thesis by (simp add: div_ceil_def div_add_self2)
  next
    case False
    with a show ?thesis by (simp add: div_ceil_def)
  qed
qed

lemma length_chunks: "0 < n \<Longrightarrow> length (chunks n xs) = div_ceil (length xs) n"
proof (induction n xs rule: chunks.induct)
  case (1 n xs)
  then show ?case by (cases "xs = []") (simp_all add: chunks_step div_ceil_step)
qed

lemma chunks_append: "0 < n \<Longrightarrow> length xs = n \<Longrightarrow> chunks n (xs @ ys) = xs # chunks n ys"
  by (cases "xs = []") (simp_all add: chunks_step)

lemma chunks_concat:
  "0 < n \<Longrightarrow> \<forall>x \<in> set xss. length x = n \<Longrightarrow> chunks n (concat xss) = xss"
  by (induction xss) (simp_all add: chunks_append)

lemma in_chunks: "x \<in> set (chunks n xs) \<Longrightarrow> x \<noteq> [] \<and> length x \<le> n"
proof (induction n xs rule: chunks.induct)
  case (1 n xs)
  then show ?case
    by (subst (asm) (2) chunks.simps) (auto split: if_splits)
qed

section \<open>Checked sums\<close>

text \<open>\<open>u64\<close> sums are natural numbers with the bound of \<open>checked_add\<close>.\<close>

definition checked_add64 :: "nat \<Rightarrow> nat \<Rightarrow> nat option" where
  "checked_add64 a b = (if a + b < 2 ^ 64 then Some (a + b) else None)"

section \<open>More on chunks and rounding up\<close>

lemma div_ceil_bounds:
  assumes "0 < b"
  shows "a \<le> div_ceil a b * b" and "div_ceil a b * b < a + b"
proof -
  obtain q r where "a = q + r" and "r < b" and "div_ceil a b * b = q + (if r = 0 then 0 else b)"
    by (rule that [of "a div b * b" "a mod b"]) (use assms in \<open>simp_all add: div_ceil_def\<close>)
  then show "a \<le> div_ceil a b * b" "div_ceil a b * b < a + b"
    using assms by (auto split: if_splits)
qed

lemma less_div_ceil: "0 < b \<Longrightarrow> s < div_ceil a b \<Longrightarrow> s * b < a"
proof -
  assume b: "0 < b" and s: "s < div_ceil a b"
  have "Suc s * b \<le> div_ceil a b * b" using s by (intro mult_right_mono) auto
  with div_ceil_bounds(2) [OF b, of a] show ?thesis by simp
qed

lemma nth_chunks:
  assumes "0 < n"
  shows "k < length (chunks n xs) \<Longrightarrow> chunks n xs ! k = slice (k * n) (k * n + n) xs"
proof (induction k arbitrary: xs)
  case 0
  then show ?case using assms by (cases xs) (simp_all add: chunks_step slice_def)
next
  case (Suc k)
  then have ne: "xs \<noteq> []" by auto
  with Suc.prems assms have "k < length (chunks n (drop n xs))" by (simp add: chunks_step)
  from Suc.IH [OF this] show ?case
    using ne assms by (simp add: chunks_step slice_drop add.commute add.left_commute)
qed

lemma chunk_inside:
  assumes "0 < n" and "k < length (chunks n xs)"
  shows "k * n < length xs"
proof -
  have "k < div_ceil (length xs) n" using assms by (simp add: length_chunks)
  then show ?thesis using assms(1) by (rule less_div_ceil [rotated])
qed

lemma slice_min: "slice a (min b (length xs)) xs = slice a b xs"
  by (simp add: slice_def min_def)

lemma put_pad:
  "length p = off \<Longrightarrow> length s \<le> k \<Longrightarrow> put off s (p @ replicate k 0) = (p @ s) @ replicate (k - length s) 0"
  by (simp add: put_def)

lemma update_pad:
  "length p = off \<Longrightarrow> 0 < k \<Longrightarrow> (p @ replicate k 0)[off := x] = (p @ [x]) @ replicate (k - 1) 0"
  by (cases k) (auto simp: list_update_append)

end
