(* ===== verification/Mota_Format.thy ===== *)
theory Mota_Format
  imports Mota_Prelude
begin

text \<open>
  \<open>src/format.rs\<close> without \<open>Manifest::parse\<close>: the constants of the container, the manifest and
  the trailers, the codec enumeration, the firmware identity, the manifest record with its
  derived geometry, and the byte helpers. \<open>Manifest::parse\<close> calls into the bootloader profile
  and is in \<open>Mota_Manifest\<close>.
\<close>

section \<open>Container framing and manifest constants\<close>

definition MAGIC :: bytes where "MAGIC = ascii ''mOTA''"
definition TRAILER :: bytes where "TRAILER = ascii ''vk496''"
definition HEADER_LEN :: nat where [mota_const]: "HEADER_LEN = 8"
definition TRAILER_LEN :: nat where [mota_const]: "TRAILER_LEN = 5"

definition FORMAT_VER :: u8 where [mota_const]: "FORMAT_VER = 0x02"
definition APP_FORMAT_VER :: u8 where [mota_const]: "APP_FORMAT_VER = 0x02"
definition BOOT_FORMAT_VER :: u8 where [mota_const]: "BOOT_FORMAT_VER = 0x03"
definition HASH_ALGO_SHA256 :: u8 where [mota_const]: "HASH_ALGO_SHA256 = 0x12"
definition MFLAG_FULL :: u8 where [mota_const]: "MFLAG_FULL = 0x01"
definition MFLAG_SIGNED :: u8 where [mota_const]: "MFLAG_SIGNED = 0x02"
definition MFLAG_BOOTLOADER :: u8 where [mota_const]: "MFLAG_BOOTLOADER = 0x04"
definition MFLAG_KNOWN :: u8 where
  "MFLAG_KNOWN = (MFLAG_FULL OR MFLAG_SIGNED OR MFLAG_BOOTLOADER)"
definition APPROVAL_NONE :: bytes where "APPROVAL_NONE = replicate 4 0xFF"
definition APPROVAL_YES :: bytes where "APPROVAL_YES = ascii ''APRV''"
definition MFL :: nat where [mota_const]: "MFL = 197"
definition SIGNED_LEN :: nat where [mota_const]: "SIGNED_LEN = 129"
definition HW_ID_LEN :: nat where [mota_const]: "HW_ID_LEN = 32"
definition DEFAULT_BLOCK_SIZE :: u32 where [mota_const]: "DEFAULT_BLOCK_SIZE = 2048"
definition MAX_APPLICATION_BLOCK_SIZE :: u32 where [mota_const]: "MAX_APPLICATION_BLOCK_SIZE = 2048"
definition BOOTLOADER_BLOCK_SIZE :: u32 where [mota_const]: "BOOTLOADER_BLOCK_SIZE = 1024"

lemma MFLAG_KNOWN_value [mota_const]: "MFLAG_KNOWN = 7"
  by (simp add: MFLAG_KNOWN_def mota_const)

lemma length_MAGIC [mota_len, simp]: "length MAGIC = 4"
  by (simp add: MAGIC_def)

lemma length_TRAILER [mota_len, simp]: "length TRAILER = TRAILER_LEN"
  by (simp add: TRAILER_def mota_const)

lemma length_APPROVAL_NONE [mota_len, simp]: "length APPROVAL_NONE = 4"
  by (simp add: APPROVAL_NONE_def)

text \<open>Manifest field offsets (\<open>mod off\<close>), relative to the start of the manifest.\<close>

definition off_FORMAT_VER :: nat where [mota_const]: "off_FORMAT_VER = 0"
definition off_FLAGS :: nat where [mota_const]: "off_FLAGS = 1"
definition off_HASH_ALGO :: nat where [mota_const]: "off_HASH_ALGO = 2"
definition off_TARGET_ID :: nat where [mota_const]: "off_TARGET_ID = 3"
definition off_FW_VERSION :: nat where [mota_const]: "off_FW_VERSION = 7"
definition off_IMAGE_SIZE :: nat where [mota_const]: "off_IMAGE_SIZE = 11"
definition off_PAYLOAD_SIZE :: nat where [mota_const]: "off_PAYLOAD_SIZE = 15"
definition off_BLOCK_SIZE_LOG2 :: nat where [mota_const]: "off_BLOCK_SIZE_LOG2 = 19"
definition off_MERKLE_ROOT :: nat where [mota_const]: "off_MERKLE_ROOT = 20"
definition off_IMAGE_HASH :: nat where [mota_const]: "off_IMAGE_HASH = 24"
definition off_CODEC_ID :: nat where [mota_const]: "off_CODEC_ID = 56"
definition off_HW_ID :: nat where [mota_const]: "off_HW_ID = 57"
definition off_BASE_HASH :: nat where [mota_const]: "off_BASE_HASH = 89"
definition off_SIGNER :: nat where [mota_const]: "off_SIGNER = 97"
definition off_SIGNATURE :: nat where [mota_const]: "off_SIGNATURE = 129"
definition off_APPROVAL :: nat where [mota_const]: "off_APPROVAL = 193"

section \<open>EndF trailer and nRF52 layout constants\<close>

definition ENDF_MAGIC :: bytes where "ENDF_MAGIC = ascii ''EndF''"
definition ENDF_LEN :: nat where [mota_const]: "ENDF_LEN = 56"
definition ENDF_OFF_FWVER :: nat where [mota_const]: "ENDF_OFF_FWVER = 16"
definition ENDF_OFF_TARGET :: nat where [mota_const]: "ENDF_OFF_TARGET = 20"
definition ENDF_OFF_HWID :: nat where [mota_const]: "ENDF_OFF_HWID = 24"

definition NRF52_FALLBACK_INPLACE_MEMORY :: u32 where
  [mota_const]: "NRF52_FALLBACK_INPLACE_MEMORY = 0x00098000"

definition NRF52_INPLACE_MEMORY :: u32 where
  [mota_const]: "NRF52_INPLACE_MEMORY = NRF52_FALLBACK_INPLACE_MEMORY"
definition NRF52_INPLACE_SEGMENT :: u32 where [mota_const]: "NRF52_INPLACE_SEGMENT = 4096"
definition NRF52_APP_BASE_S140_V6 :: u32 where [mota_const]: "NRF52_APP_BASE_S140_V6 = 0x00026000"
definition NRF52_APP_BASE_S140_V7 :: u32 where [mota_const]: "NRF52_APP_BASE_S140_V7 = 0x00027000"
definition NRF52_EXTRAFS_START :: u32 where [mota_const]: "NRF52_EXTRAFS_START = 0x000D4000"
definition NRF52_BOOT_SCRATCH_START :: u32 where [mota_const]: "NRF52_BOOT_SCRATCH_START = 0x000E0000"
definition NRF52_APP_END :: u32 where [mota_const]: "NRF52_APP_END = 0x000ED000"

definition NRF52_LAYOUT_MAGIC :: bytes where "NRF52_LAYOUT_MAGIC = ascii ''mOTALay1''"
definition NRF52_LAYOUT_VERSION :: u8 where [mota_const]: "NRF52_LAYOUT_VERSION = 1"
definition NRF52_LAYOUT_LEN :: nat where [mota_const]: "NRF52_LAYOUT_LEN = 24"
definition NRF52_LAYOUT_FLAG_SD :: u8 where [mota_const]: "NRF52_LAYOUT_FLAG_SD = 0x01"
definition NRF52_LAYOUT_FLAG_INTERNAL_EXTRAFS :: u8 where
  [mota_const]: "NRF52_LAYOUT_FLAG_INTERNAL_EXTRAFS = 0x02"
definition NRF52_LAYOUT_FLAG_QSPI :: u8 where [mota_const]: "NRF52_LAYOUT_FLAG_QSPI = 0x04"
definition NRF52_LAYOUT_FLAG_BOOTLOADER_SCRATCH :: u8 where
  [mota_const]: "NRF52_LAYOUT_FLAG_BOOTLOADER_SCRATCH = 0x08"
definition NRF52_LAYOUT_FLAG_HYBRID_RAM :: u8 where [mota_const]: "NRF52_LAYOUT_FLAG_HYBRID_RAM = 0x10"
definition NRF52_LAYOUT_FLAG_AUTO_STORE :: u8 where [mota_const]: "NRF52_LAYOUT_FLAG_AUTO_STORE = 0x20"
definition NRF52_LAYOUT_FLAGS_KNOWN :: u8 where
  "NRF52_LAYOUT_FLAGS_KNOWN = (NRF52_LAYOUT_FLAG_SD OR NRF52_LAYOUT_FLAG_INTERNAL_EXTRAFS OR
     NRF52_LAYOUT_FLAG_QSPI OR NRF52_LAYOUT_FLAG_BOOTLOADER_SCRATCH OR
     NRF52_LAYOUT_FLAG_HYBRID_RAM OR NRF52_LAYOUT_FLAG_AUTO_STORE)"
definition NRF52_HYBRID_RAM_SIZE :: u32 where [mota_const]: "NRF52_HYBRID_RAM_SIZE = 64 * 1024"
definition NRF52_FALLBACK_FLASH_SPAN :: u32 where
  "NRF52_FALLBACK_FLASH_SPAN = NRF52_EXTRAFS_START - NRF52_APP_BASE_S140_V7"

lemma NRF52_LAYOUT_FLAGS_KNOWN_value [mota_const]: "NRF52_LAYOUT_FLAGS_KNOWN = 0x3F"
  by (simp add: NRF52_LAYOUT_FLAGS_KNOWN_def mota_const)

lemma NRF52_FALLBACK_FLASH_SPAN_value [mota_const]: "NRF52_FALLBACK_FLASH_SPAN = 0xAD000"
  by (simp add: NRF52_FALLBACK_FLASH_SPAN_def mota_const)

lemma length_ENDF_MAGIC [mota_len, simp]: "length ENDF_MAGIC = 4"
  by (simp add: ENDF_MAGIC_def)

lemma length_NRF52_LAYOUT_MAGIC [mota_len, simp]: "length NRF52_LAYOUT_MAGIC = 8"
  by (simp add: NRF52_LAYOUT_MAGIC_def)

section \<open>Codec and firmware identity\<close>

datatype codec = Full | DetoolsSequential | DetoolsInplace

fun codec_u8 :: "codec \<Rightarrow> u8" where
  "codec_u8 Full = 0"
| "codec_u8 DetoolsSequential = 1"
| "codec_u8 DetoolsInplace = 2"

definition codec_from_u8 :: "u8 \<Rightarrow> codec option" where
  "codec_from_u8 v =
    (if v = 0 then Some Full
     else if v = 1 then Some DetoolsSequential
     else if v = 2 then Some DetoolsInplace
     else None)"

fun codec_label :: "codec \<Rightarrow> string" where
  "codec_label Full = ''full''"
| "codec_label DetoolsSequential = ''detools-sequential''"
| "codec_label DetoolsInplace = ''detools-in-place''"

fun codec_name_tag :: "codec \<Rightarrow> string" where
  "codec_name_tag Full = ''full''"
| "codec_name_tag DetoolsSequential = ''seqdelta''"
| "codec_name_tag DetoolsInplace = ''ipdelta''"

lemma codec_from_u8_codec_u8 [simp]: "codec_from_u8 (codec_u8 c) = Some c"
  by (cases c) (simp_all add: codec_from_u8_def)

lemma codec_u8_from_u8: "codec_from_u8 v = Some c \<Longrightarrow> codec_u8 c = v"
  by (auto simp: codec_from_u8_def split: if_splits)

lemma codec_u8_eq_0_iff [simp]: "codec_u8 c = 0 \<longleftrightarrow> c = Full"
  by (cases c) simp_all

record fw_ident =
  fw_version :: u32
  target_id :: u32
  hw_id :: bytes

definition fw_ident_default :: fw_ident where
  "fw_ident_default = \<lparr>fw_version = 0, target_id = 0, hw_id = []\<rparr>"

definition fw_ident_any :: "fw_ident \<Rightarrow> bool" where
  "fw_ident_any i \<longleftrightarrow> fw_version i \<noteq> 0 \<or> target_id i \<noteq> 0 \<or> hw_id i \<noteq> []"

section \<open>Byte helpers\<close>

text \<open>\<open>rd_u32\<close> and \<open>arr\<close> panic when the field does not lie inside the buffer.\<close>

definition rd_u32 :: "bytes \<Rightarrow> nat \<Rightarrow> u32 result" where
  "rd_u32 buf off = bindr (rng buf off (off + 4)) (\<lambda>s. Inr (u32_le s))"

definition wr_u32 :: "bytes \<Rightarrow> nat \<Rightarrow> u32 \<Rightarrow> bytes" where
  "wr_u32 buf off v = put off (le_u32 v) buf"

definition arr :: "nat \<Rightarrow> bytes \<Rightarrow> nat \<Rightarrow> bytes result" where
  "arr n buf off = rng buf off (off + n)"

lemma rd_u32_ok: "off + 4 \<le> length buf \<Longrightarrow> rd_u32 buf off = Inr (u32_le (slice off (off + 4) buf))"
  by (simp add: rd_u32_def rng_ok)

lemma arr_ok: "off + n \<le> length buf \<Longrightarrow> arr n buf off = Inr (slice off (off + n) buf)"
  by (simp add: arr_def rng_ok)

text \<open>
  \<open>String::from_utf8_lossy\<close>: well-formed UTF-8 is kept, and each maximal ill-formed prefix is
  replaced by U+FFFD. The case tables are those of the standard library's \<open>Utf8Chunks\<close>.
\<close>

definition utf8_replacement :: bytes where
  "utf8_replacement = [0xEF, 0xBF, 0xBD]"

definition utf8_cont :: "u8 \<Rightarrow> bool" where
  "utf8_cont b \<longleftrightarrow> 0x80 \<le> b \<and> b \<le> 0xBF"

definition utf8_second :: "u8 \<Rightarrow> u8 \<Rightarrow> bool" where
  "utf8_second b n \<longleftrightarrow>
    (if 0xC2 \<le> b \<and> b \<le> 0xDF then utf8_cont n
     else if b = 0xE0 then 0xA0 \<le> n \<and> n \<le> 0xBF
     else if b = 0xED then 0x80 \<le> n \<and> n \<le> 0x9F
     else if 0xE1 \<le> b \<and> b \<le> 0xEF then utf8_cont n
     else if b = 0xF0 then 0x90 \<le> n \<and> n \<le> 0xBF
     else if 0xF1 \<le> b \<and> b \<le> 0xF3 then utf8_cont n
     else if b = 0xF4 then 0x80 \<le> n \<and> n \<le> 0x8F
     else False)"

fun utf8_lossy :: "bytes \<Rightarrow> bytes" where
  "utf8_lossy [] = []"
| "utf8_lossy (b # bs) =
    (if b < 0x80 then b # utf8_lossy bs
     else case bs of
       [] \<Rightarrow> utf8_replacement
     | n # bs2 \<Rightarrow>
       if \<not> utf8_second b n then utf8_replacement @ utf8_lossy bs
       else if b \<le> 0xDF then b # n # utf8_lossy bs2
       else (case bs2 of
           [] \<Rightarrow> utf8_replacement
         | p # bs3 \<Rightarrow>
           if \<not> utf8_cont p then utf8_replacement @ utf8_lossy bs2
           else if b \<le> 0xEF then b # n # p # utf8_lossy bs3
           else (case bs3 of
               [] \<Rightarrow> utf8_replacement
             | q # bs4 \<Rightarrow>
               if \<not> utf8_cont q then utf8_replacement @ utf8_lossy bs3
               else b # n # p # q # utf8_lossy bs4)))"

definition cstr :: "bytes \<Rightarrow> bytes" where
  "cstr bs = utf8_lossy (takeWhile (\<lambda>b. b \<noteq> 0) bs)"

definition is_ascii :: "bytes \<Rightarrow> bool" where
  "is_ascii bs \<longleftrightarrow> list_all (\<lambda>b. b < 0x80) bs"

text \<open>\<open>std::str::from_utf8\<close> accepts the well-formed byte sequences of the Unicode standard.\<close>

fun utf8_ok :: "bytes \<Rightarrow> bool" where
  "utf8_ok [] = True"
| "utf8_ok (a # r) =
    (if a < 0x80 then utf8_ok r
     else if 0xC2 \<le> a \<and> a \<le> 0xDF then
       (case r of b # r1 \<Rightarrow> utf8_cont b \<and> utf8_ok r1 | _ \<Rightarrow> False)
     else if 0xE0 \<le> a \<and> a \<le> 0xEF then
       (case r of b # c # r2 \<Rightarrow>
          utf8_cont b \<and> (a = 0xE0 \<longrightarrow> 0xA0 \<le> b) \<and> (a = 0xED \<longrightarrow> b \<le> 0x9F) \<and> utf8_cont c \<and> utf8_ok r2
        | _ \<Rightarrow> False)
     else if 0xF0 \<le> a \<and> a \<le> 0xF4 then
       (case r of b # c # d # r3 \<Rightarrow>
          utf8_cont b \<and> (a = 0xF0 \<longrightarrow> 0x90 \<le> b) \<and> (a = 0xF4 \<longrightarrow> b \<le> 0x8F) \<and> utf8_cont c \<and>
          utf8_cont d \<and> utf8_ok r3
        | _ \<Rightarrow> False)
     else False)"

lemma utf8_ok_ascii: "is_ascii bs \<Longrightarrow> utf8_ok bs"
  by (induction bs) (simp_all add: is_ascii_def)

lemma utf8_lossy_ascii: "is_ascii bs \<Longrightarrow> utf8_lossy bs = bs"
  by (induction bs) (simp_all add: is_ascii_def)

lemma cstr_padded:
  assumes "is_ascii s" and "0 \<notin> set s"
  shows "cstr (s @ replicate k 0) = s"
proof -
  have "takeWhile (\<lambda>b. b \<noteq> 0) (s @ replicate k 0) = s"
    using assms(2) by (induction s) (cases k, auto)
  then show ?thesis using assms(1) by (simp add: cstr_def utf8_lossy_ascii)
qed

section \<open>The manifest record and its geometry\<close>

record manifest =
  m_format_ver :: u8
  m_flags :: u8
  m_hash_algo :: u8
  m_target_id :: u32
  m_fw_version :: u32
  m_image_size :: u32
  m_payload_size :: u32
  m_block_size_log2 :: u8
  m_block_count :: u32
  m_merkle_root :: bytes
  m_image_hash :: bytes
  m_codec_id :: u8
  m_hw_id :: bytes
  m_base_hash :: bytes
  m_signer :: bytes
  m_signature :: bytes
  m_approval :: bytes

definition is_full :: "manifest \<Rightarrow> bool" where
  "is_full m \<longleftrightarrow> m_flags m AND MFLAG_FULL \<noteq> 0"

definition is_signed :: "manifest \<Rightarrow> bool" where
  "is_signed m \<longleftrightarrow> m_flags m AND MFLAG_SIGNED \<noteq> 0"

definition is_bootloader :: "manifest \<Rightarrow> bool" where
  "is_bootloader m \<longleftrightarrow> m_flags m AND MFLAG_BOOTLOADER \<noteq> 0"

definition is_approved :: "manifest \<Rightarrow> bool" where
  "is_approved m \<longleftrightarrow> m_approval m = APPROVAL_YES"

definition block_size :: "manifest \<Rightarrow> u32" where
  "block_size m = push_bit (unat (m_block_size_log2 m)) 1"

definition manifest_codec :: "manifest \<Rightarrow> codec option" where
  "manifest_codec m = codec_from_u8 (m_codec_id m)"

definition leaves_off :: "manifest \<Rightarrow> nat" where
  "leaves_off m = HEADER_LEN + MFL"

definition payload_off :: "manifest \<Rightarrow> nat" where
  "payload_off m = leaves_off m + unat (m_block_count m) * 4"

definition total_size :: "manifest \<Rightarrow> nat" where
  "total_size m = payload_off m + unat (m_payload_size m) + TRAILER_LEN"

definition hw_id_str :: "manifest \<Rightarrow> bytes" where
  "hw_id_str m = cstr (m_hw_id m)"

end
