(* ===== verification/Mota_Transport.thy ===== *)
theory Mota_Transport
  imports Mota_Format
begin

text \<open>
  \<open>src/transport.rs\<close>: the choice among DEFLATE encodings of a block and the size of a payload sent
  block by block. The encoders are third-party code (\<open>zopfli\<close>, \<open>flate2\<close>): the record \<open>host\<close> holds them
  as functions of their input, together with the lower-case hex printer and the faults of the file system
  under the capture store.
  \<open>deflate_ok\<close> states what RFC 1951 promises of them: the inflater returns what was encoded.
\<close>

section \<open>The code\<close>

text \<open>
  A path is its list of components, a disk the part of the file system at hand. A write of a whole file may be
  refused or leave something else behind.
\<close>

type_synonym path = "bytes list"
type_synonym disk = "path \<rightharpoonup> bytes"

datatype fault = Refused | Partial bytes

record host =
  zopfli :: "nat \<Rightarrow> bytes \<Rightarrow> bytes option"
  zlib_best :: "bytes \<Rightarrow> bytes option"
  hex_lower :: "bytes \<Rightarrow> bytes"
  write_fault :: "disk \<Rightarrow> path \<Rightarrow> bytes \<Rightarrow> fault option"
  read_fault :: "disk \<Rightarrow> path \<Rightarrow> bool"
  rename_fault :: "disk \<Rightarrow> path \<Rightarrow> path \<Rightarrow> bool"

definition ZOPFLI_ITERATIONS :: nat where [mota_const]: "ZOPFLI_ITERATIONS = 1000"
definition MAX_TRANSPORT_BLOCK_SIZE :: nat where
  [mota_const]: "MAX_TRANSPORT_BLOCK_SIZE = unat MAX_APPLICATION_BLOCK_SIZE"

text \<open>\<open>NonZeroU64::new(iterations)?\<close> refuses zero iterations.\<close>

definition zopfli_raw :: "host \<Rightarrow> bytes \<Rightarrow> nat \<Rightarrow> bytes option" where
  "zopfli_raw h input iterations = (if iterations = 0 then None else zopfli h iterations input)"

definition zlib_best_raw :: "host \<Rightarrow> bytes \<Rightarrow> bytes option" where
  "zlib_best_raw h input = zlib_best h input"

fun shorter :: "bytes \<Rightarrow> bytes option \<Rightarrow> bytes" where
  "shorter best None = best"
| "shorter best (Some candidate) = (if length candidate < length best then candidate else best)"

definition deflate_raw :: "host \<Rightarrow> bytes \<Rightarrow> bytes option" where
  "deflate_raw h input =
    (case zopfli_raw h input ZOPFLI_ITERATIONS of
       None \<Rightarrow> None
     | Some best0 \<Rightarrow>
         let best1 = foldl (\<lambda>best iterations. shorter best (zopfli_raw h input iterations)) best0 [15, 100]
         in Some (shorter best1 (zlib_best_raw h input)))"

record deflate_transport_size =
  ts_payload_bytes :: nat
  ts_block_size :: nat
  ts_block_count :: nat
  ts_wire_bytes :: nat
  ts_deflate_bytes :: nat
  ts_deflate_blocks :: nat
  ts_data_packets :: nat

text \<open>One round of the loop over the blocks, on the four counters.\<close>

definition overflow_msg :: string where "overflow_msg = ''transport size overflow''"

definition transport_step :: "host \<Rightarrow> bytes \<Rightarrow> nat \<times> nat \<times> nat \<times> nat \<Rightarrow> (nat \<times> nat \<times> nat \<times> nat) result" where
  "transport_step h block acc =
    (let (wire, deflated, blocks, packets) = acc in
     bindr (of_opt ''raw DEFLATE encoder failed'' (deflate_raw h block)) (\<lambda>encoded.
     bindr (if encoded \<noteq> [] \<and> length encoded < length block then
              bindr (of_opt overflow_msg (checked_add64 deflated (length encoded))) (\<lambda>deflated'.
              Inr (deflated', blocks + 1, length encoded))
            else Inr (deflated, blocks, length block)) (\<lambda>(deflated', blocks', selected_len).
     bindr (of_opt overflow_msg (checked_add64 wire selected_len)) (\<lambda>wire'.
     bindr (of_opt overflow_msg (checked_add64 packets (div_ceil selected_len 171))) (\<lambda>packets'.
     Inr (wire', deflated', blocks', packets'))))))"

fun transport_loop :: "host \<Rightarrow> bytes list \<Rightarrow> nat \<times> nat \<times> nat \<times> nat \<Rightarrow> (nat \<times> nat \<times> nat \<times> nat) result" where
  "transport_loop h [] acc = Inr acc"
| "transport_loop h (block # blocks) acc = bindr (transport_step h block acc) (transport_loop h blocks)"

text \<open>\<open>usize::is_power_of_two\<close> on a value already known to be at most 2048.\<close>

definition transport_block_size_ok :: "nat \<Rightarrow> bool" where
  "transport_block_size_ok b \<longleftrightarrow>
    2 \<le> b \<and> b \<le> MAX_TRANSPORT_BLOCK_SIZE \<and> list_ex (\<lambda>k. b = 2 ^ k) [0..<64]"

definition deflate_transport_size_of :: "host \<Rightarrow> bytes \<Rightarrow> nat \<Rightarrow> deflate_transport_size result" where
  "deflate_transport_size_of h payload bs =
    ensure (payload \<noteq> []) ''payload is empty'' (
    ensure (transport_block_size_ok bs) ''block size must be a power of two between 2 and 2048 bytes'' (
    bindr (transport_loop h (chunks bs payload) (0, 0, 0, 0)) (\<lambda>(wire, deflated, blocks, packets).
    Inr \<lparr>ts_payload_bytes = length payload, ts_block_size = bs,
         ts_block_count = div_ceil (length payload) bs, ts_wire_bytes = wire,
         ts_deflate_bytes = deflated, ts_deflate_blocks = blocks, ts_data_packets = packets\<rparr>)))"

section \<open>What the encoders promise\<close>

definition deflate_ok :: "host \<Rightarrow> (bytes \<Rightarrow> bytes option) \<Rightarrow> bool" where
  "deflate_ok h inflate \<longleftrightarrow>
    (\<forall>n x y. zopfli h n x = Some y \<longrightarrow> inflate y = Some x) \<and> (\<forall>x y. zlib_best h x = Some y \<longrightarrow> inflate y = Some x)"

lemma shorter_or: "shorter b c = b \<or> c = Some (shorter b c)"
  by (cases c) auto

lemma length_shorter: "length (shorter b c) \<le> length b" "c = Some d \<Longrightarrow> length (shorter b c) \<le> length d"
  by (cases c; auto)+

lemma deflate_raw_source:
  "deflate_raw h x = Some y \<Longrightarrow> (\<exists>n. zopfli h n x = Some y) \<or> zlib_best h x = Some y"
proof -
  assume "deflate_raw h x = Some y"
  then obtain b0 where b0: "zopfli h 1000 x = Some b0"
    and y: "y = shorter (shorter (shorter b0 (zopfli h 15 x)) (zopfli h 100 x)) (zlib_best h x)"
    by (auto simp: deflate_raw_def zopfli_raw_def zlib_best_raw_def mota_const split: option.splits)
  show ?thesis
    unfolding y using b0 shorter_or by metis
qed

lemma inflate_deflate_raw: "deflate_ok h inflate \<Longrightarrow> deflate_raw h x = Some y \<Longrightarrow> inflate y = Some x"
  using deflate_raw_source [of h x y] by (auto simp: deflate_ok_def)

lemma deflate_raw_shortest:
  assumes "deflate_raw h x = Some y"
  shows "n \<in> {15, 100, 1000} \<Longrightarrow> zopfli h n x = Some z \<Longrightarrow> length y \<le> length z"
    and "zlib_best h x = Some z \<Longrightarrow> length y \<le> length z"
proof -
  obtain b0 where b0: "zopfli h 1000 x = Some b0"
    and y: "y = shorter (shorter (shorter b0 (zopfli h 15 x)) (zopfli h 100 x)) (zlib_best h x)"
    using assms by (auto simp: deflate_raw_def zopfli_raw_def zlib_best_raw_def mota_const split: option.splits)
  note l = length_shorter(1) [of "shorter (shorter b0 (zopfli h 15 x)) (zopfli h 100 x)" "zlib_best h x"]
    length_shorter(1) [of "shorter b0 (zopfli h 15 x)" "zopfli h 100 x"] length_shorter(1) [of b0 "zopfli h 15 x"]
  show "n \<in> {15, 100, 1000} \<Longrightarrow> zopfli h n x = Some z \<Longrightarrow> length y \<le> length z"
    using l b0 length_shorter(2) [of "zopfli h 15 x" z b0] length_shorter(2) [of "zopfli h 100 x" z "shorter b0 (zopfli h 15 x)"]
    unfolding y by auto
  show "zlib_best h x = Some z \<Longrightarrow> length y \<le> length z"
    unfolding y by (rule length_shorter(2))
qed

section \<open>The measured sizes are sums over the blocks\<close>

text \<open>What a block costs on the wire.\<close>

definition uses_deflate :: "host \<Rightarrow> bytes \<Rightarrow> bool" where
  "uses_deflate h block = (case deflate_raw h block of None \<Rightarrow> False
     | Some encoded \<Rightarrow> encoded \<noteq> [] \<and> length encoded < length block)"

definition wire_form :: "host \<Rightarrow> bytes \<Rightarrow> bytes" where
  "wire_form h block = (if uses_deflate h block then the (deflate_raw h block) else block)"

definition wire_len :: "host \<Rightarrow> bytes \<Rightarrow> nat" where
  "wire_len h block = length (wire_form h block)"

lemma wire_len_le: "wire_len h block \<le> length block"
  by (auto simp: wire_len_def wire_form_def uses_deflate_def split: option.splits)

lemma transport_step_eq:
  assumes "deflate_raw h block = Some encoded" and "deflated \<le> wire" and "packets \<le> wire"
    and "wire + length block < 2 ^ 64"
  shows "transport_step h block (wire, deflated, blocks, packets) =
    Inr (wire + wire_len h block, deflated + (if uses_deflate h block then wire_len h block else 0),
      blocks + (if uses_deflate h block then 1 else 0), packets + div_ceil (wire_len h block) 171)"
proof -
  have "div_ceil (wire_len h block) 171 \<le> length block"
    using div_ceil_le [of "wire_len h block" 171] wire_len_le [of h block] by linarith
  then have p: "packets + div_ceil (wire_len h block) 171 < 2 ^ 64" using assms by linarith
  show ?thesis
  proof (cases "uses_deflate h block")
    case True
    then have "encoded \<noteq> []" "length encoded < length block" "wire_len h block = length encoded"
      using assms(1) by (auto simp: uses_deflate_def wire_len_def wire_form_def)
    then show ?thesis using assms p True by (simp add: transport_step_def checked_add64_def)
  next
    case False
    then have "\<not> (encoded \<noteq> [] \<and> length encoded < length block)" "wire_len h block = length block"
      using assms(1) by (auto simp: uses_deflate_def wire_len_def wire_form_def)
    then show ?thesis using assms p False by (simp add: transport_step_def checked_add64_def)
  qed
qed

lemma transport_loop_eq:
  assumes "\<forall>b \<in> set bs. deflate_raw h b \<noteq> None" and "deflated \<le> wire" and "packets \<le> wire"
    and "wire + sum_list (map length bs) < 2 ^ 64"
  shows "transport_loop h bs (wire, deflated, blocks, packets) =
    Inr (wire + sum_list (map (wire_len h) bs), deflated + sum_list (map (wire_len h) (filter (uses_deflate h) bs)),
      blocks + length (filter (uses_deflate h) bs),
      packets + sum_list (map (\<lambda>b. div_ceil (wire_len h b) 171) bs))"
  using assms
proof (induction bs arbitrary: wire deflated blocks packets)
  case (Cons b bs)
  then obtain e where e: "deflate_raw h b = Some e" by auto
  have s: "transport_step h b (wire, deflated, blocks, packets) =
      Inr (wire + wire_len h b, deflated + (if uses_deflate h b then wire_len h b else 0),
        blocks + (if uses_deflate h b then 1 else 0), packets + div_ceil (wire_len h b) 171)"
    by (rule transport_step_eq [OF e]) (use Cons.prems in auto)
  note IH = Cons.IH [of "deflated + (if uses_deflate h b then wire_len h b else 0)" "wire + wire_len h b"
      "packets + div_ceil (wire_len h b) 171" "blocks + (if uses_deflate h b then 1 else 0)"]
  have "packets + div_ceil (wire_len h b) 171 \<le> wire + wire_len h b"
    using Cons.prems div_ceil_le [of "wire_len h b" 171] by linarith
  moreover have "wire + wire_len h b + sum_list (map length bs) < 2 ^ 64"
    using Cons.prems wire_len_le [of h b] by simp
  ultimately show ?case using IH Cons.prems s by simp
qed simp

lemma transport_loop_fail:
  "deflate_raw h b = None \<Longrightarrow> b \<in> set bs \<Longrightarrow> \<not> is_ok (transport_loop h bs acc)"
  by (induction bs arbitrary: acc) (fastforce simp: transport_step_def bindr_def split: sum.splits prod.splits)+

lemma transport_no_panic: "deflate_transport_size_of h payload bs \<noteq> Inl Panic"
proof -
  have s: "transport_step h b acc \<noteq> Inl Panic" for b acc
    by (auto simp: transport_step_def bindr_Panic split: prod.splits)
  have "transport_loop h bl acc \<noteq> Inl Panic" for bl acc
    by (induction bl arbitrary: acc) (auto simp: bindr_Panic s)
  then show ?thesis by (auto simp: deflate_transport_size_of_def bindr_Panic split: prod.splits)
qed

lemma deflate_transport_size_Inr:
  assumes "length payload < 2 ^ 64"
  shows "deflate_transport_size_of h payload bs = Inr r \<longleftrightarrow>
    payload \<noteq> [] \<and> transport_block_size_ok bs \<and> (\<forall>b \<in> set (chunks bs payload). deflate_raw h b \<noteq> None) \<and>
    r = \<lparr>ts_payload_bytes = length payload, ts_block_size = bs, ts_block_count = length (chunks bs payload),
         ts_wire_bytes = sum_list (map (wire_len h) (chunks bs payload)),
         ts_deflate_bytes = sum_list (map (wire_len h) (filter (uses_deflate h) (chunks bs payload))),
         ts_deflate_blocks = length (filter (uses_deflate h) (chunks bs payload)),
         ts_data_packets = sum_list (map (\<lambda>b. div_ceil (wire_len h b) 171) (chunks bs payload))\<rparr>"
proof (cases "transport_block_size_ok bs")
  case True
  then have pos: "0 < bs" by (simp add: transport_block_size_ok_def)
  have l: "sum_list (map length (chunks bs payload)) = length payload"
    using concat_chunks [OF pos, of payload] by (metis length_concat)
  show ?thesis
  proof (cases "\<forall>b \<in> set (chunks bs payload). deflate_raw h b \<noteq> None")
    case all: True
    then show ?thesis
      using transport_loop_eq [OF all, of 0 0 0 0] l assms True pos
      by (auto simp: deflate_transport_size_of_def length_chunks)
  next
    case False
    then obtain b where "b \<in> set (chunks bs payload)" "deflate_raw h b = None" by auto
    then have "\<not> is_ok (transport_loop h (chunks bs payload) (0, 0, 0, 0))" by (intro transport_loop_fail)
    then show ?thesis using False by (auto simp: deflate_transport_size_of_def)
  qed
next
  case False
  then show ?thesis by (simp add: deflate_transport_size_of_def)
qed

end
