(* ===== verification/Mota_Boards.thy ===== *)
theory Mota_Boards
  imports Mota_Format
begin

text \<open>
  The qualified OTAFIX boards of \<open>src/bootloader.rs\<close>: the enumeration \<open>BootloaderBoard\<close> with its
  identity, storage profile and compatibility tuple, the identity tables the image validator uses,
  and the canonical hardware id. The tables are those \<open>validate_bootloader_inventory\<close> (in
  \<open>Mota_Bootloader\<close>) checks.
\<close>

section \<open>Constants\<close>

definition IMAGE_START :: u32 where [mota_const]: "IMAGE_START = 0x000F4000"
definition IMAGE_SIZE :: nat where [mota_const]: "IMAGE_SIZE = 0x0000A000"
definition MANIFEST_MAGIC :: bytes where "MANIFEST_MAGIC = ascii ''BLMFCRC1''"
definition MANIFEST_VERSION :: u16 where [mota_const]: "MANIFEST_VERSION = 1"
definition MANIFEST_SIZE :: nat where [mota_const]: "MANIFEST_SIZE = 44"
definition CONTINUITY_MAGIC :: bytes where "CONTINUITY_MAGIC = ascii ''BLM2SOFT''"
definition CONTINUITY_VERSION :: u16 where [mota_const]: "CONTINUITY_VERSION = 2"
definition CONTINUITY_SIZE :: nat where [mota_const]: "CONTINUITY_SIZE = 32"
definition ENVELOPE_SIZE :: nat where "ENVELOPE_SIZE = MANIFEST_SIZE + CONTINUITY_SIZE"
definition CANDIDATE_MANIFEST_OFFSET :: nat where "CANDIDATE_MANIFEST_OFFSET = IMAGE_SIZE - ENVELOPE_SIZE"
definition CAPS_MAGIC :: bytes where "CAPS_MAGIC = ascii ''MOTABLDR''"
definition BLOCK_COUNT :: nat where "BLOCK_COUNT = IMAGE_SIZE div unat BOOTLOADER_BLOCK_SIZE"
definition PACKAGE_SIZE :: nat where
  "PACKAGE_SIZE = HEADER_LEN + MFL + BLOCK_COUNT * 4 + IMAGE_SIZE + TRAILER_LEN"

definition STORAGE_SD :: u8 where [mota_const]: "STORAGE_SD = 0x01"
definition STORAGE_STAGE_CEILING :: u8 where [mota_const]: "STORAGE_STAGE_CEILING = 0x02"
definition STORAGE_QSPI :: u8 where [mota_const]: "STORAGE_QSPI = 0x04"
definition STORAGE_UPDATE :: u8 where [mota_const]: "STORAGE_UPDATE = 0x08"
definition STORAGE_HEADER_W25 :: u8 where [mota_const]: "STORAGE_HEADER_W25 = 0x10"
definition STORAGE_KNOWN :: u8 where [mota_const]: "STORAGE_KNOWN = 0x1F"
definition STORAGE_SD_UPDATE :: u8 where "STORAGE_SD_UPDATE = (STORAGE_SD OR STORAGE_UPDATE)"
definition STORAGE_QSPI_UPDATE :: u8 where
  "STORAGE_QSPI_UPDATE = (STORAGE_STAGE_CEILING OR STORAGE_QSPI OR STORAGE_UPDATE)"
definition STORAGE_INTERNAL_UPDATE :: u8 where
  "STORAGE_INTERNAL_UPDATE = (STORAGE_STAGE_CEILING OR STORAGE_UPDATE)"
definition STORAGE_RAK_AUTO_RECOVERY :: u8 where
  "STORAGE_RAK_AUTO_RECOVERY = (STORAGE_STAGE_CEILING OR STORAGE_QSPI OR STORAGE_HEADER_W25)"

definition REQUIRED_FORMAT_ABI :: u16 where [mota_const]: "REQUIRED_FORMAT_ABI = 3"
definition REQUIRED_APP_CODEC_MASK :: u16 where
  "REQUIRED_APP_CODEC_MASK = (push_bit 0 1 OR push_bit 2 1)"
definition FAMILY_S140 :: u16 where [mota_const]: "FAMILY_S140 = 140"
definition S140_V6_FWID :: u16 where [mota_const]: "S140_V6_FWID = 0x00B6"
definition S140_V7_FWID :: u16 where [mota_const]: "S140_V7_FWID = 0x0123"
definition APP_BASE_S140_V6 :: u32 where [mota_const]: "APP_BASE_S140_V6 = 0x00026000"
definition APP_BASE_S140_V7 :: u32 where [mota_const]: "APP_BASE_S140_V7 = 0x00027000"
definition LAYOUT_ABI :: u16 where [mota_const]: "LAYOUT_ABI = 1"
definition XIAO_BASE :: u32 where [mota_const]: "XIAO_BASE = 0x28860044"
definition XIAO_SENSE :: u32 where [mota_const]: "XIAO_SENSE = 0x28860045"

lemma boot_const_values [mota_const]:
  "ENVELOPE_SIZE = 76" "CANDIDATE_MANIFEST_OFFSET = 0x9FB4" "BLOCK_COUNT = 40" "PACKAGE_SIZE = 41330"
  "STORAGE_SD_UPDATE = 0x09" "STORAGE_QSPI_UPDATE = 0x0E" "STORAGE_INTERNAL_UPDATE = 0x0A"
  "STORAGE_RAK_AUTO_RECOVERY = 0x16" "REQUIRED_APP_CODEC_MASK = 5"
  by (simp_all add: ENVELOPE_SIZE_def CANDIDATE_MANIFEST_OFFSET_def BLOCK_COUNT_def PACKAGE_SIZE_def
      STORAGE_SD_UPDATE_def STORAGE_QSPI_UPDATE_def STORAGE_INTERNAL_UPDATE_def
      STORAGE_RAK_AUTO_RECOVERY_def REQUIRED_APP_CODEC_MASK_def mota_const push_bit_eq_mult)

section \<open>Boards\<close>

datatype bootloader_board =
    XiaoNrf52840Ble
  | XiaoNrf52840BleSense
  | Gat562
  | HeltecMeshTowerV2
  | HeltecMeshPocket
  | HeltecT096
  | HeltecT1
  | HeltecT114
  | KeepteenLt1
  | MinewsemiMx25le01
  | PromicroNrf52840
  | T1000E
  | ThinknodeM3
  | WiscoreRak3401
  | WiscoreRak4631Board
  | WiscoreRak3401Auto
  | WiscoreRak4631Auto
  | WismeshTag
  | LilygoTecho
  | LilygoTechoLite
  | Pca10056
  | SensecapSolarP1
  | ThinknodeM1
  | ThinknodeM6
  | WioTrackerL1
  | WiscoreRak3401Rak13302W25q16
  | WiscoreRak4631BoardRak15001SlotC
  | WiscoreRak4631W25q16

definition BOOTLOADER_BOARDS :: "bootloader_board list" where
  "BOOTLOADER_BOARDS =
    [XiaoNrf52840Ble,
     XiaoNrf52840BleSense,
     Gat562,
     HeltecMeshTowerV2,
     HeltecMeshPocket,
     HeltecT096,
     HeltecT1,
     HeltecT114,
     KeepteenLt1,
     MinewsemiMx25le01,
     PromicroNrf52840,
     T1000E,
     ThinknodeM3,
     WiscoreRak3401,
     WiscoreRak4631Board,
     WiscoreRak3401Auto,
     WiscoreRak4631Auto,
     WismeshTag,
     LilygoTecho,
     LilygoTechoLite,
     Pca10056,
     SensecapSolarP1,
     ThinknodeM1,
     ThinknodeM6,
     WioTrackerL1,
     WiscoreRak3401Rak13302W25q16,
     WiscoreRak4631BoardRak15001SlotC,
     WiscoreRak4631W25q16]"

fun board_board_id :: "bootloader_board \<Rightarrow> u32" where
  "board_board_id XiaoNrf52840Ble = XIAO_BASE"
| "board_board_id XiaoNrf52840BleSense = XIAO_SENSE"
| "board_board_id Gat562 = 0x239A0029"
| "board_board_id HeltecMeshTowerV2 = 0x239A0071"
| "board_board_id HeltecMeshPocket = 0x239A0071"
| "board_board_id HeltecT096 = 0x239A0071"
| "board_board_id HeltecT1 = 0x239A0071"
| "board_board_id HeltecT114 = 0x239A0071"
| "board_board_id KeepteenLt1 = 0x239A00B3"
| "board_board_id MinewsemiMx25le01 = 0x239A0029"
| "board_board_id PromicroNrf52840 = 0x239A00B3"
| "board_board_id T1000E = 0x28860057"
| "board_board_id ThinknodeM3 = 0x239A00DA"
| "board_board_id WiscoreRak3401 = 0x239A0029"
| "board_board_id WiscoreRak4631Board = 0x239A0029"
| "board_board_id WiscoreRak3401Auto = 0x239A0029"
| "board_board_id WiscoreRak4631Auto = 0x239A0029"
| "board_board_id WismeshTag = 0x239A0029"
| "board_board_id LilygoTecho = 0x239A0029"
| "board_board_id LilygoTechoLite = 0x239A00DA"
| "board_board_id Pca10056 = 0x239A00DA"
| "board_board_id SensecapSolarP1 = 0x28860044"
| "board_board_id ThinknodeM1 = 0x239A00DA"
| "board_board_id ThinknodeM6 = 0x239A00DA"
| "board_board_id WioTrackerL1 = 0x28861667"
| "board_board_id WiscoreRak3401Rak13302W25q16 = 0x239A0029"
| "board_board_id WiscoreRak4631BoardRak15001SlotC = 0x239A0029"
| "board_board_id WiscoreRak4631W25q16 = 0x239A0029"

fun board_name :: "bootloader_board \<Rightarrow> string" where
  "board_name XiaoNrf52840Ble = ''xiao_nrf52840_ble''"
| "board_name XiaoNrf52840BleSense = ''xiao_nrf52840_ble_sense''"
| "board_name Gat562 = ''gat562''"
| "board_name HeltecMeshTowerV2 = ''heltec_mesh_tower_v2''"
| "board_name HeltecMeshPocket = ''heltec_mesh_pocket''"
| "board_name HeltecT096 = ''heltec_t096''"
| "board_name HeltecT1 = ''heltec_t1''"
| "board_name HeltecT114 = ''heltec_t114''"
| "board_name KeepteenLt1 = ''keepteen_lt1''"
| "board_name MinewsemiMx25le01 = ''minewsemi_mx25le01''"
| "board_name PromicroNrf52840 = ''promicro_nrf52840''"
| "board_name T1000E = ''t1000_e''"
| "board_name ThinknodeM3 = ''thinknode_m3''"
| "board_name WiscoreRak3401 = ''wiscore_rak3401''"
| "board_name WiscoreRak4631Board = ''wiscore_rak4631_board''"
| "board_name WiscoreRak3401Auto = ''wiscore_rak3401_auto''"
| "board_name WiscoreRak4631Auto = ''wiscore_rak4631_auto''"
| "board_name WismeshTag = ''wismesh_tag''"
| "board_name LilygoTecho = ''lilygo_techo''"
| "board_name LilygoTechoLite = ''lilygo_techo_lite''"
| "board_name Pca10056 = ''pca10056''"
| "board_name SensecapSolarP1 = ''sensecap_solar_p1''"
| "board_name ThinknodeM1 = ''thinknode_m1''"
| "board_name ThinknodeM6 = ''thinknode_m6''"
| "board_name WioTrackerL1 = ''wio_tracker_l1''"
| "board_name WiscoreRak3401Rak13302W25q16 = ''wiscore_rak3401_rak13302_w25q16''"
| "board_name WiscoreRak4631BoardRak15001SlotC = ''wiscore_rak4631_board_rak15001_slot_c''"
| "board_name WiscoreRak4631W25q16 = ''wiscore_rak4631_w25q16''"

fun board_device_name :: "bootloader_board \<Rightarrow> string" where
  "board_device_name XiaoNrf52840Ble = ''XIAO_DFU''"
| "board_device_name XiaoNrf52840BleSense = ''XIAO_DFU''"
| "board_device_name Gat562 = ''GAT562_DFU''"
| "board_device_name HeltecMeshTowerV2 = ''TOWER_V2_OTA''"
| "board_device_name HeltecMeshPocket = ''MESH_POCKET_OTA''"
| "board_device_name HeltecT096 = ''T096_DFU''"
| "board_device_name HeltecT1 = ''T1_DFU''"
| "board_device_name HeltecT114 = ''T114_DFU''"
| "board_device_name KeepteenLt1 = ''KeepteenLT1_OTA''"
| "board_device_name MinewsemiMx25le01 = ''MX25_DFU''"
| "board_device_name PromicroNrf52840 = ''PROM_DFU''"
| "board_device_name T1000E = ''T1KE_DFU''"
| "board_device_name ThinknodeM3 = ''TNM3_DFU''"
| "board_device_name WiscoreRak3401 = ''3401_DFU''"
| "board_device_name WiscoreRak4631Board = ''4631_DFU''"
| "board_device_name WiscoreRak3401Auto = ''3401_AUTO_DFU''"
| "board_device_name WiscoreRak4631Auto = ''4631_AUTO_DFU''"
| "board_device_name WismeshTag = ''RTAG_DFU''"
| "board_device_name LilygoTecho = ''LGTE_DFU''"
| "board_device_name LilygoTechoLite = ''LTEL_DFU''"
| "board_device_name Pca10056 = ''N056_DFU''"
| "board_device_name SensecapSolarP1 = ''SCAP_DFU''"
| "board_device_name ThinknodeM1 = ''TNM1_DFU''"
| "board_device_name ThinknodeM6 = ''TNM6_DFU''"
| "board_device_name WioTrackerL1 = ''WTL1_DFU''"
| "board_device_name WiscoreRak3401Rak13302W25q16 = ''3401_W25Q16_DFU''"
| "board_device_name WiscoreRak4631BoardRak15001SlotC = ''4631_15001C_DFU''"
| "board_device_name WiscoreRak4631W25q16 = ''4631_W25Q16_DFU''"

fun board_storage_profile :: "bootloader_board \<Rightarrow> u8" where
  "board_storage_profile XiaoNrf52840Ble = STORAGE_QSPI_UPDATE"
| "board_storage_profile XiaoNrf52840BleSense = STORAGE_QSPI_UPDATE"
| "board_storage_profile Gat562 = STORAGE_INTERNAL_UPDATE"
| "board_storage_profile HeltecMeshTowerV2 = STORAGE_INTERNAL_UPDATE"
| "board_storage_profile HeltecMeshPocket = STORAGE_INTERNAL_UPDATE"
| "board_storage_profile HeltecT096 = STORAGE_INTERNAL_UPDATE"
| "board_storage_profile HeltecT1 = STORAGE_INTERNAL_UPDATE"
| "board_storage_profile HeltecT114 = STORAGE_INTERNAL_UPDATE"
| "board_storage_profile KeepteenLt1 = STORAGE_INTERNAL_UPDATE"
| "board_storage_profile MinewsemiMx25le01 = STORAGE_INTERNAL_UPDATE"
| "board_storage_profile PromicroNrf52840 = STORAGE_INTERNAL_UPDATE"
| "board_storage_profile T1000E = STORAGE_INTERNAL_UPDATE"
| "board_storage_profile ThinknodeM3 = STORAGE_INTERNAL_UPDATE"
| "board_storage_profile WiscoreRak3401 = STORAGE_INTERNAL_UPDATE"
| "board_storage_profile WiscoreRak4631Board = STORAGE_INTERNAL_UPDATE"
| "board_storage_profile WiscoreRak3401Auto = STORAGE_RAK_AUTO_RECOVERY"
| "board_storage_profile WiscoreRak4631Auto = STORAGE_RAK_AUTO_RECOVERY"
| "board_storage_profile WismeshTag = STORAGE_INTERNAL_UPDATE"
| "board_storage_profile LilygoTecho = STORAGE_QSPI_UPDATE"
| "board_storage_profile LilygoTechoLite = STORAGE_QSPI_UPDATE"
| "board_storage_profile Pca10056 = STORAGE_QSPI_UPDATE"
| "board_storage_profile SensecapSolarP1 = STORAGE_QSPI_UPDATE"
| "board_storage_profile ThinknodeM1 = STORAGE_QSPI_UPDATE"
| "board_storage_profile ThinknodeM6 = STORAGE_QSPI_UPDATE"
| "board_storage_profile WioTrackerL1 = STORAGE_QSPI_UPDATE"
| "board_storage_profile WiscoreRak3401Rak13302W25q16 = STORAGE_QSPI_UPDATE"
| "board_storage_profile WiscoreRak4631BoardRak15001SlotC = STORAGE_QSPI_UPDATE"
| "board_storage_profile WiscoreRak4631W25q16 = STORAGE_QSPI_UPDATE"

text \<open>The source's \<open>_\<close> arms are written out per board.\<close>

definition board_accepts_storage_profile :: "bootloader_board \<Rightarrow> u8 \<Rightarrow> bool" where
  "board_accepts_storage_profile b profile =
    (if b = HeltecMeshTowerV2 then profile = STORAGE_INTERNAL_UPDATE \<or> profile = STORAGE_SD_UPDATE
     else profile = board_storage_profile b)"

definition board_profile_name :: "bootloader_board \<Rightarrow> u8 \<Rightarrow> string option" where
  "board_profile_name b profile =
    (if b = HeltecMeshTowerV2 \<and> profile = STORAGE_SD_UPDATE then Some ''heltec_mesh_tower_v2_sdcard''
     else if profile = board_storage_profile b then Some (board_name b)
     else None)"

record bootloader_compatibility =
  softdevice_family :: u16
  softdevice_fwid :: u16
  compat_app_base :: u32
  compat_layout_abi :: u16

definition board_compatibility :: "bootloader_board \<Rightarrow> bootloader_compatibility" where
  "board_compatibility b =
    (if b \<in> {XiaoNrf52840Ble, XiaoNrf52840BleSense, MinewsemiMx25le01, T1000E, SensecapSolarP1, WioTrackerL1}
     then \<lparr>softdevice_family = FAMILY_S140, softdevice_fwid = S140_V7_FWID,
           compat_app_base = APP_BASE_S140_V7, compat_layout_abi = LAYOUT_ABI\<rparr>
     else \<lparr>softdevice_family = FAMILY_S140, softdevice_fwid = S140_V6_FWID,
           compat_app_base = APP_BASE_S140_V6, compat_layout_abi = LAYOUT_ABI\<rparr>)"

section \<open>Identity tables\<close>

definition INTERNAL_IDENTITIES :: "(u32 \<times> bytes) list" where
  "INTERNAL_IDENTITIES =
    [(0x239A0029, ascii ''GAT562_DFU''),
     (0x239A0071, ascii ''TOWER_V2_OTA''),
     (0x239A0071, ascii ''T096_DFU''),
     (0x239A0071, ascii ''T1_DFU''),
     (0x239A0071, ascii ''T114_DFU''),
     (0x239A0071, ascii ''MESH_POCKET_OTA''),
     (0x239A00B3, ascii ''KeepteenLT1_OTA''),
     (0x239A0029, ascii ''MX25_DFU''),
     (0x239A00B3, ascii ''PROM_DFU''),
     (0x28860057, ascii ''T1KE_DFU''),
     (0x239A00DA, ascii ''TNM3_DFU''),
     (0x239A0029, ascii ''3401_DFU''),
     (0x239A0029, ascii ''4631_DFU''),
     (0x239A0029, ascii ''RTAG_DFU''),
     (0x239A0029, ascii ''LGTE_DFU''),
     (0x239A00DA, ascii ''LTEL_DFU''),
     (0x239A00DA, ascii ''N056_DFU''),
     (0x28860044, ascii ''SCAP_DFU''),
     (0x239A00DA, ascii ''TNM1_DFU''),
     (0x239A00DA, ascii ''TNM6_DFU''),
     (0x28861667, ascii ''WTL1_DFU''),
     (0x239A0029, ascii ''3401_W25Q16_DFU''),
     (0x239A0029, ascii ''4631_15001C_DFU''),
     (0x239A0029, ascii ''4631_W25Q16_DFU'')]"

definition RAK_AUTO_RECOVERY_IDENTITIES :: "(u32 \<times> bytes) list" where
  "RAK_AUTO_RECOVERY_IDENTITIES =
    [(0x239A0029, ascii ''3401_AUTO_DFU''),
     (0x239A0029, ascii ''4631_AUTO_DFU'')]"

definition S140_V7_IDENTITIES :: "(u32 \<times> bytes) list" where
  "S140_V7_IDENTITIES =
    [(XIAO_BASE, ascii ''XIAO_DFU''),
     (XIAO_SENSE, ascii ''XIAO_DFU''),
     (0x239A0029, ascii ''MX25_DFU''),
     (0x28860057, ascii ''T1KE_DFU''),
     (0x28860044, ascii ''SCAP_DFU''),
     (0x28861667, ascii ''WTL1_DFU'')]"

definition qualified_storage :: "u32 \<Rightarrow> bytes \<Rightarrow> u8 list" where
  "qualified_storage board_id name =
    (if board_id \<in> {XIAO_BASE, XIAO_SENSE} \<and> name = ascii ''XIAO_DFU'' then [STORAGE_QSPI_UPDATE]
     else if (board_id, name) \<in> set RAK_AUTO_RECOVERY_IDENTITIES then [STORAGE_RAK_AUTO_RECOVERY]
     else if (board_id, name) \<in>
         {(0x239A0029, ascii ''LGTE_DFU''), (0x239A00DA, ascii ''LTEL_DFU''),
          (0x239A00DA, ascii ''N056_DFU''), (0x28860044, ascii ''SCAP_DFU''),
          (0x239A00DA, ascii ''TNM1_DFU''), (0x239A00DA, ascii ''TNM6_DFU''),
          (0x28861667, ascii ''WTL1_DFU''), (0x239A0029, ascii ''3401_W25Q16_DFU''),
          (0x239A0029, ascii ''4631_15001C_DFU''), (0x239A0029, ascii ''4631_W25Q16_DFU'')}
       then [STORAGE_QSPI_UPDATE]
     else if board_id = 0x239A0071 \<and> name = ascii ''TOWER_V2_OTA''
       then [STORAGE_INTERNAL_UPDATE, STORAGE_SD_UPDATE]
     else [STORAGE_INTERNAL_UPDATE])"

definition qualified_platform :: "u32 \<Rightarrow> bytes \<Rightarrow> (u16 \<times> u16 \<times> u32 \<times> u16) option" where
  "qualified_platform board_id name =
    (if \<not> (board_id \<in> {XIAO_BASE, XIAO_SENSE} \<and> name = ascii ''XIAO_DFU'' \<or>
           (board_id, name) \<in> set INTERNAL_IDENTITIES \<or>
           (board_id, name) \<in> set RAK_AUTO_RECOVERY_IDENTITIES) then None
     else Some (if (board_id, name) \<in> set S140_V7_IDENTITIES
                then (FAMILY_S140, S140_V7_FWID, APP_BASE_S140_V7, LAYOUT_ABI)
                else (FAMILY_S140, S140_V6_FWID, APP_BASE_S140_V6, LAYOUT_ABI)))"

section \<open>Device names and hardware ids\<close>

definition version_valid :: "u32 \<Rightarrow> bool" where
  "version_valid v \<longleftrightarrow> v \<noteq> 0 \<and> v \<noteq> 0xFFFFFFFF \<and> v AND 0xFF \<noteq> 0"

definition padded_name :: "bytes \<Rightarrow> bytes result" where
  "padded_name name =
    ensure (length name \<le> 15) ''bootloader device name exceeds 15 bytes''
      (Inr (put 0 name (replicate 16 0)))"

text \<open>\<open>raw\<close> is the 16-byte field; \<open>iter().position\<close> of the first NUL is the length of the NUL-free prefix.\<close>

definition valid_device_name :: "u32 \<Rightarrow> bytes \<Rightarrow> bytes option" where
  "valid_device_name board_id raw =
    (if board_id = 0 \<or> board_id = 0xFFFFFFFF then None
     else if board_id \<in> {XIAO_BASE, XIAO_SENSE} \<and> raw = ascii ''XIAO_DFU'' @ replicate 8 0
       then Some (ascii ''XIAO_DFU'')
     else if 0 \<notin> set raw then None
     else let pre = takeWhile (\<lambda>b. b \<noteq> 0) raw in
       if pre = [] \<or> list_ex (\<lambda>b. b \<noteq> 0) (drop (length pre) raw) \<or>
          list_ex (\<lambda>b. \<not> (0x21 \<le> b \<and> b \<le> 0x7E)) pre
       then None
       else Some pre)"

definition hex_digit :: "nat \<Rightarrow> u8" where
  "hex_digit d = of_nat (if d < 10 then 48 + d else 55 + d)"

text \<open>The format \<open>{:08X}\<close>.\<close>

definition hex8 :: "u32 \<Rightarrow> bytes" where
  "hex8 v = map (\<lambda>i. hex_digit (unat (drop_bit (4 * i) v AND 0xF))) [7, 6, 5, 4, 3, 2, 1, 0]"

definition bootloader_hw_id :: "u32 \<Rightarrow> bytes \<Rightarrow> bytes result" where
  "bootloader_hw_id board_id device_name =
    bindr (if length device_name \<le> 15
           then bindr (padded_name device_name) (\<lambda>raw. Inr (valid_device_name board_id raw = Some device_name))
           else Inr False) (\<lambda>valid.
    ensure valid ''invalid embedded bootloader board/name identity'' (
    let txt = (if board_id = XIAO_BASE \<and> device_name = ascii ''XIAO_DFU'' then ascii ''XIAO_BL_28860044''
               else if board_id = XIAO_SENSE \<and> device_name = ascii ''XIAO_DFU'' then ascii ''XIAO_BL_28860045''
               else ascii ''NRF_BL_'' @ hex8 board_id @ ascii ''_'' @ device_name)
    in ensure (length txt \<le> 32) ''canonical bootloader hw_id exceeds 32 bytes''
         (Inr (put 0 txt (replicate 32 0)))))"

lemma length_hex8 [mota_len, simp]: "length (hex8 v) = 8"
  by (simp add: hex8_def)

section \<open>Properties\<close>

lemma ascii_inject [simp]: "ascii s = ascii t \<longleftrightarrow> s = t"
proof -
  have "inj (of_char :: char \<Rightarrow> u8)"
  proof (rule injI)
    fix x y :: char
    assume "(of_char x :: u8) = of_char y"
    then have "unat (of_char x :: u8) = unat (of_char y :: u8)" by simp
    then have "of_char x mod 256 = (of_char y mod 256 :: nat)"
      by (metis of_nat_of_char unat_of_nat_u8)
    then show "x = y" by simp
  qed
  then show ?thesis by (auto simp: ascii_def inj_map_eq_map)
qed

lemma put_zeros: "length s \<le> n \<Longrightarrow> put 0 s (replicate n 0) = s @ replicate (n - length s) 0"
  by (simp add: put_def)

definition name_ok :: "bytes \<Rightarrow> bool" where
  "name_ok n \<longleftrightarrow> n \<noteq> [] \<and> length n \<le> 15 \<and> list_all (\<lambda>b. 0x21 \<le> b \<and> b \<le> 0x7E) n"

lemma name_ok_no_nul: "name_ok n \<Longrightarrow> 0 \<notin> set n"
  by (auto simp: name_ok_def list_all_iff)

lemma takeWhile_nul: "0 \<notin> set n \<Longrightarrow> takeWhile (\<lambda>b. b \<noteq> 0) (n @ 0 # zs) = n"
  by (induction n) auto

lemma takeWhile_pad: "0 \<notin> set n \<Longrightarrow> 0 < k \<Longrightarrow> takeWhile (\<lambda>b. b \<noteq> 0) (n @ replicate k 0) = n"
  by (cases k) (simp_all add: takeWhile_nul)

lemma valid_device_name_padded:
  assumes "length n \<le> 15"
  shows "valid_device_name b (n @ replicate (16 - length n) 0) = Some n \<longleftrightarrow>
    b \<noteq> 0 \<and> b \<noteq> 0xFFFFFFFF \<and> name_ok n"
proof -
  let ?raw = "n @ replicate (16 - length n) 0"
  let ?pre = "takeWhile (\<lambda>b. b \<noteq> 0) ?raw"
  have k: "replicate (16 - length n) (0 :: u8) = 0 # replicate (15 - length n) 0"
  proof -
    have "16 - length n = Suc (15 - length n)" using assms by arith
    then show ?thesis by (simp only: replicate_Suc)
  qed
  have nul: "0 \<in> set ?raw" by (simp add: k)
  have pre: "0 \<notin> set n \<Longrightarrow> ?pre = n" by (simp add: k takeWhile_nul)
  have pre': "0 \<in> set n \<Longrightarrow> ?pre \<noteq> n" by (metis set_takeWhileD)
  have x: "?raw = ascii ''XIAO_DFU'' @ replicate 8 0 \<Longrightarrow> n = ascii ''XIAO_DFU''"
    if "0 \<notin> set n"
  proof -
    assume "?raw = ascii ''XIAO_DFU'' @ replicate 8 0"
    then have "?pre = takeWhile (\<lambda>b. b \<noteq> 0) (ascii ''XIAO_DFU'' @ replicate 8 0)" by simp
    also have "\<dots> = ascii ''XIAO_DFU''" by (rule takeWhile_pad) (simp_all add: ascii_def)
    finally show ?thesis using pre [OF that] by simp
  qed
  show ?thesis
  proof (cases "0 \<in> set n")
    case True
    then have "ascii ''XIAO_DFU'' \<noteq> n" by (auto simp: ascii_def)
    with True pre' nul name_ok_no_nul [of n] show ?thesis
      by (auto simp: valid_device_name_def Let_def)
  next
    case False
    have xo: "name_ok (ascii ''XIAO_DFU'')" by (simp add: name_ok_def ascii_def)
    from False pre nul x xo show ?thesis
      by (auto simp: valid_device_name_def Let_def name_ok_def list_ex_iff list_all_iff assms)
  qed
qed


text \<open>The text of the hardware id before padding.\<close>

definition hw_text :: "u32 \<Rightarrow> bytes \<Rightarrow> bytes" where
  "hw_text b n =
    (if b = XIAO_BASE \<and> n = ascii ''XIAO_DFU'' then ascii ''XIAO_BL_28860044''
     else if b = XIAO_SENSE \<and> n = ascii ''XIAO_DFU'' then ascii ''XIAO_BL_28860045''
     else ascii ''NRF_BL_'' @ hex8 b @ ascii ''_'' @ n)"

lemma unat_hex_digit: "d < 16 \<Longrightarrow> unat (hex_digit d) = (if d < 10 then 48 + d else 55 + d)"
  by (simp only: hex_digit_def unat_of_nat_u8) simp

lemma nibble_bound: "unat ((v :: u32) AND 0xF) < 16"
  using word_and_le1 [of v "0xF"] by (simp add: word_le_nat_alt)

lemma hex_digit_bounds: "d < 16 \<Longrightarrow> 48 \<le> unat (hex_digit d) \<and> unat (hex_digit d) \<le> 70"
  by (simp add: unat_hex_digit)

lemma hex8_range: "x \<in> set (hex8 v) \<Longrightarrow> 48 \<le> unat x \<and> unat x \<le> 70"
  using hex_digit_bounds [OF nibble_bound] by (auto simp: hex8_def)

lemma length_hw_text: "length n \<le> 15 \<Longrightarrow> length (hw_text b n) \<le> 31"
  by (simp add: hw_text_def)

lemma hw_text_no_nul: "name_ok n \<Longrightarrow> 0 \<notin> set (hw_text b n)"
  using name_ok_no_nul [of n] hex8_range [of 0 b] by (auto simp: hw_text_def ascii_def)

lemma bootloader_hw_id_Inr:
  "bootloader_hw_id b n = Inr hw \<longleftrightarrow>
    b \<noteq> 0 \<and> b \<noteq> 0xFFFFFFFF \<and> name_ok n \<and> hw = hw_text b n @ replicate (32 - length (hw_text b n)) 0"
proof (cases "length n \<le> 15")
  case True
  then have "length (hw_text b n) \<le> 32" using length_hw_text [of n b] by simp
  with True show ?thesis
    unfolding bootloader_hw_id_def padded_name_def hw_text_def [symmetric] Let_def
    by (auto simp: put_zeros valid_device_name_padded)
next
  case False
  then show ?thesis by (auto simp: bootloader_hw_id_def name_ok_def)
qed

lemma bootloader_hw_id_never_panics: "bootloader_hw_id b n \<noteq> Inl Panic"
  by (auto simp: bootloader_hw_id_def padded_name_def bindr_Panic Let_def)

lemma length_bootloader_hw_id: "bootloader_hw_id b n = Inr hw \<Longrightarrow> length hw = 32"
  using length_hw_text [of n b] by (auto simp: bootloader_hw_id_Inr name_ok_def)

lemma hex_digit_inject: "x < 16 \<Longrightarrow> y < 16 \<Longrightarrow> hex_digit x = hex_digit y \<Longrightarrow> x = y"
  by (drule arg_cong [where f = unat]) (simp add: unat_hex_digit split: if_splits)

lemma nibbles_inject:
  assumes "\<And>i. i < 8 \<Longrightarrow> drop_bit (4 * i) v AND 0xF = drop_bit (4 * i) w AND (0xF :: u32)"
  shows "v = w"
proof (rule bit_word_eqI)
  fix n assume n: "n < LENGTH(32)"
  have m: "(0xF :: u32) = mask 4" by (simp add: mask_eq_exp_minus_1)
  have "bit (drop_bit (4 * (n div 4)) v AND mask 4) (n mod 4) =
      bit (drop_bit (4 * (n div 4)) w AND mask 4) (n mod 4)"
    using assms [of "n div 4"] n unfolding m by simp
  moreover have "n mod 4 < 4" by simp
  ultimately show "bit v n = bit w n"
    by (simp add: bit_simps del: mod_less_divisor)
qed

lemma hex8_inject: "hex8 v = hex8 w \<longleftrightarrow> v = w"
proof
  assume e: "hex8 v = hex8 w"
  show "v = w"
  proof (rule nibbles_inject)
    fix i :: nat assume "i < 8"
    then have "i \<in> set [7, 6, 5, 4, 3, 2, 1, 0]" by auto
    then have "hex_digit (unat (drop_bit (4 * i) v AND 0xF)) = hex_digit (unat (drop_bit (4 * i) w AND 0xF))"
      using e unfolding hex8_def map_eq_conv by blast
    then have "unat (drop_bit (4 * i) v AND 0xF) = unat (drop_bit (4 * i) w AND 0xF)"
      by (intro hex_digit_inject nibble_bound)
    then show "drop_bit (4 * i) v AND 0xF = drop_bit (4 * i) w AND 0xF" by (simp only: word_unat_eq_iff)
  qed
qed simp

lemma hw_text_inject: "hw_text b n = hw_text b' n' \<longleftrightarrow> b = b' \<and> n = n'"
proof
  assume "hw_text b n = hw_text b' n'"
  then show "b = b' \<and> n = n'"
    by (auto simp: hw_text_def ascii_def hex8_inject mota_const split: if_splits)
qed simp

lemma bootloader_hw_id_inject:
  assumes "bootloader_hw_id b n = Inr hw" and "bootloader_hw_id b' n' = Inr hw"
  shows "b = b' \<and> n = n'"
proof -
  have *: "name_ok n" "name_ok n'" "hw = hw_text b n @ replicate (32 - length (hw_text b n)) 0"
    "hw = hw_text b' n' @ replicate (32 - length (hw_text b' n')) 0"
    using assms by (simp_all add: bootloader_hw_id_Inr)
  have "hw_text b n = takeWhile (\<lambda>x. x \<noteq> 0) hw"
    using *(1) length_hw_text [of n b] hw_text_no_nul [of n b]
    unfolding *(3) by (simp add: takeWhile_pad name_ok_def)
  moreover have "hw_text b' n' = takeWhile (\<lambda>x. x \<noteq> 0) hw"
    using *(2) length_hw_text [of n' b'] hw_text_no_nul [of n' b']
    unfolding *(4) by (simp add: takeWhile_pad name_ok_def)
  ultimately show ?thesis by (simp add: hw_text_inject [symmetric])
qed

lemma board_identity_ok:
  "board_board_id b \<noteq> 0 \<and> board_board_id b \<noteq> 0xFFFFFFFF \<and> name_ok (ascii (board_device_name b))"
  by (cases b) (simp_all add: name_ok_def ascii_def mota_const)

lemma board_identity_inject:
  "board_board_id b = board_board_id b' \<Longrightarrow> board_device_name b = board_device_name b' \<Longrightarrow> b = b'"
  by (cases b; cases b'; simp add: mota_const)

lemma board_storage_qualified:
  "board_storage_profile b \<in> set (qualified_storage (board_board_id b) (ascii (board_device_name b)))"
  by (cases b) (simp_all add: qualified_storage_def RAK_AUTO_RECOVERY_IDENTITIES_def mota_const)

lemma board_platform_qualified:
  "qualified_platform (board_board_id b) (ascii (board_device_name b)) =
    Some (softdevice_family (board_compatibility b), softdevice_fwid (board_compatibility b),
      compat_app_base (board_compatibility b), compat_layout_abi (board_compatibility b))"
  by (cases b) (simp_all add: qualified_platform_def board_compatibility_def INTERNAL_IDENTITIES_def
      RAK_AUTO_RECOVERY_IDENTITIES_def S140_V7_IDENTITIES_def mota_const)

lemma boards_complete: "b \<in> set BOOTLOADER_BOARDS"
  by (cases b) (simp_all add: BOOTLOADER_BOARDS_def)

lemma boards_distinct: "distinct BOOTLOADER_BOARDS"
  by (simp add: BOOTLOADER_BOARDS_def)

end
