(* ===== verification/Mota_Crypto.thy ===== *)
theory Mota_Crypto
  imports Mota_Format
begin

text \<open>
  \<open>src/crypto.rs\<close>. SHA-256 and Ed25519 come from the crates \<open>sha2\<close> and \<open>ed25519_dalek\<close>, which are
  not part of the repository: what the file calls of them are the fields of a record \<open>crypto\<close> (with
  \<open>hex::encode_upper\<close>) that every operation using them takes as its argument. Keys are given by their bytes;
  \<open>vk_from_bytes\<close> rejects bytes that are no public key. What the code relies on is \<open>crypto_ok\<close>: digests have 32 bytes, keys 32,
  signatures 64, and a signature made with a seed verifies under the public key of that seed.
  Nothing is assumed about collisions or forgery; the integrity theorems exhibit the collision.
\<close>

record crypto =
  sha2_digest :: "bytes \<Rightarrow> bytes"
  sk_sign :: "bytes \<Rightarrow> bytes \<Rightarrow> bytes"
  sk_verifying_key :: "bytes \<Rightarrow> bytes"
  vk_from_bytes :: "bytes \<Rightarrow> bytes option"
  vk_verify :: "bytes \<Rightarrow> bytes \<Rightarrow> bytes \<Rightarrow> bool"
  hex_upper :: "bytes \<Rightarrow> bytes"

definition sha256 :: "crypto \<Rightarrow> bytes \<Rightarrow> bytes" where
  "sha256 c data = sha2_digest c data"

definition ed25519_sign :: "crypto \<Rightarrow> bytes \<Rightarrow> bytes \<Rightarrow> bytes" where
  "ed25519_sign c seed msg = sk_sign c seed msg"

definition ed25519_verify :: "crypto \<Rightarrow> bytes \<Rightarrow> bytes \<Rightarrow> bytes \<Rightarrow> bool" where
  "ed25519_verify c public_key msg sig =
    (case vk_from_bytes c public_key of None \<Rightarrow> False | Some vk \<Rightarrow> vk_verify c vk msg sig)"

definition ed25519_public_from_seed :: "crypto \<Rightarrow> bytes \<Rightarrow> bytes" where
  "ed25519_public_from_seed c seed = sk_verifying_key c seed"

definition sha_ok :: "crypto \<Rightarrow> bool" where
  "sha_ok c \<longleftrightarrow> (\<forall>x. length (sha2_digest c x) = 32)"

definition crypto_ok :: "crypto \<Rightarrow> bool" where
  "crypto_ok c \<longleftrightarrow> sha_ok c \<and>
     (\<forall>s. length (sk_verifying_key c s) = 32) \<and>
     (\<forall>s m. length (sk_sign c s m) = 64) \<and>
     (\<forall>s. \<exists>vk. vk_from_bytes c (sk_verifying_key c s) = Some vk \<and> (\<forall>m. vk_verify c vk m (sk_sign c s m)))"

text \<open>\<open>mh::<N>\<close>: the first \<open>N\<close> bytes of the SHA-256 digest.\<close>

definition mh :: "crypto \<Rightarrow> nat \<Rightarrow> bytes \<Rightarrow> bytes" where
  "mh c n data = take n (sha256 c data)"

lemmas crypto_defs = sha256_def ed25519_sign_def ed25519_verify_def ed25519_public_from_seed_def

lemma length_sha256: "sha_ok c \<Longrightarrow> length (sha256 c x) = 32"
  by (simp add: sha_ok_def sha256_def)

lemma length_mh: "sha_ok c \<Longrightarrow> n \<le> 32 \<Longrightarrow> length (mh c n x) = n"
  by (simp add: mh_def length_sha256)

lemma crypto_ok_sha: "crypto_ok c \<Longrightarrow> sha_ok c"
  by (simp add: crypto_ok_def)

lemma crypto_ok_lengths:
  assumes "crypto_ok c"
  shows "length (sha256 c x) = 32"
    and "length (ed25519_public_from_seed c s) = 32"
    and "length (ed25519_sign c s m) = 64"
  using assms by (simp_all add: crypto_ok_def sha_ok_def crypto_defs)

lemma crypto_ok_verify:
  "crypto_ok c \<Longrightarrow> ed25519_verify c (ed25519_public_from_seed c s) m (ed25519_sign c s m)"
proof -
  assume "crypto_ok c"
  then obtain vk where "vk_from_bytes c (sk_verifying_key c s) = Some vk" "\<forall>m. vk_verify c vk m (sk_sign c s m)"
    unfolding crypto_ok_def by blast
  then show ?thesis by (simp add: crypto_defs)
qed

text \<open>
  A concrete instance on which the witnesses evaluate: a 32-byte checksum in the place of the
  digest, and signatures that repeat the key and the checksum of the message.
\<close>

fun mix :: "u8 \<Rightarrow> bytes \<Rightarrow> u8" where
  "mix acc [] = acc"
| "mix acc (b # bs) = mix (5 * acc + b + 1) bs"

definition demo_crypto :: crypto where
  "demo_crypto =
    \<lparr>sha2_digest = (\<lambda>x. mix 0 x # mix 1 x # mix 2 x # mix 3 x # replicate 28 7),
     sk_sign = (\<lambda>s m. replicate 63 9 @ [mix 4 m]),
     sk_verifying_key = (\<lambda>s. replicate 31 5 @ [mix 6 s]),
     vk_from_bytes = (\<lambda>k. if take 31 k = replicate 31 5 then Some k else None),
     vk_verify = (\<lambda>p m sg. sg = replicate 63 9 @ [mix 4 m]),
     hex_upper = (\<lambda>bs. map (\<lambda>b. 65 + b AND 15) bs)\<rparr>"

lemma demo_crypto_ok: "crypto_ok demo_crypto"
  by (simp add: crypto_ok_def sha_ok_def demo_crypto_def)

end
