(* ===== verification/Mota_Targets.thy ===== *)
theory Mota_Targets
  imports Mota_Prelude "HOL-Library.Multiset"
begin

text \<open>
  \<open>src/targets.rs\<close>: the vendored snapshot of the application targets and the lookup of the name of
  a \<open>target_id\<close>. The static \<open>TABLE\<close> is given in four consecutive pieces to keep the terms small.
\<close>

section \<open>The tables\<close>

definition BOOTLOADER_RELEVANT_APPLICATION_TARGETS :: "(u32 \<times> string) list" where
  "BOOTLOADER_RELEVANT_APPLICATION_TARGETS =
    [(0x3c60586d, ''Heltec_tower_v2_repeater_lora_ota_no_external_sensors''),
     (0x98411ac6, ''Heltec_t096_repeater_lora_ota_no_external_sensors''),
     (0xafeed10c, ''Heltec_t096_repeater_bridge_rs232_lora_ota_no_external_sensors''),
     (0xa529b4f5, ''Heltec_t1_repeater_lora_ota_no_external_sensors''),
     (0x180bbe1f, ''GAT562_30S_Mesh_Kit_repeater_lora_ota_no_external_sensors''),
     (0xb4d0ad97, ''Heltec_t114_without_display_repeater_lora_ota_no_external_sensors''),
     (0xf7e47568, ''Heltec_t114_repeater_lora_ota_no_external_sensors''),
     (0x144504b0, ''Mesh_pocket_repeater_lora_ota_no_external_sensors''),
     (0x3625bb80, ''KeepteenLT1_repeater_lora_ota_no_external_sensors''),
     (0x11b131e7, ''Minewsemi_me25ls01_repeater_lora_ota_no_external_sensors''),
     (0xa68c09e9, ''ProMicro_repeater_lora_ota_no_external_sensors''),
     (0x7b071fa0, ''t1000e_repeater_lora_ota_no_external_sensors''),
     (0xdf41affe, ''ThinkNode_M3_repeater_lora_ota_no_external_sensors''),
     (0x2fa509c1, ''RAK_3401_repeater_lora_ota_no_external_sensors''),
     (0x29a0da19, ''RAK_4631_repeater_lora_ota_no_external_sensors''),
     (0x76f3c984, ''RAK_4631_repeater_bridge_rs232_serial1_lora_ota_no_external_sensors''),
     (0x41e33a97, ''RAK_4631_repeater_bridge_rs232_serial2_lora_ota_no_external_sensors''),
     (0x217958b4, ''GAT562_Mesh_Tracker_Pro_repeater_lora_ota_no_external_sensors''),
     (0x9aca380e, ''R1Neo_repeater_lora_ota_no_external_sensors''),
     (0x6384719d, ''GAT562_Mesh_EVB_Pro_repeater_lora_ota_no_external_sensors''),
     (0xd1d61a8b, ''RAK_WisMesh_Tag_repeater_lora_ota_no_external_sensors'')]"

definition TABLE_1 :: "(u32 \<times> string) list" where
  "TABLE_1 =
    [(0x149bcb23, ''Ebyte_EoRa-S3_companion_radio_ble''),
     (0x30d4e442, ''Ebyte_EoRa-S3_companion_radio_usb''),
     (0x263a8d80, ''Ebyte_EoRa-S3_kiss_modem''),
     (0x9070ae2c, ''Ebyte_EoRa-S3_Repeater''),
     (0xf190d834, ''Ebyte_EoRa-S3_room_server''),
     (0x32890982, ''Ebyte_EoRa-S3_terminal_chat''),
     (0xacb599d5, ''GAT562_30S_Mesh_Kit_companion_radio_ble''),
     (0x82d3b273, ''GAT562_30S_Mesh_Kit_companion_radio_usb''),
     (0xe96a6af8, ''GAT562_30S_Mesh_Kit_kiss_modem''),
     (0xf9986af5, ''GAT562_30S_Mesh_Kit_room_server''),
     (0x98519a1d, ''GAT562_Mesh_EVB_Pro_kiss_modem''),
     (0x06b71719, ''GAT562_Mesh_EVB_Pro_repeater''),
     (0x4c0461c8, ''GAT562_Mesh_EVB_Pro_room_server''),
     (0x4fa88992, ''GAT562_Mesh_Tracker_Pro_companion_radio_ble''),
     (0xcd6604d0, ''GAT562_Mesh_Tracker_Pro_companion_radio_usb''),
     (0xc54ea258, ''GAT562_Mesh_Tracker_Pro_kiss_modem''),
     (0x03d9704a, ''GAT562_Mesh_Tracker_Pro_room_server''),
     (0x8456f753, ''GAT562_Mesh_Watch13_companion_radio_ble''),
     (0xc8104197, ''GAT562_Mesh_Watch13_kiss_modem''),
     (0xf5eb61ec, ''Generic_E22_kiss_modem''),
     (0x70d2d590, ''Generic_E22_sx1262_repeater''),
     (0xd5e04824, ''Generic_E22_sx1268_repeater''),
     (0xa416bb20, ''Generic_ESPNOW_comp_radio_usb''),
     (0x875f3744, ''Generic_ESPNOW_repeatr''),
     (0xdaf349be, ''Generic_ESPNOW_room_svr''),
     (0x93b93199, ''Generic_ESPNOW_terminal_chat''),
     (0x5293da13, ''Heltec_ct62_companion_radio_ble''),
     (0xc6dd7723, ''Heltec_ct62_companion_radio_ble_ps''),
     (0xf2eec98c, ''Heltec_ct62_companion_radio_usb''),
     (0x48a986f1, ''Heltec_ct62_kiss_modem''),
     (0xd2cf978c, ''Heltec_ct62_repeater''),
     (0x53626334, ''Heltec_ct62_repeater_bridge_espnow''),
     (0xefe4f19f, ''Heltec_ct62_sensor''),
     (0xfcaf3730, ''Heltec_E213_companion_radio_ble''),
     (0xd90deef7, ''Heltec_E213_companion_radio_usb''),
     (0x2d2a4089, ''Heltec_E213_kiss_modem''),
     (0x89ea5c4e, ''Heltec_E213_repeater''),
     (0xc0eb712a, ''Heltec_E213_repeater_bridge_espnow''),
     (0x67293f43, ''Heltec_E213_room_server''),
     (0x3f364910, ''Heltec_E290_companion_ble''),
     (0xac4b4eb5, ''Heltec_E290_companion_usb''),
     (0x822e96ca, ''Heltec_E290_companion_usb_ble''),
     (0xe077fb8d, ''Heltec_E290_kiss_modem''),
     (0x2bbe7fd8, ''Heltec_E290_repeater''),
     (0x9e40157c, ''Heltec_E290_repeater_bridge_espnow''),
     (0xb12e6e01, ''Heltec_E290_room_server''),
     (0xf6f835ec, ''Heltec_mesh_solar_repeater''),
     (0x7fab017f, ''heltec_rc32_companion_radio_ble''),
     (0x9e23928a, ''heltec_rc32_companion_radio_full''),
     (0xf310a4d1, ''heltec_rc32_companion_radio_usb''),
     (0xdd5953ec, ''heltec_rc32_companion_radio_wifi''),
     (0x97574bc2, ''heltec_rc32_kiss_modem''),
     (0x2d918a3c, ''heltec_rc32_repeater''),
     (0xd1755faa, ''heltec_rc32_repeater_bridge_espnow''),
     (0x8a6ceaf0, ''heltec_rc32_room_server''),
     (0x57f69746, ''heltec_rc32_sensor''),
     (0xbc05d6a7, ''heltec_rc32_terminal_chat''),
     (0x5bad80f1, ''heltec_rc32_without_display_companion_radio_ble''),
     (0xb4f727a8, ''heltec_rc32_without_display_companion_radio_full''),
     (0x112d34c4, ''heltec_rc32_without_display_companion_radio_usb''),
     (0xf10a26df, ''heltec_rc32_without_display_companion_radio_wifi''),
     (0xc5409ced, ''heltec_rc32_without_display_repeater''),
     (0xf9022545, ''heltec_rc32_without_display_repeater_bridge_espnow''),
     (0x2023036d, ''heltec_rc32_without_display_room_server''),
     (0x4abd24af, ''heltec_rc32_without_display_sensor''),
     (0x35d42b35, ''Heltec_t096_companion_radio_ble_femoff''),
     (0x9f736ca7, ''Heltec_t096_companion_radio_ble_femon''),
     (0x3fbb1498, ''Heltec_t096_companion_radio_usb_femoff''),
     (0x42b0818c, ''Heltec_t096_companion_radio_usb_femon''),
     (0x80dc72a9, ''Heltec_t096_kiss_modem''),
     (0xa14d9f4a, ''Heltec_t096_room_server''),
     (0x6494fda0, ''Heltec_t096_sensor''),
     (0x32bcdd14, ''Heltec_t114_companion_radio_ble''),
     (0xfe937f14, ''Heltec_t114_companion_radio_usb''),
     (0x5b9b1933, ''Heltec_t114_kiss_modem''),
     (0x1b4399de, ''Heltec_t114_repeater_bridge_rs232''),
     (0xb1153422, ''Heltec_t114_room_server''),
     (0x075ca3f9, ''Heltec_t114_without_display_companion_radio_ble''),
     (0x2f9f8e7d, ''Heltec_t114_without_display_companion_radio_usb''),
     (0xc9dc5d8c, ''Heltec_t114_without_display_repeater''),
     (0x34b0e5f3, ''Heltec_t114_without_display_repeater_bridge_rs232''),
     (0xcfa0e233, ''Heltec_t114_without_display_room_server''),
     (0x17d5e1ff, ''Heltec_T190_companion_radio_ble_''),
     (0xc99313c6, ''Heltec_T190_companion_radio_usb_''),
     (0xffb3854f, ''Heltec_T190_companion_radio_usb_ble_''),
     (0x21a73973, ''Heltec_T190_kiss_modem''),
     (0x3067f656, ''Heltec_T190_repeater_''),
     (0xfdb25057, ''Heltec_T190_repeater_bridge_espnow_''),
     (0x836e5931, ''Heltec_T190_repeater_observer_mqtt''),
     (0x0f1767cd, ''Heltec_T190_room_server_''),
     (0x57172fcc, ''Heltec_T190_room_server_observer_mqtt''),
     (0x85a8c944, ''Heltec_tower_v2_repeater''),
     (0x0a9dbbf0, ''Heltec_tower_v2_sdcard_repeater_lora_ota_no_external_sensors''),
     (0xb519a89f, ''heltec_tracker_v1_1_repeater_observer_mqtt''),
     (0xa3e8d8ce, ''heltec_tracker_v1_1_room_server_observer_mqtt''),
     (0xb16009a0, ''heltec_tracker_v2_companion_radio_ble_femoff''),
     (0xdc780e80, ''heltec_tracker_v2_companion_radio_ble_femon''),
     (0x28b8007c, ''heltec_tracker_v2_companion_radio_full_femon''),
     (0x4aa63180, ''heltec_tracker_v2_companion_radio_usb_femoff''),
     (0x6fddcbf1, ''heltec_tracker_v2_companion_radio_usb_femon''),
     (0xf4fb5484, ''heltec_tracker_v2_companion_radio_wifi_femoff''),
     (0x2e5384e2, ''heltec_tracker_v2_companion_radio_wifi_femon''),
     (0xb62a1e75, ''heltec_tracker_v2_kiss_modem''),
     (0x9e64845d, ''heltec_tracker_v2_repeater''),
     (0x19232e8b, ''heltec_tracker_v2_repeater_bridge_espnow''),
     (0xfaf164f4, ''heltec_tracker_v2_repeater_observer_mqtt''),
     (0x38b948b4, ''heltec_tracker_v2_room_server''),
     (0x462ddb9b, ''heltec_tracker_v2_room_server_observer_mqtt''),
     (0xed21ca4f, ''heltec_tracker_v2_sensor''),
     (0x9f5f39a7, ''heltec_tracker_v2_terminal_chat''),
     (0x081d2219, ''Heltec_v2_companion_radio_ble''),
     (0x7c498bc4, ''Heltec_v2_companion_radio_ble_ps''),
     (0xc283ad60, ''Heltec_v2_companion_radio_usb''),
     (0x4fbdc1e1, ''Heltec_v2_companion_radio_wifi''),
     (0xc797fd73, ''Heltec_v2_kiss_modem''),
     (0xab9871c8, ''Heltec_v2_repeater''),
     (0x2075687c, ''Heltec_v2_room_server''),
     (0x5d726067, ''Heltec_v2_terminal_chat''),
     (0x9969bbc9, ''Heltec_v3_companion_radio_ble''),
     (0x804f7a3a, ''Heltec_v3_companion_radio_ble_ps''),
     (0x0823a21a, ''Heltec_v3_companion_radio_full''),
     (0x22f900de, ''Heltec_v3_companion_radio_usb''),
     (0xaca0e153, ''Heltec_v3_companion_radio_wifi''),
     (0x516c9c13, ''Heltec_v3_companion_radio_wifi_mqtt''),
     (0xcb1c2e65, ''Heltec_v3_kiss_modem''),
     (0xd1b29b18, ''Heltec_v3_repeater''),
     (0x644bb68d, ''Heltec_v3_repeater_bridge_espnow''),
     (0xd19a9759, ''Heltec_v3_repeater_bridge_rs232''),
     (0xde40f56f, ''Heltec_v3_repeater_observer_mqtt''),
     (0x6dc15ab3, ''Heltec_v3_repeater_observer_mqtt_sim''),
     (0xc59d294e, ''Heltec_v3_room_server''),
     (0xceeddfaf, ''Heltec_v3_room_server_observer_mqtt''),
     (0x21519537, ''Heltec_v3_sensor''),
     (0x382bb181, ''Heltec_v3_terminal_chat''),
     (0xad1bcd63, ''heltec_v4_2_v4_3_companion_radio_full_femon''),
     (0x5a2980e6, ''heltec_v4_3_companion_radio_ble_femoff''),
     (0x90581c83, ''heltec_v4_3_companion_radio_ble_ps_femoff''),
     (0x90a6a854, ''heltec_v4_3_companion_radio_full_femoff''),
     (0x356df17c, ''heltec_v4_3_companion_radio_usb_femoff''),
     (0x99a084fc, ''heltec_v4_3_companion_radio_wifi_femoff''),
     (0x64c9dfc9, ''heltec_v4_3_companion_radio_wifi_mqtt_femoff''),
     (0x2a2ffc92, ''heltec_v4_3_expansionkit_tft_companion_radio_ble_femoff''),
     (0x2c13b8e9, ''heltec_v4_3_tft_companion_radio_ble_femoff''),
     (0x1ee7d867, ''heltec_v4_3_tft_companion_radio_full_femoff''),
     (0xb016979a, ''heltec_v4_3_tft_companion_radio_usb_femoff''),
     (0xb49b6b55, ''heltec_v4_3_tft_companion_radio_wifi_femoff''),
     (0x01d8f124, ''heltec_v4_companion_radio_ble''),
     (0x86fb85f0, ''heltec_v4_companion_radio_ble_femon''),
     (0xd33b0986, ''heltec_v4_companion_radio_ble_ps_femon''),
     (0x1a4d0096, ''heltec_v4_companion_radio_usb'')]"

definition TABLE_2 :: "(u32 \<times> string) list" where
  "TABLE_2 =
    [(0xa8f5940f, ''heltec_v4_companion_radio_usb_femon''),
     (0x1cf5e14c, ''heltec_v4_companion_radio_usb_ps_femoff''),
     (0x2707d3d1, ''heltec_v4_companion_radio_usb_ps_femon''),
     (0x86ac3b1b, ''heltec_v4_companion_radio_wifi_femon''),
     (0x7af848da, ''heltec_v4_companion_radio_wifi_mqtt_femon''),
     (0xd522a14f, ''heltec_v4_expansionkit_repeater''),
     (0x76657d76, ''heltec_v4_expansionkit_repeater_observer_mqtt''),
     (0x21ee03bd, ''heltec_v4_expansionkit_room_server_observer_mqtt''),
     (0x5977d941, ''heltec_v4_expansionkit_tft_companion_radio_ble_femon''),
     (0xe2a1907b, ''heltec_v4_expansionkit_tft_companion_radio_ble_ps''),
     (0xbb0ca8db, ''heltec_v4_expansionkit_tft_companion_radio_full_femon''),
     (0xf75feb3e, ''heltec_v4_kiss_modem''),
     (0xbc9cdc70, ''heltec_v4_r8_companion_radio_ble''),
     (0x19e31fc6, ''heltec_v4_r8_companion_radio_ble_ps''),
     (0xa01b330e, ''heltec_v4_r8_companion_radio_full''),
     (0x36c78d86, ''heltec_v4_r8_companion_radio_usb''),
     (0xdf722326, ''heltec_v4_r8_companion_radio_wifi''),
     (0xfa901c87, ''heltec_v4_r8_kiss_modem''),
     (0xeebe3469, ''heltec_v4_r8_repeater''),
     (0xb0f5aff6, ''heltec_v4_r8_repeater_observer_mqtt''),
     (0x5729ad07, ''heltec_v4_r8_room_server''),
     (0xaa2aef42, ''heltec_v4_r8_room_server_observer_mqtt''),
     (0xb4cb035a, ''heltec_v4_r8_sensor''),
     (0xbb429dde, ''heltec_v4_r8_terminal_chat''),
     (0x883e3edc, ''heltec_v4_r8_tft_companion_radio_ble''),
     (0x4a9d1c6c, ''heltec_v4_r8_tft_companion_radio_full''),
     (0xa0965a6b, ''heltec_v4_r8_tft_companion_radio_usb''),
     (0x59ea25fa, ''heltec_v4_r8_tft_companion_radio_wifi''),
     (0x1758bdb9, ''heltec_v4_r8_tft_kiss_modem''),
     (0x1313f16d, ''heltec_v4_r8_tft_portrait_repeater_observer_mqtt''),
     (0x0372b0f1, ''heltec_v4_r8_tft_portrait_room_server_observer_mqtt''),
     (0xa2fb4192, ''heltec_v4_r8_tft_repeater''),
     (0xdd39457b, ''heltec_v4_r8_tft_repeater_observer_mqtt''),
     (0x7964461c, ''heltec_v4_r8_tft_room_server''),
     (0x1d1c0d92, ''heltec_v4_r8_tft_room_server_observer_mqtt''),
     (0x5fc52bcb, ''heltec_v4_r8_tft_sensor''),
     (0x0dacb683, ''heltec_v4_r8_tft_terminal_chat''),
     (0xe792a051, ''heltec_v4_repeater''),
     (0x2d5ea842, ''heltec_v4_repeater_bridge_espnow''),
     (0xab74db9e, ''heltec_v4_repeater_observer_mqtt''),
     (0xeed78ce4, ''heltec_v4_room_server''),
     (0x7778b7e1, ''heltec_v4_room_server_observer_mqtt''),
     (0x0b6847ed, ''heltec_v4_sensor''),
     (0xab3e1ad3, ''heltec_v4_terminal_chat''),
     (0x04a8b763, ''heltec_v4_tft_companion_radio_ble_femon''),
     (0xc456437e, ''heltec_v4_tft_companion_radio_full_femon''),
     (0xb3ecafca, ''heltec_v4_tft_companion_radio_usb_femon''),
     (0xf3afcde6, ''heltec_v4_tft_companion_radio_wifi_femon''),
     (0x87513d56, ''heltec_v4_tft_repeater''),
     (0xca812b41, ''heltec_v4_tft_repeater_bridge_espnow''),
     (0x18594231, ''heltec_v4_tft_room_server''),
     (0x188f3ac1, ''heltec_v4_tft_sensor''),
     (0x402055ec, ''heltec_v4_tft_terminal_chat''),
     (0x12393f1f, ''Heltec_Wireless_Paper_companion_radio_ble''),
     (0x16fbab07, ''Heltec_Wireless_Paper_companion_radio_ble_ps''),
     (0xed3ef5b8, ''Heltec_Wireless_Paper_companion_radio_usb''),
     (0x8ea86381, ''Heltec_Wireless_Paper_kiss_modem''),
     (0x09f57289, ''Heltec_Wireless_Paper_repeater''),
     (0x148aeaab, ''Heltec_Wireless_Paper_repeater_bridge_espnow''),
     (0x6e9f7fec, ''Heltec_Wireless_Paper_room_server''),
     (0x6a25d024, ''Heltec_Wireless_Tracker_companion_radio_ble''),
     (0xc5a2cb41, ''Heltec_Wireless_Tracker_companion_radio_ble_ps''),
     (0xc4a11710, ''Heltec_Wireless_Tracker_companion_radio_usb''),
     (0x753947a4, ''Heltec_Wireless_Tracker_kiss_modem''),
     (0xe6fa98b4, ''Heltec_Wireless_Tracker_repeater''),
     (0xf8c27cf4, ''Heltec_Wireless_Tracker_repeater_bridge_espnow''),
     (0x90e227d9, ''Heltec_Wireless_Tracker_room_server''),
     (0x812f5e52, ''Heltec_WSL3_companion_radio_ble''),
     (0x61f961c5, ''Heltec_WSL3_companion_radio_ble_ps''),
     (0x1ddd15c8, ''Heltec_WSL3_companion_radio_usb''),
     (0x49d67d0d, ''Heltec_WSL3_companion_radio_wifi''),
     (0xbc003322, ''Heltec_WSL3_repeater''),
     (0x835b70c0, ''Heltec_WSL3_repeater_bridge_espnow''),
     (0xd7460575, ''Heltec_WSL3_repeater_bridge_rs232''),
     (0x36acced5, ''Heltec_WSL3_repeater_observer_mqtt''),
     (0x33e2c171, ''Heltec_WSL3_room_server''),
     (0x5be91148, ''Heltec_WSL3_room_server_observer_mqtt''),
     (0xa165ae99, ''Heltec_WSL3_sensor''),
     (0x04c5c2b7, ''ikoka_handheld_nrf_e22_30dbm_096_companion_radio_ble''),
     (0x6c1ca659, ''ikoka_handheld_nrf_e22_30dbm_096_companion_radio_usb''),
     (0xa295fb04, ''ikoka_handheld_nrf_e22_30dbm_096_rotated_companion_radio_ble''),
     (0x61c405ca, ''ikoka_handheld_nrf_e22_30dbm_096_rotated_companion_radio_usb''),
     (0xe893fe91, ''ikoka_handheld_nrf_e22_30dbm_repeater''),
     (0x2b599d31, ''ikoka_handheld_nrf_e22_30dbm_room_server''),
     (0xf1442d25, ''ikoka_handheld_nrf_kiss_modem''),
     (0x15082ede, ''ikoka_nano_nrf_22dbm_companion_radio_ble''),
     (0x6ff350d1, ''ikoka_nano_nrf_22dbm_companion_radio_usb''),
     (0xe03d0cd9, ''ikoka_nano_nrf_22dbm_kiss_modem''),
     (0x82e1eb2c, ''ikoka_nano_nrf_22dbm_repeater''),
     (0x0ee19b12, ''ikoka_nano_nrf_22dbm_room_server''),
     (0x6c67ed89, ''ikoka_nano_nrf_30dbm_companion_radio_ble''),
     (0xd1c05d0d, ''ikoka_nano_nrf_30dbm_companion_radio_usb''),
     (0xb90150b0, ''ikoka_nano_nrf_30dbm_kiss_modem''),
     (0x7285bdb3, ''ikoka_nano_nrf_30dbm_repeater''),
     (0x77cadc99, ''ikoka_nano_nrf_30dbm_room_server''),
     (0xc177e6cd, ''ikoka_nano_nrf_33dbm_companion_radio_ble''),
     (0xf7a38993, ''ikoka_nano_nrf_33dbm_companion_radio_usb''),
     (0x83762f33, ''ikoka_nano_nrf_33dbm_kiss_modem''),
     (0x86cadda9, ''ikoka_nano_nrf_33dbm_repeater''),
     (0x7e49da49, ''ikoka_nano_nrf_33dbm_room_server''),
     (0x305d6f92, ''ikoka_stick_nrf_22dbm_companion_radio_ble''),
     (0xbc6b870b, ''ikoka_stick_nrf_22dbm_companion_radio_usb''),
     (0x78845fdd, ''ikoka_stick_nrf_22dbm_kiss_modem''),
     (0x6d35f434, ''ikoka_stick_nrf_22dbm_repeater''),
     (0xa52d76a8, ''ikoka_stick_nrf_22dbm_room_server''),
     (0xd8de9639, ''ikoka_stick_nrf_30dbm_companion_radio_ble''),
     (0x8ab5c51b, ''ikoka_stick_nrf_30dbm_companion_radio_usb''),
     (0x80097676, ''ikoka_stick_nrf_30dbm_kiss_modem''),
     (0xffe70df5, ''ikoka_stick_nrf_30dbm_repeater''),
     (0x3da80417, ''ikoka_stick_nrf_30dbm_room_server''),
     (0x47ca3c13, ''ikoka_stick_nrf_33dbm_companion_radio_ble''),
     (0x28b499c7, ''ikoka_stick_nrf_33dbm_companion_radio_usb''),
     (0xf1ab4c28, ''ikoka_stick_nrf_33dbm_kiss_modem''),
     (0xe5331f02, ''ikoka_stick_nrf_33dbm_repeater''),
     (0xfba7177b, ''ikoka_stick_nrf_33dbm_room_server''),
     (0xde7dc472, ''KeepteenLT1_repeater''),
     (0x69df7765, ''LilyGo_T-Echo-Lite_companion_radio_ble''),
     (0xe9fbc9be, ''LilyGo_T-Echo-Lite_kiss_modem''),
     (0x40818863, ''LilyGo_T-Echo-Lite_non_shell_companion_radio_ble''),
     (0x65deac33, ''LilyGo_T-Echo-Lite_non_shell_companion_radio_usb''),
     (0xd86cf67a, ''LilyGo_T-Echo-Lite_repeater''),
     (0xed73ac03, ''LilyGo_T-Echo-Lite_room_server''),
     (0xab0d550a, ''LilyGo_T-Echo_Card_companion_radio_ble''),
     (0x1bd2a266, ''LilyGo_T-Echo_Card_companion_radio_usb''),
     (0x3655c748, ''LilyGo_T-Echo_Card_kiss_modem''),
     (0x9a5ae8fc, ''LilyGo_T-Echo_Card_repeater''),
     (0x1e9eb97a, ''LilyGo_T-Echo_Card_room_server''),
     (0x139536f4, ''LilyGo_T-Echo_companion_radio_ble''),
     (0x0716c724, ''LilyGo_T-Echo_companion_radio_usb''),
     (0x8de23fa7, ''LilyGo_T-Echo_kiss_modem''),
     (0xb92ec96b, ''LilyGo_T-Echo_repeater''),
     (0x420ebc63, ''LilyGo_T-Echo_room_server''),
     (0x967ccaee, ''LilyGo_T3S3_sx1262_companion_radio_ble''),
     (0x8021afa2, ''LilyGo_T3S3_sx1262_companion_radio_ble_ps''),
     (0x5f7c7688, ''LilyGo_T3S3_sx1262_companion_radio_usb''),
     (0xbd04e6e7, ''LilyGo_T3S3_sx1262_kiss_modem''),
     (0x1aeac884, ''LilyGo_T3S3_sx1262_repeater''),
     (0x07849209, ''LilyGo_T3S3_sx1262_repeater_bridge_espnow''),
     (0x0c79b100, ''LilyGo_T3S3_sx1262_repeater_observer_mqtt''),
     (0xbfb60e7c, ''LilyGo_T3S3_sx1262_room_server''),
     (0x8a63de3a, ''LilyGo_T3S3_sx1262_room_server_observer_mqtt''),
     (0x96036a68, ''LilyGo_T3S3_sx1262_terminal_chat''),
     (0xb76a745c, ''LilyGo_T3S3_sx1276_companion_radio_ble''),
     (0x43023193, ''LilyGo_T3S3_sx1276_companion_radio_usb''),
     (0xa7d97db7, ''LilyGo_T3S3_sx1276_kiss_modem''),
     (0x468a133e, ''LilyGo_T3S3_sx1276_repeater''),
     (0xb59ea2ed, ''LilyGo_T3S3_sx1276_repeater_bridge_espnow''),
     (0xbe372c6d, ''LilyGo_T3S3_sx1276_room_server''),
     (0x6215e9eb, ''LilyGo_T3S3_sx1276_terminal_chat''),
     (0x07907102, ''LilyGo_T_Impulse_Plus_repeater'')]"

definition TABLE_3 :: "(u32 \<times> string) list" where
  "TABLE_3 =
    [(0x3898ea56, ''LilyGo_TBeam_1W_companion_radio_ble''),
     (0x2fb7e218, ''LilyGo_TBeam_1W_companion_radio_ble_ps''),
     (0x8c61d4c8, ''LilyGo_TBeam_1W_companion_radio_full''),
     (0x4f722e70, ''LilyGo_TBeam_1W_companion_radio_usb''),
     (0x694eed25, ''LilyGo_TBeam_1W_companion_radio_wifi''),
     (0x85b8b9d7, ''LilyGo_TBeam_1W_kiss_modem''),
     (0xe8421e36, ''LilyGo_TBeam_1W_repeater''),
     (0x82eaaf9e, ''LilyGo_TBeam_1W_repeater_bridge_espnow''),
     (0x9f9caba4, ''LilyGo_TBeam_1W_repeater_observer_mqtt''),
     (0xe4a2de74, ''LilyGo_TBeam_1W_room_server''),
     (0x582c7826, ''LilyGo_TBeam_1W_room_server_observer_mqtt''),
     (0xaeb637f1, ''LilyGo_TDeck_companion_radio_ble''),
     (0x86813271, ''LilyGo_TDeck_companion_radio_usb''),
     (0x67b2ff84, ''LilyGo_TDeck_kiss_modem''),
     (0xd0e2e616, ''LilyGo_TDeck_repeater''),
     (0x3f9edfe3, ''LilyGo_TETH_Elite_sx1262_companion_radio_ble''),
     (0xc23f8082, ''LilyGo_TETH_Elite_sx1262_companion_radio_usb''),
     (0x0e74ae16, ''LilyGo_TETH_Elite_sx1262_kiss_modem''),
     (0x8f256e56, ''LilyGo_TETH_Elite_sx1262_repeater''),
     (0xf1407f39, ''LilyGo_TETH_Elite_sx1262_room_server''),
     (0xe90a3181, ''LilyGo_Tlora_C6_companion_radio_ble_''),
     (0x3b1b4237, ''LilyGo_Tlora_C6_kiss_modem''),
     (0x21c6d08d, ''LilyGo_Tlora_C6_repeater_''),
     (0x34302c14, ''LilyGo_Tlora_C6_room_server_''),
     (0x268d6fc1, ''LilyGo_TLora_V2_1_1_6_companion_radio_ble''),
     (0xeabe3b40, ''LilyGo_TLora_V2_1_1_6_companion_radio_ble_ps''),
     (0x3c172d27, ''LilyGo_TLora_V2_1_1_6_companion_radio_usb''),
     (0xf7c5d584, ''LilyGo_TLora_V2_1_1_6_companion_radio_wifi''),
     (0x81960cc0, ''LilyGo_TLora_V2_1_1_6_kiss_modem''),
     (0x504020ea, ''LilyGo_TLora_V2_1_1_6_repeater''),
     (0x9d8b60ae, ''LilyGo_TLora_V2_1_1_6_repeater_observer_mqtt_''),
     (0xa2ce002f, ''LilyGo_TLora_V2_1_1_6_room_server''),
     (0xba4f47f3, ''LilyGo_TLora_V2_1_1_6_room_server_observer_mqtt_''),
     (0x6f16479e, ''LilyGo_TLora_V2_1_1_6_terminal_chat''),
     (0x1018e5d1, ''M5Stack_Unit_C6L_companion_radio_ble''),
     (0xc0ab5040, ''M5Stack_Unit_C6L_companion_radio_usb''),
     (0xa2bf90bd, ''M5Stack_Unit_C6L_kiss_modem''),
     (0xe6bff8f9, ''M5Stack_Unit_C6L_repeater''),
     (0xb9cd26cb, ''M5Stack_Unit_C6L_room_server''),
     (0x9bc34bd5, ''Mesh_pocket_repeater''),
     (0xdbfe2675, ''Meshadventurer_sx1262_companion_radio_ble''),
     (0xb00241d0, ''Meshadventurer_sx1262_companion_radio_usb''),
     (0x88e77fee, ''Meshadventurer_sx1262_kiss_modem''),
     (0xae2d9caa, ''Meshadventurer_sx1262_repeater''),
     (0xa0043e00, ''Meshadventurer_sx1262_room_server''),
     (0x26bbf4ed, ''Meshadventurer_sx1262_terminal_chat''),
     (0xdcc0f158, ''Meshadventurer_sx1268_companion_radio_ble''),
     (0xe3320463, ''Meshadventurer_sx1268_companion_radio_usb''),
     (0x852b928a, ''Meshadventurer_sx1268_kiss_modem''),
     (0x0ec870e9, ''Meshadventurer_sx1268_repeater''),
     (0x8f00c1f2, ''Meshadventurer_sx1268_room_server''),
     (0xcea95e20, ''Meshadventurer_sx1268_terminal_chat''),
     (0xd45277ff, ''Meshimi_companion_radio_ble_''),
     (0x2cad9a9d, ''Meshimi_repeater_''),
     (0x02a4a8c1, ''meshnology_w12_companion_radio_ble''),
     (0x4a709348, ''meshnology_w12_companion_radio_full''),
     (0x35d960bd, ''meshnology_w12_companion_radio_usb''),
     (0x62977023, ''meshnology_w12_companion_radio_wifi''),
     (0x17a7ed8c, ''meshnology_w12_kiss_modem''),
     (0x07f5f5b5, ''meshnology_w12_repeater''),
     (0xfd0d4b8f, ''meshnology_w12_repeater_bridge_espnow''),
     (0xf5afb7dd, ''meshnology_w12_room_server''),
     (0x6ebf28cb, ''meshnology_w12_sensor''),
     (0x2d589527, ''meshnology_w12_terminal_chat''),
     (0x77d0810c, ''Minewsemi_me25ls01_repeater''),
     (0xf8259880, ''Nano_G2_Ultra_repeater''),
     (0x063f1f00, ''nibble_screen_connect_companion_radio_ble_''),
     (0x70d71f92, ''nibble_screen_connect_companion_radio_full_''),
     (0xa8a79da5, ''nibble_screen_connect_companion_radio_usb_''),
     (0xc0d3815b, ''nibble_screen_connect_companion_radio_wifi_''),
     (0x966ac88e, ''nibble_screen_connect_kiss_modem_''),
     (0x104b3f8b, ''nibble_screen_connect_repeater_''),
     (0x23b49348, ''nibble_screen_connect_repeater_bridge_espnow_''),
     (0xc42cc90d, ''nibble_screen_connect_room_server_''),
     (0xc24791c3, ''nibble_screen_connect_terminal_chat_''),
     (0x15e11067, ''nibble_zero_connect_companion_radio_ble_''),
     (0x2dbb2669, ''nibble_zero_connect_companion_radio_full_''),
     (0x90799c32, ''nibble_zero_connect_companion_radio_usb_''),
     (0x881a6a48, ''nibble_zero_connect_companion_radio_wifi_''),
     (0xf26af51c, ''nibble_zero_connect_repeater_''),
     (0x8174cbdc, ''nibble_zero_connect_repeater_bridge_espnow_''),
     (0x0bf0f061, ''nibble_zero_connect_room_server_''),
     (0x2509dd80, ''nibble_zero_connect_terminal_chat_''),
     (0x56293b24, ''ProMicro_companion_radio_ble''),
     (0x8c81078c, ''ProMicro_companion_radio_usb''),
     (0xbd6a1c97, ''ProMicro_kiss_modem''),
     (0xf4d98c12, ''ProMicro_repeater''),
     (0xccac4283, ''ProMicro_repeater_bridge_rs232_serial1''),
     (0x5f606274, ''ProMicro_room_server''),
     (0x84923735, ''ProMicro_sensor''),
     (0x2c0b8b05, ''ProMicro_terminal_chat''),
     (0xdba69401, ''R1Neo_companion_radio_ble''),
     (0xcb6555ee, ''R1Neo_companion_radio_usb''),
     (0xd60daf25, ''R1Neo_kiss_modem''),
     (0x410bd800, ''R1Neo_repeater''),
     (0xd8641710, ''R1Neo_room_server''),
     (0x4d0b1601, ''R1Neo_sensor''),
     (0xab2ac09e, ''R1Neo_terminal_chat''),
     (0xa17fc4f7, ''RAK_3112_companion_radio_ble''),
     (0xe4b2bd22, ''RAK_3112_companion_radio_full''),
     (0x90c4eb3f, ''RAK_3112_companion_radio_usb''),
     (0x19d9ce91, ''RAK_3112_companion_radio_wifi''),
     (0x121cc72f, ''RAK_3112_kiss_modem''),
     (0xfa8510fa, ''RAK_3112_repeater''),
     (0xd34d8461, ''RAK_3112_repeater_bridge_espnow''),
     (0x98077550, ''RAK_3112_repeater_bridge_rs232''),
     (0x11628e29, ''RAK_3112_repeater_observer_mqtt''),
     (0x2ed959aa, ''RAK_3112_room_server''),
     (0xf1e7cadb, ''RAK_3112_room_server_observer_mqtt''),
     (0xced7e127, ''RAK_3112_sensor''),
     (0x6925aaf0, ''RAK_3112_terminal_chat''),
     (0xa52ba3c8, ''RAK_3401_repeater_rak13302_w25q16_lora_ota''),
     (0x9f4d58ac, ''RAK_4631_companion_radio_ble''),
     (0x7a55dec3, ''RAK_4631_companion_radio_ethernet''),
     (0x5e69738a, ''RAK_4631_companion_radio_full''),
     (0x48d3b5d4, ''RAK_4631_companion_radio_usb''),
     (0x14e6965d, ''RAK_4631_kiss_modem''),
     (0x29bc38dc, ''RAK_4631_repeater_rak15001_slot_c_lora_ota''),
     (0xc62da371, ''RAK_4631_repeater_w25q16_lora_ota''),
     (0xf1d3c5a8, ''RAK_4631_terminal_chat''),
     (0xc6d55752, ''RAK_WisMesh_Tag_companion_radio_ble''),
     (0x60683191, ''RAK_WisMesh_Tag_companion_radio_usb''),
     (0x8a7cb79b, ''RAK_WisMesh_Tag_kiss_modem''),
     (0x4fa4ae55, ''RAK_WisMesh_Tag_repeater''),
     (0x9cb0b232, ''RAK_WisMesh_Tag_room_server''),
     (0x51fa1a49, ''RAK_WisMesh_Tag_sensor''),
     (0xdb73638b, ''SenseCap_Solar_repeater''),
     (0xd904c2d5, ''SenseCapIndicator-ESPNow_comp_radio_usb''),
     (0x3a14aac7, ''SenseCapIndicator-LoRa-N16R2_comp_radio_usb_wifi''),
     (0x620569f4, ''SenseCapIndicator-LoRa_comp_radio_usb''),
     (0x08483f6b, ''SenseCapIndicator-LoRa_comp_radio_usb_wifi''),
     (0x0db48f35, ''solarxiao_30S_companion_radio_ble''),
     (0x20532f6c, ''solarxiao_30S_companion_radio_usb''),
     (0x293ced32, ''solarxiao_30S_kiss_modem''),
     (0xb38ebf22, ''solarxiao_30S_repeater''),
     (0x7c89c73d, ''solarxiao_30S_repeater_bridge_rs232''),
     (0x2d7c11e8, ''solarxiao_30S_room_server''),
     (0x61b32037, ''solarxiao_33S_companion_radio_ble''),
     (0xad1cd53d, ''solarxiao_33S_companion_radio_usb''),
     (0x0e18b360, ''solarxiao_33S_kiss_modem''),
     (0x3caf966e, ''solarxiao_33S_repeater''),
     (0xcb59ea4e, ''solarxiao_33S_repeater_bridge_rs232''),
     (0xe3a28284, ''solarxiao_33S_room_server''),
     (0x05747eb6, ''Station_G2_logging_repeater''),
     (0x75587f24, ''Station_G2_logging_repeater_bridge_espnow''),
     (0xf2128c81, ''Station_G2_repeater''),
     (0x1b34e7b4, ''Station_G2_repeater_bridge_espnow''),
     (0x8e549407, ''Station_G3_ESP32_companion_radio_ble''),
     (0x6ca142f4, ''Station_G3_ESP32_companion_radio_full''),
     (0x1deac038, ''Station_G3_ESP32_companion_radio_usb'')]"

definition TABLE_4 :: "(u32 \<times> string) list" where
  "TABLE_4 =
    [(0x2a2f303b, ''Station_G3_ESP32_companion_radio_wifi''),
     (0x0ba4453d, ''Station_G3_ESP32_kiss_modem''),
     (0xf8d1958f, ''Station_G3_ESP32_logging_repeater''),
     (0x3c49caf8, ''Station_G3_ESP32_repeater''),
     (0x58689ef9, ''Station_G3_ESP32_repeater_observer_mqtt''),
     (0x91878dd8, ''Station_G3_ESP32_room_server''),
     (0x72a93c45, ''Station_G3_ESP32_room_server_observer_mqtt''),
     (0x4dbf035e, ''t1000e_companion_radio_ble''),
     (0xff4102d6, ''t1000e_companion_radio_usb''),
     (0x2f9a9185, ''t1000e_kiss_modem''),
     (0x000fc519, ''t1000e_repeater''),
     (0x3e55e34d, ''t1000e_room_server''),
     (0x16482630, ''T_Beam_S3_Supreme_SX1262_companion_radio_ble''),
     (0xce0f07ad, ''T_Beam_S3_Supreme_SX1262_companion_radio_ble_ps''),
     (0x01c43d49, ''T_Beam_S3_Supreme_SX1262_companion_radio_wifi''),
     (0x51fe3801, ''T_Beam_S3_Supreme_SX1262_kiss_modem''),
     (0x857149e5, ''T_Beam_S3_Supreme_SX1262_repeater''),
     (0xd9d64938, ''T_Beam_S3_Supreme_SX1262_repeater_bridge_espnow''),
     (0xcb7da3f5, ''T_Beam_S3_Supreme_SX1262_repeater_observer_mqtt''),
     (0x9952fbe3, ''T_Beam_S3_Supreme_SX1262_room_server''),
     (0x3729cd74, ''T_Beam_S3_Supreme_SX1262_room_server_observer_mqtt''),
     (0xdc27c37c, ''Tbeam_SX1262_companion_radio_ble''),
     (0x9b9f8775, ''Tbeam_SX1262_companion_radio_ble_ps''),
     (0xb27514a3, ''Tbeam_SX1262_kiss_modem''),
     (0xe9ce038c, ''Tbeam_SX1262_repeater''),
     (0xe295a7a4, ''Tbeam_SX1262_repeater_observer_mqtt''),
     (0x189660b3, ''Tbeam_SX1262_room_server''),
     (0x99907475, ''Tbeam_SX1262_room_server_observer_mqtt''),
     (0x2082078d, ''Tbeam_SX1276_companion_radio_ble''),
     (0x24a94c81, ''Tbeam_SX1276_companion_radio_ble_ps''),
     (0x3750e80d, ''Tbeam_SX1276_kiss_modem''),
     (0xe4b49973, ''Tbeam_SX1276_repeater''),
     (0xe1372b52, ''Tbeam_SX1276_repeater_observer_mqtt''),
     (0x5a79bac1, ''Tbeam_SX1276_room_server''),
     (0x6f339514, ''Tbeam_SX1276_room_server_observer_mqtt''),
     (0x8eaa289e, ''Tenstar_C3_sx1262_kiss_modem''),
     (0x70e91bd9, ''Tenstar_C3_sx1262_repeater''),
     (0x5a7e9c2d, ''Tenstar_C3_sx1262_repeater_bridge_espnow''),
     (0x1211b151, ''Tenstar_C3_sx1268_kiss_modem''),
     (0x0a32044b, ''Tenstar_C3_sx1268_repeater''),
     (0xa13fe853, ''Tenstar_C3_sx1268_repeater_bridge_espnow''),
     (0x79b9ff01, ''ThinkNode_M1_companion_radio_ble''),
     (0xc3decea2, ''ThinkNode_M1_companion_radio_usb''),
     (0x3c012018, ''ThinkNode_M1_kiss_modem''),
     (0x6afd6f75, ''ThinkNode_M1_repeater''),
     (0x7517d400, ''ThinkNode_M1_room_server''),
     (0xd7598668, ''ThinkNode_M2_companion_radio_ble''),
     (0x61bdb52a, ''ThinkNode_M2_companion_radio_full''),
     (0x413287d8, ''ThinkNode_M2_companion_radio_serial''),
     (0xe8cd2377, ''ThinkNode_M2_companion_radio_usb''),
     (0x3309bdaf, ''ThinkNode_M2_companion_radio_wifi''),
     (0x7330afbb, ''ThinkNode_M2_kiss_modem''),
     (0x9df48ce6, ''ThinkNode_M2_Repeater''),
     (0xa5cb783a, ''ThinkNode_M2_Repeater_bridge_espnow''),
     (0x4b9f8283, ''ThinkNode_M2_room_server''),
     (0x311846c9, ''ThinkNode_M2_terminal_chat''),
     (0x8b6b29b7, ''ThinkNode_M3_companion_radio_ble''),
     (0x37928233, ''ThinkNode_M3_companion_radio_usb''),
     (0x88ac45da, ''ThinkNode_M3_kiss_modem''),
     (0x087f99c0, ''ThinkNode_M3_repeater''),
     (0x2afe6c63, ''ThinkNode_M3_room_server''),
     (0xf2d61a1c, ''ThinkNode_M5_companion_radio_ble''),
     (0x14b1b097, ''ThinkNode_M5_companion_radio_ble_ps''),
     (0xec334f3f, ''ThinkNode_M5_companion_radio_full''),
     (0x1da30414, ''ThinkNode_M5_companion_radio_serial''),
     (0xae8fe1c9, ''ThinkNode_M5_companion_radio_usb''),
     (0x67acd73f, ''ThinkNode_M5_companion_radio_wifi''),
     (0xfb118ed8, ''ThinkNode_M5_kiss_modem''),
     (0xe4213729, ''ThinkNode_M5_Repeater''),
     (0x1298038d, ''ThinkNode_M5_Repeater_bridge_espnow''),
     (0x2c47acff, ''ThinkNode_M5_room_server''),
     (0x7d641646, ''ThinkNode_M5_terminal_chat''),
     (0x51efdbfe, ''ThinkNode_M6_companion_radio_ble''),
     (0xf2aada5b, ''ThinkNode_M6_companion_radio_usb''),
     (0xe59c9373, ''ThinkNode_M6_kiss_modem''),
     (0x236f605c, ''ThinkNode_M6_repeater''),
     (0x93994fed, ''ThinkNode_M6_room_server''),
     (0x66c47cfd, ''ThinkNode_M7_companion_radio_ble''),
     (0x48061a01, ''ThinkNode_M7_companion_radio_ethernet''),
     (0x7ed7137d, ''ThinkNode_M7_companion_radio_full''),
     (0xa01688a7, ''ThinkNode_M7_companion_radio_usb''),
     (0xa5f4a562, ''ThinkNode_M7_companion_radio_wifi''),
     (0xef83222b, ''ThinkNode_M7_kiss_modem''),
     (0xc36ec867, ''ThinkNode_M7_repeater''),
     (0xb932238e, ''ThinkNode_M7_repeater_observer_mqtt''),
     (0x92f5bbea, ''ThinkNode_M7_room_server''),
     (0x26d91ab2, ''ThinkNode_M7_room_server_observer_mqtt''),
     (0x708ac4dc, ''ThinkNode_M9_companion_radio_ble_''),
     (0xdc51bf13, ''ThinkNode_M9_companion_radio_usb_''),
     (0xc27f8304, ''ThinkNode_M9_companion_radio_wifi_''),
     (0x7190df40, ''ThinkNode_M9_kiss_modem''),
     (0x609d50b3, ''ThinkNode_M9_repeater_''),
     (0x5718c7ea, ''ThinkNode_M9_room_server_''),
     (0x37443a5b, ''WHY2025_badge_companion_radio_ble_''),
     (0x603384a7, ''WHY2025_badge_repeater_''),
     (0xce3ef40f, ''wio_wm1110_repeater''),
     (0x475a2a6a, ''WioTrackerL1_companion_radio_ble''),
     (0xf4175d2c, ''WioTrackerL1_companion_radio_usb''),
     (0x3d831006, ''WioTrackerL1_kiss_modem''),
     (0x556eb1bc, ''WioTrackerL1_repeater''),
     (0xb67370b3, ''WioTrackerL1_repeater_lora_ota_no_external_sensors''),
     (0x0c689b90, ''WioTrackerL1_room_server''),
     (0x91eac424, ''WioTrackerL1Eink_companion_radio_ble''),
     (0x7a84a8c4, ''WioTrackerL1Eink_kiss_modem''),
     (0x67843a5f, ''Xiao_C3_companion_radio_ble''),
     (0x0e83fd51, ''Xiao_C3_companion_radio_ble_ps''),
     (0xfad357ab, ''Xiao_C3_companion_radio_usb''),
     (0x16af5c67, ''Xiao_C3_companion_radio_wifi''),
     (0x8c105104, ''Xiao_C3_kiss_modem''),
     (0xa80042a0, ''Xiao_C3_repeater''),
     (0x4bff0748, ''Xiao_C3_room_server''),
     (0x77c8f2b5, ''Xiao_C6_companion_radio_ble_''),
     (0x71ee0e15, ''Xiao_C6_kiss_modem''),
     (0x8824cd0c, ''Xiao_C6_repeater_''),
     (0xe5439198, ''Xiao_nrf52_companion_radio_ble''),
     (0xe90a6e74, ''Xiao_nrf52_companion_radio_usb''),
     (0x833e5cdc, ''Xiao_nrf52_kiss_modem''),
     (0x93145fbb, ''Xiao_nrf52_repeater''),
     (0x33a154ff, ''Xiao_nrf52_room_server''),
     (0x6658b418, ''Xiao_S3_companion_radio_ble''),
     (0x0cfb9c00, ''Xiao_S3_companion_radio_ble_ps''),
     (0x964f4f5c, ''Xiao_S3_companion_radio_usb''),
     (0x0a5dc760, ''Xiao_S3_kiss_modem''),
     (0xd08496ce, ''Xiao_S3_repeater''),
     (0x293ac2c8, ''Xiao_S3_repeater_bridge_espnow''),
     (0x60ebfa87, ''Xiao_S3_room_server''),
     (0x60f5fdc2, ''Xiao_S3_sensor''),
     (0xe8f79d22, ''Xiao_S3_WIO_companion_radio_ble''),
     (0xb97bbb15, ''Xiao_S3_WIO_companion_radio_ble_ps''),
     (0xd466590c, ''Xiao_S3_WIO_companion_radio_full''),
     (0x9f27be15, ''Xiao_S3_WIO_companion_radio_serial''),
     (0x396fecc7, ''Xiao_S3_WIO_companion_radio_usb''),
     (0xf94e3407, ''Xiao_S3_WIO_companion_radio_wifi''),
     (0xe1930103, ''Xiao_S3_WIO_kiss_modem''),
     (0x9f19bcd1, ''Xiao_S3_WIO_repeater''),
     (0xfcebff61, ''Xiao_S3_WIO_repeater_bridge_espnow''),
     (0xac5c1405, ''Xiao_S3_WIO_repeater_observer_mqtt''),
     (0xccb734e2, ''Xiao_S3_WIO_room_server''),
     (0x634ff632, ''Xiao_S3_WIO_room_server_observer_mqtt''),
     (0xf967a300, ''Xiao_S3_WIO_sensor''),
     (0xa0cc1c36, ''Xiao_S3_WIO_terminal_chat'')]"

definition TABLE :: "(u32 \<times> string) list" where
  "TABLE = TABLE_1 @ TABLE_2 @ TABLE_3 @ TABLE_4"

section \<open>Lookup\<close>

definition env_name :: "u32 \<Rightarrow> string option" where
  "env_name target_id =
    map_option snd (find (\<lambda>(id, _). id = target_id) (BOOTLOADER_RELEVANT_APPLICATION_TARGETS @ TABLE))"

definition label :: "u32 \<Rightarrow> string" where
  "label target_id = (case env_name target_id of Some name \<Rightarrow> name | None \<Rightarrow> ''N/A'')"

section \<open>Every entry is found under its own id\<close>

text \<open>Distinctness of a list of numbers by splitting at the head, which the kernel evaluates quickly.\<close>

fun split_at :: "int \<Rightarrow> int list \<Rightarrow> int list \<Rightarrow> int list \<Rightarrow> (int list \<times> int list) option" where
  "split_at x [] lo hi = Some (lo, hi)"
| "split_at x (y # ys) lo hi =
    (if y < x then split_at x ys (y # lo) hi else if x < y then split_at x ys lo (y # hi) else None)"

fun split_distinct :: "nat \<Rightarrow> int list \<Rightarrow> bool" where
  "split_distinct 0 xs = (xs = [])"
| "split_distinct (Suc n) [] = True"
| "split_distinct (Suc n) (x # xs) =
    (case split_at x xs [] [] of
       None \<Rightarrow> False
     | Some (lo, hi) \<Rightarrow> split_distinct n lo \<and> split_distinct n hi)"

lemma split_at_mset:
  "split_at x xs lo hi = Some (lo', hi') \<Longrightarrow> mset lo' + mset hi' = mset xs + mset lo + mset hi"
  by (induction x xs lo hi rule: split_at.induct) (auto split: if_splits)

lemma split_at_set:
  "split_at x xs lo hi = Some (lo', hi') \<Longrightarrow> \<forall>y \<in> set lo. y < x \<Longrightarrow> \<forall>y \<in> set hi. x < y \<Longrightarrow>
    (\<forall>y \<in> set lo'. y < x) \<and> (\<forall>y \<in> set hi'. x < y)"
  by (induction x xs lo hi rule: split_at.induct) (auto split: if_splits)

lemma split_distinct: "split_distinct n xs \<Longrightarrow> distinct xs"
proof (induction n xs rule: split_distinct.induct)
  case (3 n x xs)
  then obtain lo hi where s: "split_at x xs [] [] = Some (lo, hi)"
    and d: "distinct lo" "distinct hi" by (auto split: option.splits)
  have m: "mset xs = mset (lo @ hi)" using split_at_mset [OF s] by simp
  have b: "\<forall>y \<in> set lo. y < x" "\<forall>y \<in> set hi. x < y" using split_at_set [OF s] by auto
  have "distinct (lo @ hi)" using d b by fastforce
  moreover have "x \<notin> set (lo @ hi)" using b by auto
  ultimately show ?case
    using m by (metis distinct.simps(2) mset_eq_imp_distinct_iff mset_eq_setD)
qed simp_all

definition all_targets :: "(u32 \<times> string) list" where
  "all_targets = BOOTLOADER_RELEVANT_APPLICATION_TARGETS @ TABLE"

lemma all_target_ids_split: "split_distinct 40 (map (\<lambda>(id, _). uint id) all_targets)"
  unfolding all_targets_def TABLE_def BOOTLOADER_RELEVANT_APPLICATION_TARGETS_def
    TABLE_1_def TABLE_2_def TABLE_3_def TABLE_4_def append.simps list.map prod.case
  by (simp, code_simp)

lemma all_targets_distinct: "distinct (map fst all_targets)"
proof -
  have "distinct (map uint (map fst all_targets))"
    using split_distinct [OF all_target_ids_split] by (simp add: split_def comp_def)
  then show ?thesis by (simp only: distinct_map)
qed

lemma find_fst_map_of: "map_option snd (find (\<lambda>(k, _). k = x) xs) = map_of xs x"
  by (induction xs) auto

lemma env_name_map_of: "env_name i = map_of all_targets i"
  by (simp add: env_name_def all_targets_def find_fst_map_of)

lemma env_name_Some: "env_name i = Some n \<longleftrightarrow> (i, n) \<in> set all_targets"
  using all_targets_distinct by (simp add: env_name_map_of)

end
