(* ===== verification/Mota_Versions.thy ===== *)
theory Mota_Versions
  imports Mota_Prelude
begin

text \<open>
  The version numbers of \<open>src/endf.rs\<close>: \<open>pack_version\<close> reads dotted decimal text into a \<open>u32\<close>, one byte
  per component, and \<open>version_str\<close> prints one. \<open>dec\<close> is the decimal rendering of the format \<open>{}\<close>.
\<close>

section \<open>Decimal text and dotted versions\<close>

text \<open>\<open>str::split\<close> on one ASCII character: at least one piece, empty pieces kept.\<close>

fun split_on :: "'a \<Rightarrow> 'a list \<Rightarrow> 'a list list" where
  "split_on d [] = [[]]"
| "split_on d (x # xs) =
    (if x = d then [] # split_on d xs
     else case split_on d xs of [] \<Rightarrow> [[x]] | p # ps \<Rightarrow> (x # p) # ps)"

definition is_ascii_digit :: "u8 \<Rightarrow> bool" where
  "is_ascii_digit b \<longleftrightarrow> 48 \<le> b \<and> b \<le> 57"

definition dec_value :: "bytes \<Rightarrow> nat" where
  "dec_value tok = foldl (\<lambda>a b. 10 * a + (unat b - 48)) 0 tok"

fun dec :: "nat \<Rightarrow> bytes" where
  "dec n = (if n < 10 then [of_nat (48 + n)] else dec (n div 10) @ [of_nat (48 + n mod 10)])"

declare dec.simps [simp del]

fun pack_loop :: "bytes list \<Rightarrow> u32 list \<Rightarrow> nat \<Rightarrow> (u32 list \<times> nat) result" where
  "pack_loop [] parts n = Inr (parts, n)"
| "pack_loop (tok # toks) parts n =
    (if n = length parts then Inl (Bail ''too many version components'')
     else if tok = [] \<or> \<not> list_all is_ascii_digit tok then Inl (Bail ''bad version'')
     else if 2 ^ 32 \<le> dec_value tok then Inl (Bail ''version component too large'')
     else if 255 < dec_value tok then Inl (Bail ''version component exceeds 255'')
     else pack_loop toks (parts[n := of_nat (dec_value tok)]) (n + 1))"

definition pack_version :: "bytes \<Rightarrow> u32 result" where
  "pack_version s =
    bindr (pack_loop (split_on 46 s) (replicate 4 0) 0) (\<lambda>(parts, n).
      if n = 0 then Inl (Bail ''bad version'')
      else Inr (push_bit 24 (parts ! 0) OR push_bit 16 (parts ! 1) OR push_bit 8 (parts ! 2) OR parts ! 3))"

definition version_str :: "u32 \<Rightarrow> bytes" where
  "version_str v =
    (let core = dec (unat (drop_bit 24 v AND 0xFF)) @ [46] @ dec (unat (drop_bit 16 v AND 0xFF)) @
           [46] @ dec (unat (drop_bit 8 v AND 0xFF));
         fourth = v AND 0xFF
     in if fourth = 0 then core else core @ [46] @ dec (unat fourth))"

lemma dec_value_append: "dec_value (xs @ [b]) = 10 * dec_value xs + (unat b - 48)"
  by (simp add: dec_value_def)

lemma unat_digit: "n < 10 \<Longrightarrow> unat (48 + word_of_nat n :: u8) = 48 + n"
  using unat_of_nat_u8 [of "48 + n"] by simp

lemma dec_value_dec [simp]: "dec_value (dec n) = n"
proof (induction n rule: dec.induct)
  case (1 n)
  show ?case
  proof (cases "n < 10")
    case True
    then show ?thesis by (subst dec.simps) (simp add: dec_value_def unat_digit)
  next
    case False
    then show ?thesis using 1 by (subst dec.simps) (simp add: dec_value_append unat_digit)
  qed
qed

lemma dec_nonempty [simp]: "dec n \<noteq> []"
  by (subst dec.simps) simp

lemma digit_bounds: "n < 10 \<Longrightarrow> is_ascii_digit (48 + word_of_nat n)"
  by (simp add: is_ascii_digit_def word_le_nat_alt unat_digit)

lemma dec_digits: "list_all is_ascii_digit (dec n)"
proof (induction n rule: dec.induct)
  case (1 n)
  then show ?case by (subst dec.simps) (simp add: digit_bounds)
qed

lemma dec_no_dot: "46 \<notin> set (dec n)"
  using dec_digits [of n] by (auto simp: list_all_iff is_ascii_digit_def)

lemma split_on_single: "d \<notin> set xs \<Longrightarrow> split_on d xs = [xs]"
  by (induction xs) auto

lemma split_on_append: "d \<notin> set xs \<Longrightarrow> split_on d (xs @ d # ys) = xs # split_on d ys"
  by (induction xs) auto

lemma byte_and_bound: "unat ((v :: u32) AND 0xFF) \<le> 255"
  using word_and_le1 [of v "0xFF"] by (simp add: word_le_nat_alt)

lemma byte_mask: "(0xFF :: u32) = mask 8"
  by (simp add: mask_eq_exp_minus_1)

lemma version_bits:
  "push_bit 24 (drop_bit 24 v AND 0xFF) OR push_bit 16 (drop_bit 16 v AND 0xFF) OR
   push_bit 8 (drop_bit 8 v AND 0xFF) OR (v AND 0xFF) = (v :: u32)"
  unfolding byte_mask
proof (rule bit_word_eqI)
  fix n assume n: "n < LENGTH(32)"
  consider "n < 8" | "8 \<le> n" "n < 16" | "16 \<le> n" "n < 24" | "24 \<le> n" by linarith
  then show "bit (push_bit 24 (drop_bit 24 v AND mask 8) OR push_bit 16 (drop_bit 16 v AND mask 8) OR
     push_bit 8 (drop_bit 8 v AND mask 8) OR (v AND mask 8)) n = bit v n"
    using n by cases (simp_all add: bit_simps; linarith)+
qed

lemma four_parts:
  "replicate 4 x = [x, x, x, x]"
  "[a, b, c, d][0 := x] = [x, b, c, d]" "[a, b, c, d][Suc 0 := x] = [a, x, c, d]"
  "[a, b, c, d][2 := x] = [a, b, x, d]" "[a, b, c, d][3 := x] = [a, b, c, x]"
  by (simp_all add: numeral_eq_Suc)

lemma pack_loop_dec:
  "n < length parts \<Longrightarrow> k \<le> 255 \<Longrightarrow>
    pack_loop (dec k # toks) parts n = pack_loop toks (parts[n := of_nat k]) (n + 1)"
  by (simp add: dec_digits)

lemma pack_version_version_str: "pack_version (version_str v) = Inr v"
proof -
  let ?a = "drop_bit 24 v AND 0xFF" and ?b = "drop_bit 16 v AND 0xFF"
  let ?c = "drop_bit 8 v AND 0xFF" and ?d = "v AND 0xFF"
  let ?toks = "[dec (unat ?a), dec (unat ?b), dec (unat ?c)] @
     (if ?d = 0 then [] else [dec (unat ?d)])"
  have split: "split_on 46 (version_str v) = ?toks"
    by (simp add: version_str_def Let_def split_on_append split_on_single dec_no_dot)
  have "pack_loop ?toks (replicate 4 0) 0 = Inr ([?a, ?b, ?c, ?d], if ?d = 0 then 3 else 4)"
    by (simp add: pack_loop_dec byte_and_bound four_parts del: pack_loop.simps(2))
  with split version_bits [of v] show ?thesis
    by (simp add: pack_version_def)
qed

end
