(* ===== verification/Mota_Crc.thy ===== *)
theory Mota_Crc
  imports Mota_Prelude
begin

text \<open>
  The CRC-32 of \<open>src/bootloader.rs\<close> (\<open>crc32_with_zeroed\<close>, reflected polynomial \<open>0xEDB88320\<close>), and what the
  embedded manifest gets from it: the register update is linear and injective, and up to four
  consecutive bytes enter it at distinct bit positions, so a change confined to four consecutive
  bytes always changes the checksum.
\<close>

section \<open>CRC-32\<close>

definition crc_bit :: "u32 \<Rightarrow> u32" where
  "crc_bit crc = drop_bit 1 crc XOR (0xEDB88320 AND (0 - (crc AND 1)))"

definition crc_byte :: "u32 \<Rightarrow> u8 \<Rightarrow> u32" where
  "crc_byte crc b = (crc_bit ^^ 8) (crc XOR ucast b)"

fun crc_from :: "nat \<Rightarrow> nat \<Rightarrow> nat \<Rightarrow> u32 \<Rightarrow> bytes \<Rightarrow> u32" where
  "crc_from i lo hi crc [] = crc"
| "crc_from i lo hi crc (stored # bs) =
    crc_from (Suc i) lo hi (crc_byte crc (if lo \<le> i \<and> i < hi then 0 else stored)) bs"

definition crc32_with_zeroed :: "bytes \<Rightarrow> nat \<Rightarrow> nat \<Rightarrow> u32" where
  "crc32_with_zeroed bs lo hi = NOT (crc_from 0 lo hi 0xFFFFFFFF bs)"

definition bootloader_image_crc32 :: "bytes \<Rightarrow> nat \<Rightarrow> u32" where
  "bootloader_image_crc32 img crc_offset = crc32_with_zeroed img crc_offset (crc_offset + 4)"

section \<open>Change detection of the CRC\<close>

lemma crc_bit_alt: "crc_bit x = drop_bit 1 x XOR (if bit x 0 then 0xEDB88320 else 0)"
proof -
  have "x AND 1 = of_bool (bit x 0)"
    by (simp add: and_one_eq mod2_eq_if bit_0)
  then show ?thesis by (simp add: crc_bit_def)
qed

lemma crc_bit_xor: "crc_bit (x XOR y) = crc_bit x XOR crc_bit y"
  unfolding crc_bit_alt by (simp add: bit_simps ac_simps)

lemma crc_bit_zero_iff: "crc_bit x = 0 \<longleftrightarrow> x = 0"
proof
  assume z: "crc_bit x = 0"
  have top: "bit (crc_bit x) 31 \<longleftrightarrow> bit x 0"
    unfolding crc_bit_alt by (auto simp: bit_simps dest: bit_imp_le_length)
  have b0: "\<not> bit x 0" using z top by simp
  then have "drop_bit 1 x = 0" using z by (simp add: crc_bit_alt)
  then have "\<not> bit x (Suc n)" for n
    using bit_drop_bit_eq [of 1 x] by (simp add: fun_eq_iff)
  then have "\<not> bit x n" for n using b0 by (cases n) auto
  then show "x = 0" by (simp add: bit_eq_iff)
qed (simp add: crc_bit_alt)

lemma crc_bits_xor: "(crc_bit ^^ n) (x XOR y) = (crc_bit ^^ n) x XOR (crc_bit ^^ n) y"
  by (induction n) (simp_all add: crc_bit_xor)

lemma crc_bits_zero_iff: "(crc_bit ^^ n) x = 0 \<longleftrightarrow> x = 0"
  by (induction n) (simp_all add: crc_bit_zero_iff)

lemma xor_cancel: "(x :: u32) XOR z = y XOR z \<longleftrightarrow> x = y" "z XOR x = z XOR y \<longleftrightarrow> x = y"
proof -
  have *: "x = y" if "x XOR z = y XOR z" for x y :: u32
    using arg_cong [OF that, of "\<lambda>v. v XOR z"] by (simp add: xor.assoc)
  from * show "x XOR z = y XOR z \<longleftrightarrow> x = y" by auto
  from * show "z XOR x = z XOR y \<longleftrightarrow> x = y" by (auto simp: xor.commute [of z])
qed

lemma crc_bits_inject: "(crc_bit ^^ n) x = (crc_bit ^^ n) y \<longleftrightarrow> x = y"
  using crc_bits_xor [of n x y] crc_bits_zero_iff [of n "x XOR y"]
    xor_cancel(1) [of x y y] xor_cancel(1) [of "(crc_bit ^^ n) x" "(crc_bit ^^ n) y" "(crc_bit ^^ n) y"]
  by simp

lemma crc_bit_push:
  assumes "0 < m" and "m \<le> 24"
  shows "crc_bit (push_bit m (ucast (b :: u8))) = push_bit (m - 1) (ucast b)"
proof (rule bit_word_eqI)
  fix i assume "i < LENGTH(32)"
  with assms show "bit (crc_bit (push_bit m (ucast b))) i = bit (push_bit (m - 1) (ucast b :: u32)) i"
    unfolding crc_bit_alt by (auto simp: bit_simps Suc_diff_le dest: bit_imp_le_length)
qed

lemma crc_bits_push: "n \<le> 24 \<Longrightarrow> (crc_bit ^^ n) (push_bit n (ucast (b :: u8))) = ucast b"
proof (induction n)
  case (Suc n)
  then show ?case
    using crc_bit_push [of "Suc n" b] by (simp only: funpow_Suc_right comp_apply) simp
qed simp

text \<open>Up to four bytes enter the register at consecutive byte positions.\<close>

fun crc_word :: "bytes \<Rightarrow> nat \<Rightarrow> u32" where
  "crc_word [] k = 0"
| "crc_word (b # bs) k = push_bit k (ucast b) XOR crc_word bs (k + 8)"

definition crc_run :: "u32 \<Rightarrow> bytes \<Rightarrow> u32" where
  "crc_run s bs = foldl crc_byte s bs"

lemma crc_run_word:
  "length bs \<le> 4 \<Longrightarrow> crc_run s bs = (crc_bit ^^ (8 * length bs)) (s XOR crc_word bs 0)"
proof -
  have step: "crc_byte ((crc_bit ^^ k) x) b = (crc_bit ^^ (k + 8)) (x XOR push_bit k (ucast b))"
    if "k \<le> 24" for k x b
  proof -
    have "(crc_bit ^^ k) x XOR ucast b = (crc_bit ^^ k) (x XOR push_bit k (ucast b))"
      by (simp only: crc_bits_xor crc_bits_push [OF that])
    then show ?thesis by (simp only: crc_byte_def funpow_add add.commute [of k] comp_apply)
  qed
  have "length bs * 8 + k \<le> 32 \<Longrightarrow> foldl crc_byte ((crc_bit ^^ k) x) bs =
      (crc_bit ^^ (k + 8 * length bs)) (x XOR crc_word bs k)" for k x
  proof (induction bs arbitrary: k x)
    case (Cons b bs)
    then show ?case
      by (simp add: step Cons.IH [of "k + 8"] add.assoc [symmetric] xor.assoc)
  qed simp
  from this [of 0 s] show "length bs \<le> 4 \<Longrightarrow> ?thesis" by (simp add: crc_run_def)
qed

lemma bit_push_byte: "bit (push_bit k (ucast (b :: u8) :: u32)) i \<longleftrightarrow> k \<le> i \<and> i < k + 8 \<and> i < 32 \<and> bit b (i - k)"
  by (auto simp: bit_simps dest: bit_imp_le_length)

lemma crc_word_bit:
  "bit (crc_word bs k) i \<longleftrightarrow> k \<le> i \<and> i < 32 \<and> (i - k) div 8 < length bs \<and> bit (bs ! ((i - k) div 8)) ((i - k) mod 8)"
proof (induction bs arbitrary: k)
  case (Cons b bs)
  consider (below) "i < k" | (here) "k \<le> i" "i < k + 8" | (above) "k + 8 \<le> i" by linarith
  then show ?case
  proof cases
    case below
    then show ?thesis by (simp add: bit_xor_iff bit_push_byte Cons.IH)
  next
    case here
    then have "(i - k) div 8 = 0" "(i - k) mod 8 = i - k" by simp_all
    with here show ?thesis by (simp only: crc_word.simps bit_xor_iff bit_push_byte Cons.IH) simp
  next
    case above
    then have "(i - k) div 8 = Suc ((i - (k + 8)) div 8)" "(i - k) mod 8 = (i - (k + 8)) mod 8"
      by (simp_all add: le_div_geq le_mod_geq)
    with above show ?thesis
      by (simp only: crc_word.simps bit_xor_iff bit_push_byte Cons.IH) auto
  qed
qed simp

lemma crc_word_inject:
  assumes "length xs = length ys" and "length xs \<le> 4" and "crc_word xs 0 = crc_word ys 0"
  shows "xs = ys"
proof (rule nth_equalityI [OF assms(1)])
  fix j assume j: "j < length xs"
  show "xs ! j = ys ! j"
  proof (rule bit_word_eqI)
    fix n assume n: "n < LENGTH(8)"
    have "bit (crc_word xs 0) (8 * j + n) = bit (crc_word ys 0) (8 * j + n)"
      by (simp only: assms(3))
    with j n assms(1,2) show "bit (xs ! j) n = bit (ys ! j) n"
      by (simp add: crc_word_bit)
  qed
qed

lemma crc_run_inject_state: "crc_run s bs = crc_run t bs \<longleftrightarrow> s = t"
proof (induction bs arbitrary: s t)
  case (Cons b bs)
  have "crc_byte s b = crc_byte t b \<longleftrightarrow> s = t"
    by (simp only: crc_byte_def crc_bits_inject xor_cancel)
  with Cons show ?case by (simp add: crc_run_def)
qed (simp add: crc_run_def)

text \<open>A scan with a zeroed range reads the bytes with that range replaced by zeros.\<close>

definition zeroed :: "nat \<Rightarrow> nat \<Rightarrow> bytes \<Rightarrow> bytes" where
  "zeroed lo hi bs = map (\<lambda>i. if lo \<le> i \<and> i < hi then 0 else bs ! i) [0..<length bs]"

lemma crc_from_run:
  "crc_from i lo hi s bs = crc_run s (map (\<lambda>(k, b). if lo \<le> k \<and> k < hi then 0 else b) (zip [i..<i + length bs] bs))"
proof (induction i lo hi s bs rule: crc_from.induct)
  case (2 i lo hi crc stored bs)
  have "[i..<i + length (stored # bs)] = i # [Suc i..<Suc i + length bs]"
    by (simp only: length_Cons add_Suc_right) (simp add: upt_rec del: upt_Suc)
  with 2 show ?case by (simp add: crc_run_def del: upt_Suc)
qed (simp add: crc_run_def)

lemma crc32_zeroed: "crc32_with_zeroed bs lo hi = NOT (crc_run 0xFFFFFFFF (zeroed lo hi bs))"
proof -
  have "map (\<lambda>(k, b). if lo \<le> k \<and> k < hi then 0 else b) (zip [0..<length bs] bs) = zeroed lo hi bs"
    by (rule nth_equalityI) (simp_all add: zeroed_def)
  then show ?thesis by (simp add: crc32_with_zeroed_def crc_from_run)
qed

lemma crc_run_burst:
  assumes "length w = length w'" and "length w \<le> 4"
    and "crc_run s (p @ w @ q) = crc_run s (p @ w' @ q)"
  shows "w = w'"
proof -
  let ?t = "crc_run s p"
  have app: "crc_run s (xs @ ys) = crc_run (crc_run s xs) ys" for s xs ys
    by (simp add: crc_run_def)
  have "crc_run ?t w = crc_run ?t w'"
    using assms(3) by (simp only: app crc_run_inject_state)
  then have "?t XOR crc_word w 0 = ?t XOR crc_word w' 0"
    using assms(1,2) by (simp add: crc_run_word crc_bits_inject)
  then have "crc_word w 0 = crc_word w' 0"
    by (simp only: xor_cancel)
  with assms show ?thesis by (intro crc_word_inject) simp_all
qed

lemma zeroed_append_id:
  assumes "length p = lo" and "length z = hi - lo" and "lo \<le> hi"
  shows "zeroed lo hi (p @ z @ q) = p @ replicate (hi - lo) 0 @ q"
  by (rule nth_equalityI) (use assms in \<open>auto simp: zeroed_def nth_append\<close>)

lemma zeroed_take_drop:
  assumes "lo \<le> hi" and "hi \<le> length bs"
  shows "zeroed lo hi bs = take lo bs @ replicate (hi - lo) 0 @ drop hi bs"
proof -
  have "bs = take lo bs @ slice lo hi bs @ drop hi bs"
    using assms by (metis append_take_drop_id drop_drop le_add_diff_inverse2 slice_def)
  then show ?thesis
    using zeroed_append_id [of "take lo bs" lo "slice lo hi bs" hi "drop hi bs"] assms by simp
qed

lemma zeroed_split3:
  assumes "length p + length w \<le> lo \<or> hi \<le> length p" and "lo \<le> hi"
  obtains p' q' where "\<And>v. length v = length w \<Longrightarrow> zeroed lo hi (p @ v @ q) = p' @ v @ q'"
proof
  fix v :: bytes assume v: "length v = length w"
  have s: "zeroed lo hi (p @ v @ q) = zeroed lo hi p @
      map (\<lambda>i. if lo \<le> length p + i \<and> length p + i < hi then 0 else v ! i) [0..<length v] @
      map (\<lambda>i. if lo \<le> length p + length w + i \<and> length p + length w + i < hi then 0 else q ! i) [0..<length q]"
    unfolding zeroed_def by (rule nth_equalityI) (auto simp: nth_append v)
  have "map (\<lambda>i. if lo \<le> length p + i \<and> length p + i < hi then 0 else v ! i) [0..<length v] = v"
    using assms by (intro nth_equalityI) (auto simp: v)
  with s show "zeroed lo hi (p @ v @ q) = zeroed lo hi p @ v @
      map (\<lambda>i. if lo \<le> length p + length w + i \<and> length p + length w + i < hi then 0 else q ! i) [0..<length q]"
    by simp
qed

lemma image_crc_burst:
  assumes "length p + length w \<le> k \<or> k + 4 \<le> length p"
    and "length w = length w'" and "length w \<le> 4"
    and "bootloader_image_crc32 (p @ w @ q) k = bootloader_image_crc32 (p @ w' @ q) k"
  shows "w = w'"
proof -
  obtain p' q' where z: "\<And>v. length v = length w \<Longrightarrow> zeroed k (k + 4) (p @ v @ q) = p' @ v @ q'"
    by (rule zeroed_split3 [OF assms(1)]) auto
  have "crc_run 0xFFFFFFFF (p' @ w @ q') = crc_run 0xFFFFFFFF (p' @ w' @ q')"
    using assms(4) assms(2) by (simp add: bootloader_image_crc32_def crc32_zeroed z)
  then show ?thesis by (rule crc_run_burst [OF assms(2,3)])
qed

end
