(* ===== verification/Mota_Bootloader.thy ===== *)
theory Mota_Bootloader
  imports Mota_Boards Mota_Crypto Mota_Targets Mota_Versions Mota_Crc
begin

text \<open>
  The image contract of \<open>src/bootloader.rs\<close>: vector table, embedded manifest record (BLM) with its
  CRC-32, continuity extension (BLM2), capability marker, and the binding of all of them to the
  outer manifest. Scans walk the four-byte aligned offsets in order. Every field a scan reads at
  an offset it visits lies inside the image (the last offset is the length less the record size),
  so those reads are plain slices; the subtraction that bounds the scan panics on a shorter image.
\<close>

section \<open>Little-endian reads inside a validated range\<close>

definition u16_at :: "bytes \<Rightarrow> nat \<Rightarrow> u16" where
  "u16_at buf off = u16_le (slice off (off + 2) buf)"

definition u32_at :: "bytes \<Rightarrow> nat \<Rightarrow> u32" where
  "u32_at buf off = u32_le (slice off (off + 4) buf)"

section \<open>Vector table\<close>

definition validate_vector :: "bytes \<Rightarrow> unit result" where
  "validate_vector img =
    bindr (rd_u32 img 0) (\<lambda>sp.
    bindr (rd_u32 img 4) (\<lambda>reset.
    let entry = reset AND NOT 1 in
    ensure (sp AND 7 = 0 \<and> 0x20000000 \<le> sp \<and> sp \<le> 0x20040000 \<and> reset AND 1 \<noteq> 0 \<and>
            IMAGE_START \<le> entry \<and> entry < IMAGE_START + of_nat IMAGE_SIZE)
      ''bootloader vector table is invalid'' (Inr ())))"

section \<open>Embedded identity\<close>

record bootloader_identity =
  manifest_offset :: nat
  b_board_id :: u32
  b_device_name :: bytes
  boot_version :: u32
  b_softdevice_family :: u16
  b_softdevice_fwid :: u16
  b_app_base :: u32
  b_layout_abi :: u16
  storage_flags :: u8

text \<open>One iteration of the manifest scan: the identity of the record at \<open>off\<close>, if it is valid.\<close>

definition identity_record :: "bytes \<Rightarrow> nat \<Rightarrow> (u32 \<times> bytes) option" where
  "identity_record img off =
    (if slice off (off + 8) img \<noteq> MANIFEST_MAGIC then None
     else let version = u16_at img (off + 8);
              size_field = unat (u16_at img (off + 10));
              start = u32_at img (off + 12);
              image_size = unat (u32_at img (off + 16));
              board_id = u32_at img (off + 20);
              name_raw = slice (off + 24) (off + 40) img in
          case valid_device_name board_id name_raw of
            None \<Rightarrow> None
          | Some device_name \<Rightarrow>
              (let stored_crc = u32_at img (off + 40) in
               if version \<noteq> MANIFEST_VERSION \<or> size_field \<noteq> MANIFEST_SIZE \<or> start \<noteq> IMAGE_START \<or>
                  image_size \<noteq> IMAGE_SIZE \<or> crc32_with_zeroed img (off + 40) (off + 44) \<noteq> stored_crc
               then None
               else Some (board_id, device_name)))"

fun scan_identity :: "bytes \<Rightarrow> nat list \<Rightarrow> (nat \<times> u32 \<times> bytes) option \<Rightarrow> (nat \<times> u32 \<times> bytes) option result"
where
  "scan_identity img [] found = Inr found"
| "scan_identity img (off # offs) found =
    (case identity_record img off of
       None \<Rightarrow> scan_identity img offs found
     | Some (board_id, device_name) \<Rightarrow>
         ensure (found = None) ''bootloader embedded manifest/CRC is ambiguous''
           (scan_identity img offs (Some (off, board_id, device_name))))"

text \<open>The offsets \<open>(0..=last).step_by(4)\<close>.\<close>

definition steps4 :: "nat \<Rightarrow> nat list" where
  "steps4 final = map (\<lambda>i. 4 * i) [0..<final div 4 + 1]"

text \<open>The second half of \<open>parse_identity\<close>: the continuity extension behind the record at \<open>off\<close>.\<close>

definition parse_continuity :: "bytes \<Rightarrow> nat \<Rightarrow> u32 \<Rightarrow> bytes \<Rightarrow> bootloader_identity result" where
  "parse_continuity img off board_id device_name =
    ensure (off + ENVELOPE_SIZE \<le> length img) ''bootloader continuity extension is truncated'' (
     let ext = slice (off + MANIFEST_SIZE) (off + ENVELOPE_SIZE) img in
     ensure (slice 0 8 ext = CONTINUITY_MAGIC) ''bootloader lacks the BLM2/SOFT continuity extension'' (
     ensure (u16_at ext 8 = CONTINUITY_VERSION \<and> unat (u16_at ext 10) = CONTINUITY_SIZE)
       ''bootloader continuity extension has an invalid version/size'' (
     let version = u32_at ext 12;
         family = u16_at ext 16;
         fwid = u16_at ext 18;
         app_base = u32_at ext 20;
         layout_abi = u16_at ext 24;
         compat = u16_at ext 26;
         reserved = u32_at ext 28 in
     ensure (version_valid version \<and> family \<noteq> 0 \<and> fwid \<noteq> 0 \<and> app_base \<noteq> 0 \<and> layout_abi \<noteq> 0 \<and>
             compat = 0 \<and> reserved = 0)
       ''bootloader continuity metadata is invalid''
       (Inr \<lparr>manifest_offset = off, b_board_id = board_id, b_device_name = device_name,
             boot_version = version, b_softdevice_family = family, b_softdevice_fwid = fwid,
             b_app_base = app_base, b_layout_abi = layout_abi, storage_flags = 0\<rparr>))))"

definition parse_identity :: "bytes \<Rightarrow> bootloader_identity result" where
  "parse_identity img =
    (if length img < MANIFEST_SIZE then Inl Panic else
     bindr (scan_identity img (steps4 (length img - MANIFEST_SIZE)) None) (\<lambda>found.
     bindr (of_opt ''bootloader embedded manifest/CRC is invalid'' found) (\<lambda>(off, board_id, device_name).
     parse_continuity img off board_id device_name)))"

section \<open>Capability marker\<close>

text \<open>The guards of one iteration: the storage byte of a marker that counts as valid.\<close>

definition capability_record :: "bytes \<Rightarrow> nat \<Rightarrow> u8 option" where
  "capability_record img off =
    (if slice off (off + 8) img \<noteq> CAPS_MAGIC then None
     else let abi = u16_at img (off + 8);
              codecs = u16_at img (off + 10);
              storage = img ! (off + 12) in
          if abi < (if storage = STORAGE_RAK_AUTO_RECOVERY then 2 else REQUIRED_FORMAT_ABI) \<or>
             abi = 0xFFFF \<or>
             codecs AND REQUIRED_APP_CODEC_MASK \<noteq> REQUIRED_APP_CODEC_MASK \<or>
             storage AND NOT STORAGE_KNOWN \<noteq> 0 \<or>
             (storage AND STORAGE_HEADER_W25 \<noteq> 0 \<and> storage \<noteq> STORAGE_RAK_AUTO_RECOVERY) \<or>
             (storage AND STORAGE_UPDATE = 0 \<and> storage \<noteq> STORAGE_RAK_AUTO_RECOVERY) \<or>
             slice (off + 13) (off + 16) img \<noteq> [0, 0, 0]
          then None
          else Some storage)"

definition known_profile :: "u8 \<Rightarrow> bool" where
  "known_profile s \<longleftrightarrow>
    s = STORAGE_SD_UPDATE \<or> s = STORAGE_QSPI_UPDATE \<or> s = STORAGE_INTERNAL_UPDATE \<or>
    s = STORAGE_RAK_AUTO_RECOVERY"

fun scan_caps :: "bytes \<Rightarrow> nat list \<Rightarrow> u8 option \<Rightarrow> nat \<Rightarrow> u8 option" where
  "scan_caps img [] found valid_count = (if valid_count = 1 then found else None)"
| "scan_caps img (off # offs) found valid_count =
    (case capability_record img off of
       None \<Rightarrow> scan_caps img offs found valid_count
     | Some storage \<Rightarrow>
         (let n = min (valid_count + 1) 255 in
          if n \<noteq> 1 then None
          else scan_caps img offs (if known_profile storage then Some storage else found) n))"

definition capability_storage :: "bytes \<Rightarrow> u8 option result" where
  "capability_storage img =
    (if length img < 16 then Inl Panic
     else Inr (scan_caps img (steps4 (length img - 16)) None 0))"

section \<open>Target ids and the image contract\<close>

definition bootloader_target_id :: "crypto \<Rightarrow> u32 \<Rightarrow> bytes \<Rightarrow> u32 result" where
  "bootloader_target_id c board_id device_name =
    (if board_id \<in> {XIAO_BASE, XIAO_SENSE} \<and> device_name = ascii ''XIAO_DFU'' then Inr board_id
     else bindr (bootloader_hw_id board_id device_name) (\<lambda>hw.
       Inr (u32_le (slice 0 4 (sha256 c hw)))))"

definition validate_bootloader_image ::
  "crypto \<Rightarrow> bytes \<Rightarrow> u32 \<Rightarrow> bytes \<Rightarrow> u32 \<Rightarrow> bootloader_identity result" where
  "validate_bootloader_image c img tid signed_hw_id outer_version =
    ensure (length img = IMAGE_SIZE) ''bootloader image must be exactly 40960 bytes'' (
    bindr (validate_vector img) (\<lambda>_.
    bindr (parse_identity img) (\<lambda>embedded.
    ensure (manifest_offset embedded = CANDIDATE_MANIFEST_OFFSET)
      ''bootloader continuity envelope must be at exact offset'' (
    ensure (outer_version = boot_version embedded)
      ''outer bootloader version does not match BLM2 metadata'' (
    bindr (bootloader_target_id c (b_board_id embedded) (b_device_name embedded)) (\<lambda>t.
    ensure (tid = t) ''bootloader target ID does not match embedded identity'' (
    bindr (bootloader_hw_id (b_board_id embedded) (b_device_name embedded)) (\<lambda>hw.
    ensure (signed_hw_id = hw) ''bootloader signed hw_id does not match embedded identity'' (
    bindr (capability_storage img) (\<lambda>caps.
    bindr (of_opt ''bootloader lacks one unambiguous qualified update/recovery marker'' caps) (\<lambda>storage.
    ensure (storage \<in> set (qualified_storage (b_board_id embedded) (b_device_name embedded)))
      ''bootloader update/recovery storage profile is not valid for its identity'' (
    ensure (case qualified_platform (b_board_id embedded) (b_device_name embedded) of
              None \<Rightarrow> True
            | Some expected \<Rightarrow>
                (b_softdevice_family embedded, b_softdevice_fwid embedded, b_app_base embedded,
                 b_layout_abi embedded) = expected)
      ''bootloader continuity platform does not match its qualified profile''
      (Inr (embedded\<lparr>storage_flags := storage\<rparr>))))))))))))))"

section \<open>Boards as identities\<close>

text \<open>\<open>Result::expect\<close>: an error becomes a panic.\<close>

definition expect_ok :: "'a result \<Rightarrow> 'a result" where
  "expect_ok r = (case r of Inl _ \<Rightarrow> Inl Panic | Inr v \<Rightarrow> Inr v)"

definition board_hw_id :: "bootloader_board \<Rightarrow> bytes result" where
  "board_hw_id b = expect_ok (bootloader_hw_id (board_board_id b) (ascii (board_device_name b)))"

text \<open>\<open>from_utf8(..).expect\<close> panics unless the prefix up to the first NUL is valid UTF-8.\<close>

definition board_hw_id_str :: "bootloader_board \<Rightarrow> bytes result" where
  "board_hw_id_str b = bindr (board_hw_id b) (\<lambda>value.
    let s = takeWhile (\<lambda>x. x \<noteq> 0) value in if utf8_ok s then Inr s else Inl Panic)"

definition board_target_id :: "crypto \<Rightarrow> bootloader_board \<Rightarrow> u32 result" where
  "board_target_id c b =
    expect_ok (bootloader_target_id c (board_board_id b) (ascii (board_device_name b)))"

definition board_from_identity :: "u32 \<Rightarrow> bytes \<Rightarrow> bootloader_board option" where
  "board_from_identity board_id device_name =
    find (\<lambda>b. board_board_id b = board_id \<and> ascii (board_device_name b) = device_name) BOOTLOADER_BOARDS"

fun inventory_others :: "crypto \<Rightarrow> bootloader_board \<Rightarrow> bytes \<Rightarrow> u32 \<Rightarrow> bootloader_board list \<Rightarrow> unit result"
where
  "inventory_others c b hw tid [] = Inr ()"
| "inventory_others c b hw tid (d # ds) =
    ensure ((board_board_id b, board_device_name b) \<noteq> (board_board_id d, board_device_name d))
      ''duplicate bootloader identity'' (
    bindr (board_hw_id d) (\<lambda>hw'.
    ensure (hw \<noteq> hw') ''bootloader hw_id collision'' (
    bindr (board_target_id c d) (\<lambda>tid'.
    ensure (tid \<noteq> tid') ''bootloader target ID collision'' (inventory_others c b hw tid ds)))))"

fun inventory_from :: "crypto \<Rightarrow> bootloader_board list \<Rightarrow> unit result" where
  "inventory_from c [] = Inr ()"
| "inventory_from c (b # rest) =
    bindr (board_hw_id b) (\<lambda>hw.
    bindr (board_target_id c b) (\<lambda>tid.
    ensure (tid \<noteq> 0 \<and> tid \<noteq> 0xFFFFFFFF) ''invalid bootloader target ID'' (
    ensure (board_storage_profile b \<in> set (qualified_storage (board_board_id b) (ascii (board_device_name b))))
      ''invalid bootloader storage inventory'' (
    ensure (qualified_platform (board_board_id b) (ascii (board_device_name b)) =
        Some (softdevice_family (board_compatibility b), softdevice_fwid (board_compatibility b),
          compat_app_base (board_compatibility b), compat_layout_abi (board_compatibility b)))
      ''invalid bootloader platform inventory'' (
    ensure (env_name tid = None) ''bootloader target ID collides with application target'' (
    bindr (inventory_others c b hw tid rest) (\<lambda>_. inventory_from c rest)))))))"

definition validate_bootloader_inventory :: "crypto \<Rightarrow> unit result" where
  "validate_bootloader_inventory c = inventory_from c BOOTLOADER_BOARDS"

definition validate_bootloader_image_for_profile ::
  "crypto \<Rightarrow> bytes \<Rightarrow> bootloader_board \<Rightarrow> u8 \<Rightarrow> bootloader_identity result" where
  "validate_bootloader_image_for_profile c img board storage_profile =
    bindr (validate_bootloader_inventory c) (\<lambda>_.
    ensure (board_accepts_storage_profile board storage_profile)
      ''storage profile is not valid for the board'' (
    ensure (length img = IMAGE_SIZE) ''bootloader image must be exactly 40960 bytes'' (
    bindr (validate_vector img) (\<lambda>_.
    bindr (parse_identity img) (\<lambda>parsed.
    ensure (b_board_id parsed = board_board_id board \<and> b_device_name parsed = ascii (board_device_name board))
      ''embedded bootloader identity does not match selected board'' (
    bindr (board_target_id c board) (\<lambda>tid.
    bindr (board_hw_id board) (\<lambda>hw.
    bindr (validate_bootloader_image c img tid hw (boot_version parsed)) (\<lambda>ident.
    ensure (storage_flags ident = storage_profile)
      ''embedded storage profile does not match selected profile'' (
    let compatibility = board_compatibility board in
    ensure ((b_softdevice_family ident, b_softdevice_fwid ident, b_app_base ident, b_layout_abi ident) =
        (softdevice_family compatibility, softdevice_fwid compatibility,
         compat_app_base compatibility, compat_layout_abi compatibility))
      ''embedded continuity metadata does not match selected board''
      (Inr ident)))))))))))"

section \<open>Displaying a version\<close>

definition bootloader_version_str :: "u32 \<Rightarrow> bytes" where
  "bootloader_version_str v =
    (let part = (\<lambda>k. dec (unat (drop_bit k v AND 0xFF)));
         base = part 24 @ ascii ''.'' @ part 16 @ ascii ''.'' @ part 8;
         preview = v AND 0xFF
     in if preview = 0xFF then base else base @ ascii ''-preview.'' @ dec (unat preview))"

section \<open>The scans find exactly one record\<close>

definition identity_offsets :: "bytes \<Rightarrow> nat list" where
  "identity_offsets img = filter (\<lambda>off. identity_record img off \<noteq> None) (steps4 (length img - MANIFEST_SIZE))"

definition capability_offsets :: "bytes \<Rightarrow> nat list" where
  "capability_offsets img = filter (\<lambda>off. capability_record img off \<noteq> None) (steps4 (length img - 16))"

lemma scan_identity_found:
  "scan_identity img offs (Some f) = Inr r \<longleftrightarrow>
    r = Some f \<and> filter (\<lambda>off. identity_record img off \<noteq> None) offs = []"
  by (induction offs) (auto split: option.splits)

lemma scan_identity_start:
  "scan_identity img offs None = Inr r \<longleftrightarrow>
    (case filter (\<lambda>off. identity_record img off \<noteq> None) offs of
       [] \<Rightarrow> r = None
     | [off] \<Rightarrow> map_option (Pair off) (identity_record img off) = r
     | _ \<Rightarrow> False)"
proof (induction offs)
  case (Cons off offs)
  show ?case
  proof (cases "identity_record img off")
    case None
    then show ?thesis using Cons by simp
  next
    case (Some x)
    then show ?thesis
      by (cases x) (auto simp: scan_identity_found split: list.splits)
  qed
qed auto

lemma scan_identity_Some:
  "scan_identity img offs None = Inr (Some (off, b, n)) \<longleftrightarrow>
    filter (\<lambda>off. identity_record img off \<noteq> None) offs = [off] \<and> identity_record img off = Some (b, n)"
  unfolding scan_identity_start by (auto split: list.splits)

lemma scan_identity_no_panic: "scan_identity img offs found \<noteq> Inl Panic"
  by (induction offs arbitrary: found) (auto split: option.splits)

lemma scan_caps_one:
  "scan_caps img offs found (Suc 0) =
    (if filter (\<lambda>off. capability_record img off \<noteq> None) offs = [] then found else None)"
  by (induction offs) (auto split: option.splits)

lemma scan_caps_start:
  "scan_caps img offs None 0 = Some s \<longleftrightarrow>
    (\<exists>off. filter (\<lambda>off. capability_record img off \<noteq> None) offs = [off] \<and>
       capability_record img off = Some s \<and> known_profile s)"
proof (induction offs)
  case (Cons off offs)
  then show ?case
    by (cases "capability_record img off") (auto simp: scan_caps_one Let_def)
qed simp

lemma capability_storage_Some:
  "capability_storage img = Inr (Some s) \<longleftrightarrow> 16 \<le> length img \<and>
    (\<exists>off. capability_offsets img = [off] \<and> capability_record img off = Some s \<and> known_profile s)"
  by (auto simp: capability_storage_def capability_offsets_def scan_caps_start)

section \<open>The parsed identity\<close>

text \<open>What \<open>parse_identity\<close> accepts: one valid record, and behind it a valid continuity extension.\<close>

definition continuity_ok :: "bytes \<Rightarrow> nat \<Rightarrow> bool" where
  "continuity_ok img off \<longleftrightarrow>
    off + ENVELOPE_SIZE \<le> length img \<and>
    slice (off + 44) (off + 52) img = CONTINUITY_MAGIC \<and>
    u16_at img (off + 52) = CONTINUITY_VERSION \<and> unat (u16_at img (off + 54)) = CONTINUITY_SIZE \<and>
    version_valid (u32_at img (off + 56)) \<and>
    u16_at img (off + 60) \<noteq> 0 \<and> u16_at img (off + 62) \<noteq> 0 \<and> u32_at img (off + 64) \<noteq> 0 \<and>
    u16_at img (off + 68) \<noteq> 0 \<and> u16_at img (off + 70) = 0 \<and> u32_at img (off + 72) = 0"

definition identity_at :: "bytes \<Rightarrow> nat \<Rightarrow> u32 \<Rightarrow> bytes \<Rightarrow> bootloader_identity" where
  "identity_at img off board_id device_name =
    \<lparr>manifest_offset = off, b_board_id = board_id, b_device_name = device_name,
     boot_version = u32_at img (off + 56), b_softdevice_family = u16_at img (off + 60),
     b_softdevice_fwid = u16_at img (off + 62), b_app_base = u32_at img (off + 64),
     b_layout_abi = u16_at img (off + 68), storage_flags = 0\<rparr>"

lemma u16_at_slice: "k + 2 \<le> b - a \<Longrightarrow> u16_at (slice a b buf) k = u16_at buf (a + k)"
  by (simp add: u16_at_def slice_slice add.assoc)

lemma u32_at_slice: "k + 4 \<le> b - a \<Longrightarrow> u32_at (slice a b buf) k = u32_at buf (a + k)"
  by (simp add: u32_at_def slice_slice add.assoc)

lemma parse_continuity_Inr:
  "parse_continuity img off b n = Inr i \<longleftrightarrow> continuity_ok img off \<and> i = identity_at img off b n"
proof -
  have s: "slice 0 8 (slice (off + 44) (off + 76) img) = slice (off + 44) (off + 52) img"
    by (simp add: slice_slice add.commute)
  have a: "off + 44 + k = off + (44 + k)" for k by simp
  show ?thesis
    unfolding parse_continuity_def continuity_ok_def identity_at_def Let_def mota_const
    by (simp add: s a u16_at_slice u32_at_slice) (auto simp: mota_const)
qed

lemma parse_identity_Inr:
  "parse_identity img = Inr i \<longleftrightarrow> MANIFEST_SIZE \<le> length img \<and>
    (\<exists>off b n. identity_offsets img = [off] \<and> identity_record img off = Some (b, n) \<and>
       continuity_ok img off \<and> i = identity_at img off b n)"
proof -
  have *: "bindr m (\<lambda>f. bindr (of_opt msg f) g) = Inr y \<longleftrightarrow> (\<exists>z. m = Inr (Some z) \<and> g z = Inr y)"
    for m :: "'a option result" and msg g and y :: 'b
    by (cases m) (auto simp: of_opt_def bindr_def split: option.splits)
  show ?thesis
    by (simp add: parse_identity_def identity_offsets_def * scan_identity_Some parse_continuity_Inr
        split_paired_Ex not_less del: bindr_Inr split: if_splits)
qed

lemma parse_continuity_no_panic: "parse_continuity img off b n \<noteq> Inl Panic"
  by (simp add: parse_continuity_def Let_def)

lemma parse_identity_no_panic: "MANIFEST_SIZE \<le> length img \<Longrightarrow> parse_identity img \<noteq> Inl Panic"
  by (auto simp: parse_identity_def bindr_Panic scan_identity_no_panic parse_continuity_no_panic)

section \<open>The image contract\<close>

definition vector_ok :: "bytes \<Rightarrow> bool" where
  "vector_ok img \<longleftrightarrow>
    (let sp = u32_at img 0; reset = u32_at img 4; entry = reset AND NOT 1 in
     sp AND 7 = 0 \<and> 0x20000000 \<le> sp \<and> sp \<le> 0x20040000 \<and> reset AND 1 \<noteq> 0 \<and>
     IMAGE_START \<le> entry \<and> entry < 0x000FE000)"

lemma validate_vector_Inr:
  "8 \<le> length img \<Longrightarrow> validate_vector img = Inr () \<longleftrightarrow> vector_ok img"
  by (simp add: validate_vector_def vector_ok_def rd_u32_ok u32_at_def Let_def mota_const)

lemma validate_vector_no_panic: "8 \<le> length img \<Longrightarrow> validate_vector img \<noteq> Inl Panic"
  by (simp add: validate_vector_def rd_u32_ok Let_def)

lemma bootloader_target_id_Inr:
  assumes "bootloader_hw_id b n = Inr hw"
  shows "bootloader_target_id c b n =
    Inr (if b \<in> {XIAO_BASE, XIAO_SENSE} \<and> n = ascii ''XIAO_DFU'' then b else u32_le (take 4 (sha256 c hw)))"
  using assms by (simp add: bootloader_target_id_def slice_def)

lemma bootloader_target_id_no_panic: "bootloader_target_id c b n \<noteq> Inl Panic"
  by (simp add: bootloader_target_id_def bindr_Panic bootloader_hw_id_never_panics)

text \<open>
  The result of the validation in terms of its scans: one accepted record and it is at the envelope offset,
  one accepted marker, and both agree with the identity tables and the outer fields. \<open>Mota_Contract\<close> states what
  the scans accept by the bytes of the image.
\<close>

definition image_contract ::
  "crypto \<Rightarrow> bytes \<Rightarrow> u32 \<Rightarrow> bytes \<Rightarrow> u32 \<Rightarrow> u32 \<Rightarrow> bytes \<Rightarrow> u8 \<Rightarrow> bool" where
  "image_contract c img tid hw v b n s \<longleftrightarrow>
    length img = IMAGE_SIZE \<and> vector_ok img \<and>
    identity_offsets img = [CANDIDATE_MANIFEST_OFFSET] \<and>
    identity_record img CANDIDATE_MANIFEST_OFFSET = Some (b, n) \<and>
    continuity_ok img CANDIDATE_MANIFEST_OFFSET \<and>
    v = u32_at img 0x9FEC \<and>
    bootloader_hw_id b n = Inr hw \<and> bootloader_target_id c b n = Inr tid \<and>
    capability_storage img = Inr (Some s) \<and> s \<in> set (qualified_storage b n) \<and>
    (\<forall>p. qualified_platform b n = Some p \<longrightarrow>
       p = (u16_at img 0x9FF0, u16_at img 0x9FF2, u32_at img 0x9FF4, u16_at img 0x9FF8))"

lemma validate_bootloader_image_Inr:
  "validate_bootloader_image c img tid hw v = Inr i \<longleftrightarrow>
    (\<exists>b n s. image_contract c img tid hw v b n s \<and>
       i = (identity_at img CANDIDATE_MANIFEST_OFFSET b n)\<lparr>storage_flags := s\<rparr>)"
proof (cases "length img = IMAGE_SIZE")
  case True
  then have l: "8 \<le> length img" "MANIFEST_SIZE \<le> length img" by (simp_all add: mota_const)
  show ?thesis
    unfolding validate_bootloader_image_def image_contract_def
    by (auto simp: True validate_vector_Inr l parse_identity_Inr identity_at_def mota_const
        split: option.splits)
next
  case False
  then show ?thesis by (simp add: validate_bootloader_image_def image_contract_def)
qed

lemma validate_bootloader_image_no_panic: "validate_bootloader_image c img tid hw v \<noteq> Inl Panic"
proof (cases "length img = IMAGE_SIZE")
  case True
  then have l: "8 \<le> length img" "MANIFEST_SIZE \<le> length img" "\<not> length img < 16" by (simp_all add: mota_const)
  show ?thesis
    by (simp add: validate_bootloader_image_def bindr_Panic validate_vector_no_panic l
        parse_identity_no_panic bootloader_target_id_no_panic bootloader_hw_id_never_panics
        capability_storage_def)
qed (simp add: validate_bootloader_image_def)

section \<open>The board inventory\<close>

definition hw_bytes :: "bootloader_board \<Rightarrow> bytes" where
  "hw_bytes b = (let t = hw_text (board_board_id b) (ascii (board_device_name b)) in t @ replicate (32 - length t) 0)"

definition target_of :: "crypto \<Rightarrow> bootloader_board \<Rightarrow> u32" where
  "target_of c b =
    (if b = XiaoNrf52840Ble \<or> b = XiaoNrf52840BleSense then board_board_id b
     else u32_le (take 4 (sha256 c (hw_bytes b))))"

lemma board_hw_id_ok: "bootloader_hw_id (board_board_id b) (ascii (board_device_name b)) = Inr (hw_bytes b)"
  using board_identity_ok [of b] by (simp add: bootloader_hw_id_Inr hw_bytes_def Let_def)

lemma board_hw_id_Inr [simp]: "board_hw_id b = Inr (hw_bytes b)"
  by (simp add: board_hw_id_def expect_ok_def board_hw_id_ok)

lemma board_xiao:
  "board_board_id b \<in> {XIAO_BASE, XIAO_SENSE} \<and> board_device_name b = ''XIAO_DFU'' \<longleftrightarrow>
    b = XiaoNrf52840Ble \<or> b = XiaoNrf52840BleSense"
  by (cases b) (simp_all add: mota_const)

lemma board_target_id_ok:
  "bootloader_target_id c (board_board_id b) (ascii (board_device_name b)) = Inr (target_of c b)"
  using board_xiao [of b] unfolding bootloader_target_id_Inr [OF board_hw_id_ok]
  by (simp add: target_of_def del: insert_iff)

lemma board_target_id_Inr [simp]: "board_target_id c b = Inr (target_of c b)"
  by (simp add: board_target_id_def expect_ok_def board_target_id_ok)

lemma hw_bytes_inject: "hw_bytes b = hw_bytes b' \<longleftrightarrow> b = b'"
proof
  assume e: "hw_bytes b = hw_bytes b'"
  have "board_board_id b = board_board_id b' \<and> ascii (board_device_name b) = ascii (board_device_name b')"
    by (rule bootloader_hw_id_inject [OF board_hw_id_ok]) (simp add: e board_hw_id_ok)
  then show "b = b'" using board_identity_inject [of b b'] by simp
qed simp

lemma board_hw_id_str_ok: "board_hw_id_str b = Inr (hw_text (board_board_id b) (ascii (board_device_name b)))"
proof -
  let ?t = "hw_text (board_board_id b) (ascii (board_device_name b))"
  have n: "name_ok (ascii (board_device_name b))" using board_identity_ok [of b] by simp
  then have "length (ascii (board_device_name b)) \<le> 15" by (simp only: name_ok_def)
  then have "length ?t \<le> 31" by (rule length_hw_text)
  then have "takeWhile (\<lambda>x. x \<noteq> 0) (hw_bytes b) = ?t"
    unfolding hw_bytes_def Let_def by (intro takeWhile_pad hw_text_no_nul n) simp
  moreover have "is_ascii ?t"
    by (cases b) (simp_all add: is_ascii_def hw_text_def ascii_def hex8_def hex_digit_def mota_const)
  ultimately show ?thesis by (simp add: board_hw_id_str_def Let_def utf8_ok_ascii)
qed

definition target_ok :: "crypto \<Rightarrow> bootloader_board \<Rightarrow> bool" where
  "target_ok c b \<longleftrightarrow> target_of c b \<noteq> 0 \<and> target_of c b \<noteq> 0xFFFFFFFF \<and> env_name (target_of c b) = None"

lemma inventory_others_Inr:
  "b \<notin> set ds \<Longrightarrow> inventory_others c b (hw_bytes b) tid ds = Inr () \<longleftrightarrow> (\<forall>d \<in> set ds. tid \<noteq> target_of c d)"
  by (induction ds) (auto simp: hw_bytes_inject dest: board_identity_inject)

lemma inventory_from_Inr:
  "distinct bs \<Longrightarrow> inventory_from c bs = Inr () \<longleftrightarrow>
    (\<forall>b \<in> set bs. target_ok c b) \<and> inj_on (target_of c) (set bs)"
  by (induction bs)
    (auto simp: inventory_others_Inr target_ok_def board_storage_qualified board_platform_qualified)

lemma inventory_no_panic: "inventory_from c bs \<noteq> Inl Panic"
proof -
  have o: "inventory_others c b hw tid ds \<noteq> Inl Panic" for b hw tid ds
    by (induction ds) (auto simp: bindr_Panic)
  show ?thesis by (induction bs) (auto simp: bindr_Panic o)
qed

lemma validate_bootloader_inventory_Inr:
  "validate_bootloader_inventory c = Inr () \<longleftrightarrow> (\<forall>b. target_ok c b) \<and> inj (target_of c)"
proof -
  have "set BOOTLOADER_BOARDS = UNIV" using boards_complete by auto
  then show ?thesis
    by (simp add: validate_bootloader_inventory_def inventory_from_Inr boards_distinct)
qed

lemma board_from_identity_board:
  "board_from_identity (board_board_id b) (ascii (board_device_name b)) = Some b"
  by (cases b) (simp_all add: board_from_identity_def BOOTLOADER_BOARDS_def mota_const)

section \<open>Validation against a selected board\<close>

lemma contract_parse:
  assumes "image_contract c img tid hw v b n s"
  shows "length img = IMAGE_SIZE" and "validate_vector img = Inr ()"
    and "parse_identity img = Inr (identity_at img CANDIDATE_MANIFEST_OFFSET b n)"
    and "v = boot_version (identity_at img CANDIDATE_MANIFEST_OFFSET b n)"
  using assms by (auto simp: image_contract_def validate_vector_Inr parse_identity_Inr identity_at_def mota_const)

lemma contract_platform:
  assumes "image_contract c img tid hw v (board_board_id board) (ascii (board_device_name board)) s"
    and "i = (identity_at img CANDIDATE_MANIFEST_OFFSET b n)\<lparr>storage_flags := s\<rparr>"
  shows "(b_softdevice_family i, b_softdevice_fwid i, b_app_base i, b_layout_abi i) =
      (softdevice_family (board_compatibility board), softdevice_fwid (board_compatibility board),
       compat_app_base (board_compatibility board), compat_layout_abi (board_compatibility board))"
  using assms by (simp add: image_contract_def identity_at_def board_platform_qualified mota_const)

lemma profile_Inr:
  "validate_bootloader_image_for_profile c img board p = Inr i \<longleftrightarrow>
    validate_bootloader_inventory c = Inr () \<and> board_accepts_storage_profile board p \<and> storage_flags i = p \<and>
    validate_bootloader_image c img (target_of c board) (hw_bytes board) (boot_version i) = Inr i \<and>
    b_board_id i = board_board_id board \<and> b_device_name i = ascii (board_device_name board)"
    (is "?l \<longleftrightarrow> ?r")
proof
  assume ?r
  then obtain b n s where k: "image_contract c img (target_of c board) (hw_bytes board) (boot_version i) b n s"
    and i: "i = (identity_at img CANDIDATE_MANIFEST_OFFSET b n)\<lparr>storage_flags := s\<rparr>"
    unfolding validate_bootloader_image_Inr by blast
  have bn: "b = board_board_id board" "n = ascii (board_device_name board)"
    using \<open>?r\<close> by (simp_all add: i identity_at_def)
  from \<open>?r\<close> show ?l
    unfolding validate_bootloader_image_for_profile_def Let_def contract_platform [OF k [unfolded bn] i, symmetric]
    by (simp add: contract_parse [OF k] bn) (simp add: i identity_at_def bn)
next
  assume ?l
  then obtain q where q: "parse_identity img = Inr q" and acc: "board_accepts_storage_profile board p"
    and inv: "validate_bootloader_inventory c = Inr ()" and sp: "storage_flags i = p"
    and id: "b_board_id q = board_board_id board" "b_device_name q = ascii (board_device_name board)"
    and v: "validate_bootloader_image c img (target_of c board) (hw_bytes board) (boot_version q) = Inr i"
    by (auto simp: validate_bootloader_image_for_profile_def Let_def)
  from v obtain b n s where k: "image_contract c img (target_of c board) (hw_bytes board) (boot_version q) b n s"
    and i: "i = (identity_at img CANDIDATE_MANIFEST_OFFSET b n)\<lparr>storage_flags := s\<rparr>"
    unfolding validate_bootloader_image_Inr by blast
  have "q = identity_at img CANDIDATE_MANIFEST_OFFSET b n"
    using contract_parse(3) [OF k] q by simp
  with i id v acc inv sp show ?r by simp
qed

lemma profile_unique:
  assumes "validate_bootloader_image_for_profile c img board p = Inr i"
    and "validate_bootloader_image_for_profile c img board' p' = Inr i'"
  shows "board = board' \<and> p = p' \<and> i = i'"
proof -
  from assms obtain b n s b' n' s'
    where k: "image_contract c img (target_of c board) (hw_bytes board) (boot_version i) b n s"
    and i: "i = (identity_at img CANDIDATE_MANIFEST_OFFSET b n)\<lparr>storage_flags := s\<rparr>"
    and k': "image_contract c img (target_of c board') (hw_bytes board') (boot_version i') b' n' s'"
    and i': "i' = (identity_at img CANDIDATE_MANIFEST_OFFSET b' n')\<lparr>storage_flags := s'\<rparr>"
    unfolding profile_Inr validate_bootloader_image_Inr by blast
  have e: "b = b'" "n = n'" "s = s'"
    using k k' by (simp_all add: image_contract_def)
  then have ii: "i = i'" by (simp add: i i')
  have "board = board'"
    using assms board_identity_inject [of board board'] by (simp add: profile_Inr ii)
  with ii assms show ?thesis by (simp add: profile_Inr)
qed

lemma profile_no_panic: "validate_bootloader_image_for_profile c img board p \<noteq> Inl Panic"
proof (cases "length img = IMAGE_SIZE")
  case True
  then have l: "8 \<le> length img" "MANIFEST_SIZE \<le> length img" by (simp_all add: mota_const)
  show ?thesis
    by (simp add: validate_bootloader_image_for_profile_def bindr_Panic validate_vector_no_panic l
        parse_identity_no_panic validate_bootloader_image_no_panic inventory_no_panic
        validate_bootloader_inventory_def Let_def)
qed (simp add: validate_bootloader_image_for_profile_def bindr_Panic inventory_no_panic validate_bootloader_inventory_def)

end
