(* ===== verification/Mota_Manifest.thy ===== *)
theory Mota_Manifest
  imports Mota_Bootloader
begin

text \<open>
  \<open>Manifest::parse\<close> of \<open>src/format.rs\<close>: framing, format version and flags, block geometry, the
  fixed-offset fields, and for format 3 the bootloader contract. \<open>manifest_bytes\<close> and \<open>container\<close>
  are the layout the parser reads, written as a serializer; the parser accepts exactly its image.
\<close>

section \<open>The parser\<close>

fun ilog2 :: "nat \<Rightarrow> nat" where
  "ilog2 n = (if n < 2 then 0 else Suc (ilog2 (n div 2)))"

declare ilog2.simps [simp del]

lemma ilog2_values [mota_const]: "ilog2 2048 = 11" "ilog2 1024 = 10"
  by (simp_all add: ilog2.simps)

definition parse_framing :: "bytes \<Rightarrow> bytes result" where
  "parse_framing blob =
    ensure (HEADER_LEN + MFL + TRAILER_LEN \<le> length blob) ''too small for a .mota'' (
    bindr (rng blob 0 4) (\<lambda>magic.
    ensure (magic = MAGIC) ''bad MAGIC (not a .mota)'' (
    bindr (rd_u32 blob 4) (\<lambda>total.
    ensure (unat total = length blob) ''MOTA_TOTAL_SIZE != file length'' (
    bindr (rng blob (length blob - TRAILER_LEN) (length blob)) (\<lambda>tr.
    ensure (tr = TRAILER) ''bad TRAILER'' (
    rng blob HEADER_LEN (length blob))))))))"

definition check_flags :: "u8 \<Rightarrow> u8 \<Rightarrow> unit result" where
  "check_flags format_ver flags =
    (if format_ver = APP_FORMAT_VER then
       ensure (flags AND MFLAG_BOOTLOADER = 0 \<and> flags AND NOT MFLAG_KNOWN = 0)
         ''v2 application manifest has invalid flags'' (Inr ())
     else if format_ver = BOOT_FORMAT_VER then
       ensure (flags = MFLAG_FULL OR MFLAG_SIGNED OR MFLAG_BOOTLOADER)
         ''v3 bootloader manifest requires exact FULL|SIGNED|BOOTLOADER flags'' (Inr ())
     else Inl (Bail ''unsupported format_ver''))"

definition check_block_size :: "u8 \<Rightarrow> u8 \<Rightarrow> unit result" where
  "check_block_size format_ver log2 =
    (if format_ver = APP_FORMAT_VER then
       ensure (1 \<le> log2) ''bad block_size/payload'' (
       ensure (log2 \<le> of_nat (ilog2 (unat MAX_APPLICATION_BLOCK_SIZE)))
         ''v2 application block size must be at most 2048 bytes'' (Inr ()))
     else if format_ver = BOOT_FORMAT_VER then
       ensure (log2 = of_nat (ilog2 (unat BOOTLOADER_BLOCK_SIZE)))
         ''v3 bootloader manifest requires 1 KiB blocks'' (Inr ())
     else Inl Panic)"

definition u32_div_ceil :: "u32 \<Rightarrow> u32 \<Rightarrow> u32" where
  "u32_div_ceil a b = of_nat (div_ceil (unat a) (unat b))"

definition read_manifest :: "bytes \<Rightarrow> u8 \<Rightarrow> u8 \<Rightarrow> u8 \<Rightarrow> u32 \<Rightarrow> u32 \<Rightarrow> manifest result" where
  "read_manifest mf fv flags log2 payload_size block_count =
    bindr (idx mf off_HASH_ALGO) (\<lambda>algo.
    bindr (rd_u32 mf off_TARGET_ID) (\<lambda>tid.
    bindr (rd_u32 mf off_FW_VERSION) (\<lambda>version.
    bindr (rd_u32 mf off_IMAGE_SIZE) (\<lambda>image_size.
    bindr (arr 4 mf off_MERKLE_ROOT) (\<lambda>root.
    bindr (arr 32 mf off_IMAGE_HASH) (\<lambda>image_hash.
    bindr (idx mf off_CODEC_ID) (\<lambda>codec_id.
    bindr (arr HW_ID_LEN mf off_HW_ID) (\<lambda>hw.
    bindr (arr 8 mf off_BASE_HASH) (\<lambda>base_hash.
    bindr (arr 32 mf off_SIGNER) (\<lambda>signer.
    bindr (arr 64 mf off_SIGNATURE) (\<lambda>signature.
    bindr (arr 4 mf off_APPROVAL) (\<lambda>approval.
    Inr \<lparr>m_format_ver = fv, m_flags = flags, m_hash_algo = algo, m_target_id = tid,
         m_fw_version = version, m_image_size = image_size, m_payload_size = payload_size,
         m_block_size_log2 = log2, m_block_count = block_count, m_merkle_root = root,
         m_image_hash = image_hash, m_codec_id = codec_id, m_hw_id = hw, m_base_hash = base_hash,
         m_signer = signer, m_signature = signature, m_approval = approval\<rparr>))))))))))))"

definition check_bootloader :: "crypto \<Rightarrow> bytes \<Rightarrow> manifest \<Rightarrow> unit result" where
  "check_bootloader c blob m =
    ensure (m_hash_algo m = HASH_ALGO_SHA256 \<and> version_valid (m_fw_version m) \<and>
            m_codec_id m = codec_u8 Full \<and> unat (m_image_size m) = IMAGE_SIZE \<and>
            unat (m_payload_size m) = IMAGE_SIZE \<and> block_size m = BOOTLOADER_BLOCK_SIZE \<and>
            m_block_count m = 40 \<and> m_base_hash m = replicate 8 0)
      ''v3 bootloader manifest geometry/identity is invalid'' (
    bindr (rng blob (payload_off m) (payload_off m + unat (m_payload_size m))) (\<lambda>payload.
    bindr (err_prefix ''v3 bootloader image contract: ''
             (validate_bootloader_image c payload (m_target_id m) (m_hw_id m) (m_fw_version m))) (\<lambda>_.
    Inr ())))"

definition manifest_parse :: "crypto \<Rightarrow> bytes \<Rightarrow> manifest result" where
  "manifest_parse c blob =
    bindr (parse_framing blob) (\<lambda>mf.
    bindr (idx mf off_FORMAT_VER) (\<lambda>format_ver.
    bindr (idx mf off_FLAGS) (\<lambda>flags.
    bindr (check_flags format_ver flags) (\<lambda>_.
    bindr (idx mf off_BLOCK_SIZE_LOG2) (\<lambda>log2.
    bindr (rd_u32 mf off_PAYLOAD_SIZE) (\<lambda>payload_size.
    ensure (payload_size \<noteq> 0) ''bad block_size/payload'' (
    bindr (check_block_size format_ver log2) (\<lambda>_.
    let block_count = u32_div_ceil payload_size (push_bit (unat log2) 1) in
    ensure (1 \<le> block_count \<and> block_count \<le> 0xFFFF) ''block_count out of range'' (
    bindr (read_manifest mf format_ver flags log2 payload_size block_count) (\<lambda>m.
    ensure (total_size m = length blob) ''geometry (leaves+payload) != file length'' (
    if is_bootloader m then bindr (check_bootloader c blob m) (\<lambda>_. Inr m)
    else Inr m)))))))))))"

section \<open>The layout as a serializer\<close>

definition manifest_bytes :: "manifest \<Rightarrow> bytes" where
  "manifest_bytes m =
    [m_format_ver m, m_flags m, m_hash_algo m] @ le_u32 (m_target_id m) @ le_u32 (m_fw_version m) @
    le_u32 (m_image_size m) @ le_u32 (m_payload_size m) @ [m_block_size_log2 m] @ m_merkle_root m @
    m_image_hash m @ [m_codec_id m] @ m_hw_id m @ m_base_hash m @ m_signer m @ m_signature m @ m_approval m"

definition container :: "manifest \<Rightarrow> bytes \<Rightarrow> bytes \<Rightarrow> bytes" where
  "container m leaves payload =
    MAGIC @ le_u32 (of_nat (total_size m)) @ manifest_bytes m @ leaves @ payload @ TRAILER"

definition field_lengths :: "manifest \<Rightarrow> bool" where
  "field_lengths m \<longleftrightarrow> length (m_merkle_root m) = 4 \<and> length (m_image_hash m) = 32 \<and>
    length (m_hw_id m) = 32 \<and> length (m_base_hash m) = 8 \<and> length (m_signer m) = 32 \<and>
    length (m_signature m) = 64 \<and> length (m_approval m) = 4"

lemma length_manifest_bytes: "field_lengths m \<Longrightarrow> length (manifest_bytes m) = MFL"
  by (simp add: manifest_bytes_def field_lengths_def mota_const)

lemma manifest_bytes_inject:
  assumes "field_lengths m" and "field_lengths m'" and "manifest_bytes m = manifest_bytes m'"
    and "m_block_count m = m_block_count m'"
  shows "m = m'"
  using assms
  by (simp add: manifest_bytes_def field_lengths_def u32f.enc_inject manifest.equality)

definition manifest_of :: "bytes \<Rightarrow> u32 \<Rightarrow> manifest" where
  "manifest_of mf block_count =
    \<lparr>m_format_ver = mf ! 0, m_flags = mf ! 1, m_hash_algo = mf ! 2, m_target_id = u32_le (slice 3 7 mf),
     m_fw_version = u32_le (slice 7 11 mf), m_image_size = u32_le (slice 11 15 mf),
     m_payload_size = u32_le (slice 15 19 mf), m_block_size_log2 = mf ! 19, m_block_count = block_count,
     m_merkle_root = slice 20 24 mf, m_image_hash = slice 24 56 mf, m_codec_id = mf ! 56,
     m_hw_id = slice 57 89 mf, m_base_hash = slice 89 97 mf, m_signer = slice 97 129 mf,
     m_signature = slice 129 193 mf, m_approval = slice 193 197 mf\<rparr>"

lemma field_lengths_manifest_of: "197 \<le> length mf \<Longrightarrow> field_lengths (manifest_of mf n)"
  by (simp add: field_lengths_def manifest_of_def)

lemma manifest_bytes_of:
  assumes "197 \<le> length mf"
  shows "manifest_bytes (manifest_of mf n) = take 197 mf"
proof -
  have w: "le_u32 (u32_le (slice a (a + 4) mf)) = slice a (a + 4) mf" if "a + 4 \<le> 197" for a
    using assms that by (intro u32f.enc_dec) simp
  have n: "[mf ! i] = slice i (i + 1) mf" "[mf ! i, mf ! Suc i, mf ! Suc (Suc i)] = slice i (i + 3) mf"
    if "i + 3 \<le> 197" for i
    using assms that nth_slice [of i mf] nth_slice [of "Suc i" mf] nth_slice [of "Suc (Suc i)" mf]
      slice_join [of i "Suc i" "Suc (Suc i)" mf] slice_join [of i "Suc (Suc i)" "Suc (Suc (Suc i))" mf]
    by (simp_all add: numeral_eq_Suc) (metis append_Cons append_Nil)
  have w': "le_u32 (u32_le (slice 3 7 mf)) = slice 3 7 mf" "le_u32 (u32_le (slice 7 11 mf)) = slice 7 11 mf"
    "le_u32 (u32_le (slice 11 15 mf)) = slice 11 15 mf" "le_u32 (u32_le (slice 15 19 mf)) = slice 15 19 mf"
    using w [of 3] w [of 7] w [of 11] w [of 15] by simp_all
  have n': "[mf ! 0, mf ! 1, mf ! 2] = slice 0 3 mf" "[mf ! 19] = slice 19 20 mf" "[mf ! 56] = slice 56 57 mf"
    using n(2) [of 0] n(1) [of 19] n(1) [of 56] by (simp_all add: numeral_2_eq_2)
  have "manifest_bytes (manifest_of mf n) = slice 0 197 mf"
    by (simp only: manifest_bytes_def manifest_of_def manifest.select_convs w' n')
      (simp add: slice_join slice_join_more)
  then show ?thesis by (simp add: slice_def)
qed


section \<open>What the parser accepts\<close>

definition manifest_wf :: "crypto \<Rightarrow> manifest \<Rightarrow> bytes \<Rightarrow> bool" where
  "manifest_wf c m payload \<longleftrightarrow>
    field_lengths m \<and>
    check_flags (m_format_ver m) (m_flags m) = Inr () \<and>
    check_block_size (m_format_ver m) (m_block_size_log2 m) = Inr () \<and>
    m_payload_size m \<noteq> 0 \<and>
    m_block_count m = u32_div_ceil (m_payload_size m) (block_size m) \<and>
    1 \<le> m_block_count m \<and> m_block_count m \<le> 0xFFFF \<and>
    total_size m < 2 ^ 32 \<and>
    (is_bootloader m \<longrightarrow>
      m_hash_algo m = HASH_ALGO_SHA256 \<and> version_valid (m_fw_version m) \<and> m_codec_id m = codec_u8 Full \<and>
      unat (m_image_size m) = IMAGE_SIZE \<and> unat (m_payload_size m) = IMAGE_SIZE \<and>
      block_size m = BOOTLOADER_BLOCK_SIZE \<and> m_block_count m = 40 \<and> m_base_hash m = replicate 8 0 \<and>
      is_ok (validate_bootloader_image c payload (m_target_id m) (m_hw_id m) (m_fw_version m)))"

lemma is_ok_iff: "is_ok r \<longleftrightarrow> (\<exists>x. r = Inr x)"
  by (cases r) simp_all

lemma parse_framing_Inr:
  "parse_framing blob = Inr mf \<longleftrightarrow> 210 \<le> length blob \<and> slice 0 4 blob = MAGIC \<and>
    unat (u32_le (slice 4 8 blob)) = length blob \<and>
    slice (length blob - 5) (length blob) blob = TRAILER \<and> mf = drop 8 blob"
proof -
  have d: "drop 8 blob = slice 8 (length blob) blob" by (simp add: slice_def)
  show ?thesis
    by (auto simp: parse_framing_def rng_def rd_u32_def d mota_const split: if_splits)
qed

lemma parse_framing_no_panic: "parse_framing blob \<noteq> Inl Panic"
  by (cases "210 \<le> length blob") (simp_all add: parse_framing_def mota_const bindr_Panic rng_def rd_u32_def)

lemma read_manifest_eq:
  assumes "197 \<le> length mf"
  shows "read_manifest mf (mf ! 0) (mf ! Suc 0) (mf ! 19) (u32_le (slice 15 19 mf)) n = Inr (manifest_of mf n)"
  using assms by (simp add: read_manifest_def manifest_of_def idx_ok rd_u32_ok arr_ok mota_const)

lemma check_bootloader_Inr:
  assumes "total_size m = length blob"
  shows "check_bootloader c blob m = Inr () \<longleftrightarrow>
      m_hash_algo m = HASH_ALGO_SHA256 \<and> version_valid (m_fw_version m) \<and> m_codec_id m = codec_u8 Full \<and>
      unat (m_image_size m) = IMAGE_SIZE \<and> unat (m_payload_size m) = IMAGE_SIZE \<and>
      block_size m = BOOTLOADER_BLOCK_SIZE \<and> m_block_count m = 40 \<and> m_base_hash m = replicate 8 0 \<and>
      is_ok (validate_bootloader_image c
        (slice (payload_off m) (payload_off m + unat (m_payload_size m)) blob)
        (m_target_id m) (m_hw_id m) (m_fw_version m))"
  using assms by (auto simp: check_bootloader_def rng_def total_size_def is_ok_iff)

lemma check_bootloader_no_panic:
  "total_size m = length blob \<Longrightarrow> check_bootloader c blob m \<noteq> Inl Panic"
  by (auto simp: check_bootloader_def rng_def total_size_def bindr_Panic validate_bootloader_image_no_panic)

lemma check_flags_no_panic: "check_flags v f \<noteq> Inl Panic"
  by (simp add: check_flags_def)

lemma check_block_size_no_panic: "check_flags v f = Inr () \<Longrightarrow> check_block_size v l \<noteq> Inl Panic"
  by (auto simp: check_flags_def check_block_size_def split: if_splits)

lemma idx_0: "197 \<le> length mf \<Longrightarrow> idx mf 0 = Inr (mf ! 0)"
  by (rule idx_ok) linarith

lemma manifest_parse_no_panic: "manifest_parse c blob \<noteq> Inl Panic"
proof (cases "parse_framing blob")
  case (Inl e)
  then show ?thesis using parse_framing_no_panic [of blob] by (simp add: manifest_parse_def)
next
  case (Inr mf)
  then have "197 \<le> length mf" by (auto simp: parse_framing_Inr)
  then show ?thesis
    by (simp add: manifest_parse_def Inr idx_0 bindr_Panic idx_ok rd_u32_ok mota_const check_flags_no_panic
        Let_def check_block_size_no_panic read_manifest_eq check_bootloader_no_panic [simplified])
qed

lemma manifest_parse_body:
  assumes "parse_framing blob = Inr mf"
  shows "manifest_parse c blob = Inr m \<longleftrightarrow>
    check_flags (mf ! 0) (mf ! 1) = Inr () \<and> u32_le (slice 15 19 mf) \<noteq> 0 \<and>
    check_block_size (mf ! 0) (mf ! 19) = Inr () \<and>
    m_block_count m = u32_div_ceil (u32_le (slice 15 19 mf)) (push_bit (unat (mf ! 19)) 1) \<and>
    1 \<le> m_block_count m \<and> m_block_count m \<le> 0xFFFF \<and> m = manifest_of mf (m_block_count m) \<and>
    total_size m = length blob \<and> (is_bootloader m \<longrightarrow> check_bootloader c blob m = Inr ())"
    (is "_ \<longleftrightarrow> ?r")
proof -
  let ?n = "u32_div_ceil (u32_le (slice 15 19 mf)) (push_bit (unat (mf ! 19)) 1)"
  from assms have l: "197 \<le> length mf" by (auto simp: parse_framing_Inr)
  have cnt: "m_block_count (manifest_of mf n) = n" for n by (simp add: manifest_of_def)
  have "manifest_parse c blob = Inr m \<longleftrightarrow>
      check_flags (mf ! 0) (mf ! 1) = Inr () \<and> u32_le (slice 15 19 mf) \<noteq> 0 \<and>
      check_block_size (mf ! 0) (mf ! 19) = Inr () \<and> 1 \<le> ?n \<and> ?n \<le> 0xFFFF \<and>
      total_size (manifest_of mf ?n) = length blob \<and>
      (is_bootloader (manifest_of mf ?n) \<longrightarrow> check_bootloader c blob (manifest_of mf ?n) = Inr ()) \<and>
      manifest_of mf ?n = m"
    using l by (auto simp: manifest_parse_def assms idx_0 idx_ok rd_u32_ok mota_const Let_def read_manifest_eq
        simp del: push_bit_of_1)
  also have "\<dots> \<longleftrightarrow> ?r"
    by (metis cnt)
  finally show ?thesis .
qed

lemma manifest_parse_Inr:
  "manifest_parse c blob = Inr m \<longleftrightarrow>
    210 \<le> length blob \<and> slice 0 4 blob = MAGIC \<and> unat (u32_le (slice 4 8 blob)) = length blob \<and>
    slice (length blob - 5) (length blob) blob = TRAILER \<and>
    m = manifest_of (drop 8 blob) (m_block_count m) \<and> total_size m = length blob \<and>
    manifest_wf c m (slice (payload_off m) (payload_off m + unat (m_payload_size m)) blob)"
    (is "_ \<longleftrightarrow> ?f \<and> ?r")
proof (cases "?f \<and> slice 0 4 blob = MAGIC \<and> unat (u32_le (slice 4 8 blob)) = length blob \<and>
    slice (length blob - 5) (length blob) blob = TRAILER")
  case False
  then have "\<not> is_ok (parse_framing blob)" by (auto simp: is_ok_iff parse_framing_Inr)
  then have "\<exists>e. parse_framing blob = Inl e" by (cases "parse_framing blob") simp_all
  then show ?thesis using False by (auto simp: manifest_parse_def)
next
  case True
  let ?mf = "drop 8 blob"
  have f: "parse_framing blob = Inr ?mf" using True by (simp add: parse_framing_Inr)
  have l: "197 \<le> length ?mf" using True by (simp add: le_diff_conv2)
  have t: "total_size m = length blob \<Longrightarrow> total_size m < 2 ^ 32"
    using True unat_u32_bound [of "u32_le (slice 4 8 blob)"] by simp
  have sel: "m_format_ver m = ?mf ! 0 \<and> m_flags m = ?mf ! 1 \<and> m_block_size_log2 m = ?mf ! 19 \<and>
      m_payload_size m = u32_le (slice 15 19 ?mf) \<and> field_lengths m"
    if "m = manifest_of ?mf (m_block_count m)"
    by (subst that, subst (2) that, subst (3) that, subst (4) that, subst (5) that)
      (use True in \<open>auto simp: manifest_of_def field_lengths_def min_def\<close>)
  show ?thesis
  proof (cases "total_size m = length blob \<and> m = manifest_of ?mf (m_block_count m)")
    case neither: False
    then show ?thesis unfolding manifest_parse_body [OF f] by blast
  next
    case both: True
    note sel = sel [OF conjunct2 [OF both]] and b = check_bootloader_Inr [OF conjunct1 [OF both], of c]
      and t = t [OF conjunct1 [OF both]]
    show ?thesis
      unfolding manifest_parse_body [OF f] manifest_wf_def block_size_def b
      using True both t sel by (simp only: sel simp_thms refl) blast
  qed
qed


section \<open>The parser accepts exactly the containers\<close>

lemma total_size_sum:
  "total_size m = 8 + 197 + 4 * unat (m_block_count m) + unat (m_payload_size m) + 5"
  by (simp add: total_size_def payload_off_def leaves_off_def mota_const)

lemma payload_off_sum: "payload_off m = 205 + 4 * unat (m_block_count m)"
  by (simp add: payload_off_def leaves_off_def mota_const)

lemma length_container:
  assumes "field_lengths m" and "length leaves = 4 * unat (m_block_count m)"
    and "length payload = unat (m_payload_size m)"
  shows "length (container m leaves payload) = total_size m"
  using assms length_manifest_bytes [of m] by (simp add: container_def total_size_sum mota_const)

lemma container_slices:
  assumes "field_lengths m" and "length leaves = 4 * unat (m_block_count m)"
    and "length payload = unat (m_payload_size m)"
  shows "slice 0 4 (container m leaves payload) = MAGIC"
    and "slice 4 8 (container m leaves payload) = le_u32 (of_nat (total_size m))"
    and "drop 8 (container m leaves payload) = manifest_bytes m @ leaves @ payload @ TRAILER"
    and "slice (leaves_off m) (payload_off m) (container m leaves payload) = leaves"
    and "slice (payload_off m) (payload_off m + unat (m_payload_size m)) (container m leaves payload) = payload"
    and "slice (total_size m - 5) (total_size m) (container m leaves payload) = TRAILER"
  using assms length_manifest_bytes [of m]
  by (simp_all add: container_def slice_def total_size_sum payload_off_sum leaves_off_def mota_const)

lemma manifest_of_bytes:
  assumes "field_lengths m"
  shows "manifest_of (manifest_bytes m @ rest) (m_block_count m) = m"
proof (rule manifest_bytes_inject)
  let ?mf = "manifest_bytes m @ rest"
  have l: "197 \<le> length ?mf" using length_manifest_bytes [OF assms] by (simp add: mota_const)
  show "field_lengths (manifest_of ?mf (m_block_count m))" by (rule field_lengths_manifest_of [OF l])
  show "field_lengths m" by (rule assms)
  show "manifest_bytes (manifest_of ?mf (m_block_count m)) = manifest_bytes m"
    unfolding manifest_bytes_of [OF l] using length_manifest_bytes [OF assms] by (simp add: mota_const)
  show "m_block_count (manifest_of ?mf (m_block_count m)) = m_block_count m"
    by (simp add: manifest_of_def)
qed

lemma parse_container:
  assumes "manifest_wf c m payload" and "length leaves = 4 * unat (m_block_count m)"
    and "length payload = unat (m_payload_size m)"
  shows "manifest_parse c (container m leaves payload) = Inr m"
proof -
  have f: "field_lengths m" and t: "total_size m < 2 ^ 32"
    using assms(1) by (auto simp: manifest_wf_def)
  note l = length_container [OF f assms(2,3)]
  note s = container_slices [OF f assms(2,3)]
  have u: "unat (of_nat (total_size m) :: u32) = total_size m"
    using t by (simp add: unat_of_nat)
  have "210 \<le> total_size m" by (simp add: total_size_sum)
  then show ?thesis
    using assms(1) by (simp add: manifest_parse_Inr l s u manifest_of_bytes [OF f])
qed

lemma parse_Inr_container:
  assumes "manifest_parse c blob = Inr m"
  defines "leaves \<equiv> slice (leaves_off m) (payload_off m) blob"
    and "payload \<equiv> slice (payload_off m) (payload_off m + unat (m_payload_size m)) blob"
  shows "blob = container m leaves payload" and "manifest_wf c m payload"
    and "length leaves = 4 * unat (m_block_count m)" and "length payload = unat (m_payload_size m)"
proof -
  from assms(1) have p: "210 \<le> length blob" "slice 0 4 blob = MAGIC"
    "unat (u32_le (slice 4 8 blob)) = length blob" "slice (length blob - 5) (length blob) blob = TRAILER"
    "m = manifest_of (drop 8 blob) (m_block_count m)" and t: "total_size m = length blob"
    and w: "manifest_wf c m payload"
    unfolding manifest_parse_Inr payload_def by blast+
  show "manifest_wf c m payload" by (rule w)
  have len: "length blob = 210 + 4 * unat (m_block_count m) + unat (m_payload_size m)"
    using t by (simp add: total_size_sum)
  show "length leaves = 4 * unat (m_block_count m)" "length payload = unat (m_payload_size m)"
    by (simp_all add: leaves_def payload_def len payload_off_sum leaves_off_def mota_const)
  have "take 197 (drop 8 blob) = manifest_bytes m"
    by (subst p(5)) (use p(1) in \<open>simp add: manifest_bytes_of\<close>)
  then have mb: "manifest_bytes m = slice 8 205 blob" by (simp add: slice_def)
  have "le_u32 (u32_le (slice 4 8 blob)) = slice 4 8 blob"
    using p(1) by (intro u32f.enc_dec) simp
  moreover have "u32_le (slice 4 8 blob) = of_nat (total_size m)"
  proof -
    have "of_nat (unat (u32_le (slice 4 8 blob))) = u32_le (slice 4 8 blob)" by simp
    then show ?thesis by (simp only: t p(3))
  qed
  ultimately have "le_u32 (of_nat (total_size m)) = slice 4 8 blob" by simp
  then have "container m leaves payload = slice 0 4 blob @ slice 4 8 blob @ slice 8 205 blob @
      slice 205 (payload_off m) blob @ slice (payload_off m) (length blob - 5) blob @
      slice (length blob - 5) (length blob) blob"
    using p(2,4) by (simp add: container_def mb leaves_def payload_def leaves_off_def len payload_off_sum mota_const add.assoc)
  also have "\<dots> = slice 0 (length blob) blob"
    by (simp add: slice_join slice_join_more len payload_off_sum)
  finally show "blob = container m leaves payload" by simp
qed

end
