(* ===== verification/Mota_Merkle.thy ===== *)
theory Mota_Merkle
  imports Mota_Crypto
begin

text \<open>
  \<open>src/merkle.rs\<close>: block leaves and the Merkle-Mountain-Range root. The abstract specification is
  the left-balanced hash tree \<open>mth\<close> (split at the largest power of two below the length, the shape
  of RFC 6962); \<open>root_eq_mth\<close> says that the peak-folding loop computes it, and \<open>mth_binding\<close> that
  two leaf lists of equal length with the same root are equal or exhibit a hash collision among
  the 8-byte strings the two computations hash.
\<close>

section \<open>The code\<close>

definition leaf :: "crypto \<Rightarrow> bytes \<Rightarrow> bytes" where
  "leaf c block = mh c 4 block"

definition combine :: "crypto \<Rightarrow> bytes \<Rightarrow> bytes \<Rightarrow> bytes" where
  "combine c left right = mh c 4 (left @ right)"

definition leaf_hashes :: "crypto \<Rightarrow> bytes \<Rightarrow> nat \<Rightarrow> bytes list" where
  "leaf_hashes c payload bs = map (leaf c) (chunks bs payload)"

text \<open>
  One iteration of the loop over the leaves, from level 0: while the level holds a peak, take it
  and carry the combination to the next level; then store at the first free level, pushing a new
  level at the end. \<open>peaks ! k\<close> is the pending root of a complete subtree with \<open>2 ^ k\<close> leaves.
\<close>

fun carry_peak :: "crypto \<Rightarrow> bytes \<Rightarrow> bytes option list \<Rightarrow> bytes option list" where
  "carry_peak c cur [] = [Some cur]"
| "carry_peak c cur (None # peaks) = Some cur # peaks"
| "carry_peak c cur (Some p # peaks) = None # carry_peak c (combine c p cur) peaks"

fun fold_peaks :: "crypto \<Rightarrow> bytes list \<Rightarrow> bytes option list \<Rightarrow> bytes option list" where
  "fold_peaks c [] peaks = peaks"
| "fold_peaks c (l # leaves) peaks = fold_peaks c leaves (carry_peak c l peaks)"

text \<open>\<open>peaks.into_iter().flatten()\<close>\<close>

definition flatten_peaks :: "bytes option list \<Rightarrow> bytes list" where
  "flatten_peaks peaks = List.map_filter id peaks"

fun bag :: "crypto \<Rightarrow> bytes \<Rightarrow> bytes list \<Rightarrow> bytes" where
  "bag c acc [] = acc"
| "bag c acc (higher # peaks) = bag c (combine c higher acc) peaks"

fun root :: "crypto \<Rightarrow> bytes list \<Rightarrow> bytes result" where
  "root c [] = Inr (replicate 4 0)"
| "root c [only] = Inr only"
| "root c leaves =
    (case flatten_peaks (fold_peaks c leaves []) of
       [] \<Rightarrow> Inl Panic
     | p # peaks \<Rightarrow> Inr (bag c p peaks))"

lemma length_leaf [mota_len]: "sha_ok c \<Longrightarrow> length (leaf c b) = 4"
  by (simp add: leaf_def length_mh)

lemma length_combine [mota_len]: "sha_ok c \<Longrightarrow> length (combine c l r) = 4"
  by (simp add: combine_def length_mh)

lemma leaf_hashes_length:
  "0 < bs \<Longrightarrow> length (leaf_hashes c payload bs) = div_ceil (length payload) bs"
  by (simp add: leaf_hashes_def length_chunks)

lemma leaf_hashes_elem: "sha_ok c \<Longrightarrow> l \<in> set (leaf_hashes c payload bs) \<Longrightarrow> length l = 4"
  by (auto simp: leaf_hashes_def length_leaf)

section \<open>Specification: the left-balanced hash tree\<close>

text \<open>\<open>split_point n\<close> is the largest power of two below \<open>n\<close>, for \<open>n > 1\<close>.\<close>

fun split_point :: "nat \<Rightarrow> nat" where
  "split_point n = (if n \<le> 2 then 1 else 2 * split_point ((n + 1) div 2))"

declare split_point.simps [simp del]

lemma split_point_pow2: "0 < m \<Longrightarrow> m \<le> 2 ^ k \<Longrightarrow> split_point (2 ^ k + m) = 2 ^ k"
proof (induction k arbitrary: m)
  case 0
  then show ?case by (simp add: split_point.simps)
next
  case (Suc k)
  have gt: "2 < 2 ^ Suc k + m"
  proof -
    have "(2 :: nat) \<le> 2 ^ Suc k" by simp
    with Suc.prems show ?thesis by linarith
  qed
  have half: "(2 ^ Suc k + m + 1) div 2 = 2 ^ k + (m + 1) div 2"
    by simp
  have "split_point (2 ^ k + (m + 1) div 2) = 2 ^ k"
    using Suc.prems by (intro Suc.IH) auto
  with gt half show ?case by (subst split_point.simps) simp
qed

lemma split_point_bounds: "2 \<le> n \<Longrightarrow> 0 < split_point n \<and> split_point n < n"
proof (induction n rule: split_point.induct)
  case (1 n)
  show ?case
  proof (cases "n \<le> 2")
    case True
    with 1 show ?thesis by (simp add: split_point.simps)
  next
    case False
    then have "2 \<le> (n + 1) div 2" by simp
    with False 1 have "0 < split_point ((n + 1) div 2) \<and> split_point ((n + 1) div 2) < (n + 1) div 2"
      by blast
    with False show ?thesis by (subst (1 2) split_point.simps) auto
  qed
qed

lemma split_point_bounds_not:
  "\<not> n < 2 \<Longrightarrow> 0 < split_point n \<and> split_point n < n"
  using split_point_bounds [of n] by simp

function mth :: "crypto \<Rightarrow> bytes list \<Rightarrow> bytes" where
  "mth c xs =
    (if length xs < 2 then (case xs of [] \<Rightarrow> replicate 4 0 | x # _ \<Rightarrow> x)
     else let k = split_point (length xs)
          in combine c (mth c (take k xs)) (mth c (drop k xs)))"
  by pat_completeness auto
termination
  by (relation "measure (\<lambda>(c, xs). length xs)") (auto dest: split_point_bounds_not)

declare mth.simps [simp del]

lemma mth_simps [simp]:
  "mth c [] = replicate 4 0"
  "mth c [x] = x"
  by (simp_all add: mth.simps)

lemma mth_split:
  "length xs = 2 ^ k \<Longrightarrow> 0 < length ys \<Longrightarrow> length ys \<le> 2 ^ k \<Longrightarrow>
    mth c (xs @ ys) = combine c (mth c xs) (mth c ys)"
proof -
  assume a: "length xs = 2 ^ k" "0 < length ys" "length ys \<le> 2 ^ k"
  have "0 < (2 :: nat) ^ k" by simp
  with a have "\<not> length (xs @ ys) < 2" unfolding length_append by linarith
  with a show ?thesis by (subst mth.simps) (simp add: split_point_pow2)
qed

lemma length_mth: "sha_ok c \<Longrightarrow> \<forall>x \<in> set xs. length x = 4 \<Longrightarrow> length (mth c xs) = 4"
  by (subst mth.simps) (auto simp: length_combine Let_def split: list.splits)

section \<open>Refinement: the peak loop computes the tree\<close>

text \<open>\<open>rep c k ps xs\<close>: the peaks \<open>ps\<close>, starting at level \<open>k\<close>, stand for the leaves \<open>xs\<close>.\<close>

fun rep :: "crypto \<Rightarrow> nat \<Rightarrow> bytes option list \<Rightarrow> bytes list \<Rightarrow> bool" where
  "rep c k [] xs \<longleftrightarrow> xs = []"
| "rep c k (None # ps) xs \<longleftrightarrow> rep c (Suc k) ps xs"
| "rep c k (Some p # ps) xs \<longleftrightarrow>
     (\<exists>ys zs. xs = ys @ zs \<and> length zs = 2 ^ k \<and> p = mth c zs \<and> rep c (Suc k) ps ys)"

lemma rep_carry:
  "rep c k ps xs \<Longrightarrow> length zs = 2 ^ k \<Longrightarrow> rep c k (carry_peak c (mth c zs) ps) (xs @ zs)"
proof (induction ps arbitrary: k xs zs)
  case Nil
  then show ?case by simp
next
  case (Cons p ps)
  show ?case
  proof (cases p)
    case None
    with Cons.prems show ?thesis by auto
  next
    case (Some q)
    with Cons.prems obtain ys ws where xs: "xs = ys @ ws" and ws: "length ws = 2 ^ k"
      and q: "q = mth c ws" and ys: "rep c (Suc k) ps ys" by auto
    have comb: "combine c q (mth c zs) = mth c (ws @ zs)"
      using ws Cons.prems(2) q by (simp add: mth_split [of _ k])
    have "rep c (Suc k) (carry_peak c (mth c (ws @ zs)) ps) (ys @ (ws @ zs))"
      using ys ws Cons.prems(2) by (intro Cons.IH) simp_all
    with Some xs comb show ?thesis by simp
  qed
qed

lemma rep_fold: "rep c 0 ps xs \<Longrightarrow> rep c 0 (fold_peaks c leaves ps) (xs @ leaves)"
proof (induction leaves arbitrary: ps xs)
  case Nil
  then show ?case by simp
next
  case (Cons l leaves)
  have "rep c 0 (carry_peak c l ps) (xs @ [l])"
    using rep_carry [OF Cons.prems, of "[l]"] by simp
  then have "rep c 0 (fold_peaks c leaves (carry_peak c l ps)) ((xs @ [l]) @ leaves)"
    by (rule Cons.IH)
  then show ?case by simp
qed

lemma flatten_peaks_simps [simp]:
  "flatten_peaks [] = []"
  "flatten_peaks (None # ps) = flatten_peaks ps"
  "flatten_peaks (Some p # ps) = p # flatten_peaks ps"
  by (simp_all add: flatten_peaks_def List.map_filter_simps)

lemma bag_rep:
  "rep c k ps xs \<Longrightarrow> 0 < length zs \<Longrightarrow> length zs \<le> 2 ^ k \<Longrightarrow>
    bag c (mth c zs) (flatten_peaks ps) = mth c (xs @ zs)"
proof (induction ps arbitrary: k xs zs)
  case Nil
  then show ?case by simp
next
  case (Cons p ps)
  show ?case
  proof (cases p)
    case None
    with Cons.prems have "rep c (Suc k) ps xs" and "length zs \<le> 2 ^ Suc k" by auto
    with None Cons.prems(2) Cons.IH show ?thesis by simp
  next
    case (Some q)
    with Cons.prems obtain ys ws where xs: "xs = ys @ ws" and ws: "length ws = 2 ^ k"
      and q: "q = mth c ws" and ys: "rep c (Suc k) ps ys" by auto
    have "combine c q (mth c zs) = mth c (ws @ zs)"
      using ws Cons.prems q by (simp add: mth_split [of _ k])
    moreover have "bag c (mth c (ws @ zs)) (flatten_peaks ps) = mth c (ys @ (ws @ zs))"
      using ys ws Cons.prems by (intro Cons.IH [of "Suc k"]) simp_all
    ultimately show ?thesis using Some xs by simp
  qed
qed

lemma bag_rep_first:
  "rep c k ps xs \<Longrightarrow> xs \<noteq> [] \<Longrightarrow>
    \<exists>p qs. flatten_peaks ps = p # qs \<and> bag c p qs = mth c xs"
proof (induction ps arbitrary: k)
  case Nil
  then show ?case by simp
next
  case (Cons p ps)
  show ?case
  proof (cases p)
    case None
    with Cons show ?thesis by auto
  next
    case (Some q)
    with Cons.prems obtain ys ws where xs: "xs = ys @ ws" and ws: "length ws = 2 ^ k"
      and q: "q = mth c ws" and ys: "rep c (Suc k) ps ys" by auto
    have "bag c (mth c ws) (flatten_peaks ps) = mth c (ys @ ws)"
      using ws by (intro bag_rep [OF ys]) simp_all
    with Some xs q show ?thesis by simp
  qed
qed

lemma root_mth: "root c leaves = Inr (mth c leaves)"
proof (cases "length leaves < 2")
  case True
  then show ?thesis by (cases leaves) auto
next
  case False
  then obtain l1 l2 ls where "leaves = l1 # l2 # ls"
    by (cases leaves; cases "tl leaves") auto
  note 3 = this
  have "rep c 0 (fold_peaks c leaves []) leaves"
    using rep_fold [of c "[]" "[]" leaves] by simp
  then obtain p qs where "flatten_peaks (fold_peaks c leaves []) = p # qs" and "bag c p qs = mth c leaves"
    using bag_rep_first 3 by blast
  with 3 show ?thesis by simp
qed

section \<open>Binding\<close>

text \<open>The strings hashed by the inner nodes of the tree over \<open>xs\<close>.\<close>

function mth_inputs :: "crypto \<Rightarrow> bytes list \<Rightarrow> bytes list" where
  "mth_inputs c xs =
    (if length xs < 2 then []
     else let k = split_point (length xs); l = take k xs; r = drop k xs
          in (mth c l @ mth c r) # mth_inputs c l @ mth_inputs c r)"
  by pat_completeness auto
termination
  by (relation "measure (\<lambda>(c, xs). length xs)") (auto dest: split_point_bounds_not)

declare mth_inputs.simps [simp del]

definition collision :: "(bytes \<Rightarrow> bytes) \<Rightarrow> bytes list \<Rightarrow> bytes list \<Rightarrow> bool" where
  "collision h as bs \<longleftrightarrow> (\<exists>a \<in> set as. \<exists>b \<in> set bs. a \<noteq> b \<and> h a = h b)"

lemma collision_mono:
  "collision h as bs \<Longrightarrow> set as \<subseteq> set as' \<Longrightarrow> set bs \<subseteq> set bs' \<Longrightarrow> collision h as' bs'"
  by (auto simp: collision_def)

lemma mth_binding:
  "sha_ok c \<Longrightarrow> length xs = length ys \<Longrightarrow> \<forall>x \<in> set xs. length x = 4 \<Longrightarrow> \<forall>y \<in> set ys. length y = 4 \<Longrightarrow>
    mth c xs = mth c ys \<Longrightarrow> xs = ys \<or> collision (mh c 4) (mth_inputs c xs) (mth_inputs c ys)"
proof (induction xs arbitrary: ys rule: measure_induct_rule [where f = length])
  case (less xs)
  show ?case
  proof (cases "length xs < 2")
    case True
    with less.prems show ?thesis
      by (cases xs; cases ys) (auto simp: mth.simps [of c xs] mth.simps [of c ys])
  next
    case False
    define k where "k = split_point (length xs)"
    have k: "0 < k" "k < length xs"
      using False split_point_bounds [of "length xs"] by (simp_all add: k_def)
    let ?a = "mth c (take k xs) @ mth c (drop k xs)"
    let ?b = "mth c (take k ys) @ mth c (drop k ys)"
    have inx: "mth_inputs c xs = ?a # mth_inputs c (take k xs) @ mth_inputs c (drop k xs)"
      using False by (subst mth_inputs.simps) (simp add: k_def Let_def)
    have iny: "mth_inputs c ys = ?b # mth_inputs c (take k ys) @ mth_inputs c (drop k ys)"
      using False less.prems(2) by (subst mth_inputs.simps) (simp add: k_def Let_def)
    have heq: "mh c 4 ?a = mh c 4 ?b"
      using False less.prems(2,5)
      by (simp add: mth.simps [of c xs] mth.simps [of c ys] k_def combine_def Let_def)
    show ?thesis
    proof (cases "?a = ?b")
      case False
      with heq inx iny show ?thesis by (auto simp: collision_def)
    next
      case True
      have tx: "\<forall>x \<in> set (take k xs). length x = 4" "\<forall>x \<in> set (drop k xs). length x = 4"
        "\<forall>y \<in> set (take k ys). length y = 4" "\<forall>y \<in> set (drop k ys). length y = 4"
        using less.prems(3,4) by (auto dest: in_set_takeD in_set_dropD)
      then have "length (mth c (take k xs)) = length (mth c (take k ys))"
        using less.prems(1) by (simp add: length_mth)
      with True have l: "mth c (take k xs) = mth c (take k ys)"
        and r: "mth c (drop k xs) = mth c (drop k ys)" by simp_all
      have "take k xs = take k ys \<or>
          collision (mh c 4) (mth_inputs c (take k xs)) (mth_inputs c (take k ys))"
        using k less.prems(1,2) tx l by (intro less.IH) simp_all
      moreover have "drop k xs = drop k ys \<or>
          collision (mh c 4) (mth_inputs c (drop k xs)) (mth_inputs c (drop k ys))"
        using k less.prems(1,2) tx r by (intro less.IH) simp_all
      ultimately consider "take k xs = take k ys" "drop k xs = drop k ys"
        | "collision (mh c 4) (mth_inputs c (take k xs)) (mth_inputs c (take k ys))"
        | "collision (mh c 4) (mth_inputs c (drop k xs)) (mth_inputs c (drop k ys))"
        by blast
      then show ?thesis
      proof cases
        case 1
        then show ?thesis by (metis append_take_drop_id)
      next
        case 2
        show ?thesis unfolding inx iny by (intro disjI2 collision_mono [OF 2]) auto
      next
        case 3
        show ?thesis unfolding inx iny by (intro disjI2 collision_mono [OF 3]) auto
      qed
    qed
  qed
qed

end
