(* ===== verification/Mota_Verify.thy ===== *)
theory Mota_Verify
  imports Mota_Manifest Mota_Merkle
begin

text \<open>
  \<open>src/verify.rs\<close>: the problems of a container, with the message texts of the source. The empty list
  characterises the intact containers, and two intact containers with one manifest have the same
  payload unless the two computations exhibit a hash collision.
\<close>

section \<open>The code\<close>

text \<open>\<open>chunks_exact(n)\<close> drops a short last chunk.\<close>

definition chunks_exact :: "nat \<Rightarrow> 'a list \<Rightarrow> 'a list list" where
  "chunks_exact n xs = filter (\<lambda>ch. length ch = n) (chunks n xs)"

definition verify_leaves :: "crypto \<Rightarrow> manifest \<Rightarrow> bytes \<Rightarrow> bytes \<Rightarrow> string list" where
  "verify_leaves c m stored payload =
    (if concat (leaf_hashes c payload (unat (block_size m))) \<noteq> stored
     then [''leaves[] do not match the payload (corruption)''] else [])"

definition verify_root :: "crypto \<Rightarrow> manifest \<Rightarrow> bytes \<Rightarrow> string list result" where
  "verify_root c m stored =
    bindr (root c (chunks_exact 4 stored)) (\<lambda>r.
    Inr (if r \<noteq> m_merkle_root m then [''merkle_root mismatch''] else []))"

definition verify_image :: "crypto \<Rightarrow> manifest \<Rightarrow> bytes \<Rightarrow> string list" where
  "verify_image c m payload =
    (if is_full m \<and> sha256 c payload \<noteq> m_image_hash m
     then [''image_hash mismatch (full image)''] else [])"

definition verify_signature :: "crypto \<Rightarrow> manifest \<Rightarrow> bytes \<Rightarrow> string list result" where
  "verify_signature c m blob =
    (if is_signed m then
       bindr (rng blob HEADER_LEN (HEADER_LEN + SIGNED_LEN)) (\<lambda>signed_part.
       Inr (if ed25519_verify c (m_signer m) signed_part (m_signature m) then []
            else [''Ed25519 signature INVALID'']))
     else Inr [])"

definition verify_approval :: "manifest \<Rightarrow> string list" where
  "verify_approval m =
    (if m_approval m \<noteq> APPROVAL_NONE
     then [''approval is not FF FF FF FF (distributed container must be unapproved)''] else [])"

definition verify :: "crypto \<Rightarrow> bytes \<Rightarrow> string list result" where
  "verify c blob =
    (case manifest_parse c blob of
       Inl Panic \<Rightarrow> Inl Panic
     | Inl (Bail e) \<Rightarrow> Inr [e]
     | Inr m \<Rightarrow>
         bindr (rng blob (leaves_off m) (payload_off m)) (\<lambda>stored.
         bindr (rng blob (payload_off m) (payload_off m + unat (m_payload_size m))) (\<lambda>payload.
         bindr (verify_root c m stored) (\<lambda>p2.
         bindr (verify_signature c m blob) (\<lambda>p4.
         Inr (verify_leaves c m stored payload @ p2 @ verify_image c m payload @ p4 @ verify_approval m))))))"

section \<open>The intact containers\<close>

text \<open>What an empty problem list promises of the manifest, the payload and the signed bytes.\<close>

definition intact :: "crypto \<Rightarrow> manifest \<Rightarrow> bytes \<Rightarrow> bool" where
  "intact c m payload \<longleftrightarrow>
    manifest_wf c m payload \<and> length payload = unat (m_payload_size m) \<and>
    m_merkle_root m = mth c (leaf_hashes c payload (unat (block_size m))) \<and>
    (is_full m \<longrightarrow> m_image_hash m = sha256 c payload) \<and>
    (is_signed m \<longrightarrow> ed25519_verify c (m_signer m) (take SIGNED_LEN (manifest_bytes m)) (m_signature m)) \<and>
    m_approval m = APPROVAL_NONE"

definition intact_container :: "crypto \<Rightarrow> manifest \<Rightarrow> bytes \<Rightarrow> bytes" where
  "intact_container c m payload =
    container m (concat (leaf_hashes c payload (unat (block_size m)))) payload"

lemma chunks_exact_concat:
  "0 < n \<Longrightarrow> \<forall>x \<in> set xss. length x = n \<Longrightarrow> chunks_exact n (concat xss) = xss"
  by (simp add: chunks_exact_def chunks_concat)

lemma block_size_log2_bound:
  "check_flags v f = Inr () \<Longrightarrow> check_block_size v l = Inr () \<Longrightarrow> unat l \<le> 11 \<and> 1 \<le> unat l"
  by (auto simp: check_flags_def check_block_size_def mota_const word_le_nat_alt split: if_splits)

lemma unat_block_size: "manifest_wf c m p \<Longrightarrow> unat (block_size m) = 2 ^ unat (m_block_size_log2 m)"
proof -
  assume "manifest_wf c m p"
  then have e: "unat (m_block_size_log2 m) \<le> 11"
    using block_size_log2_bound by (auto simp: manifest_wf_def)
  then have l: "(2 :: nat) ^ unat (m_block_size_log2 m) < 2 ^ 32"
    by (intro power_strict_increasing) simp_all
  have "unat (block_size m) = take_bit 32 (2 ^ unat (m_block_size_log2 m))"
    by (simp add: block_size_def unsigned_push_bit_eq push_bit_of_1 del: push_bit_of_1)
  with l e show ?thesis by (simp add: take_bit_nat_eq_self)
qed

lemma wf_block_count:
  assumes "manifest_wf c m p"
  shows "unat (m_block_count m) = div_ceil (unat (m_payload_size m)) (unat (block_size m))"
proof -
  let ?a = "unat (m_payload_size m)" and ?b = "unat (block_size m)"
  have "div_ceil ?a ?b \<le> ?a" by (rule div_ceil_le)
  also have "?a < 2 ^ 32" using unat_u32_bound [of "m_payload_size m"] by simp
  finally show ?thesis
    using assms by (simp add: manifest_wf_def u32_div_ceil_def unat_of_nat)
qed

lemma verify_no_panic: "verify c blob \<noteq> Inl Panic"
proof (cases "manifest_parse c blob")
  case (Inl e)
  then show ?thesis using manifest_parse_no_panic [of c blob]
    by (cases e) (simp_all add: verify_def)
next
  case (Inr m)
  then have t: "total_size m = length blob" by (simp add: manifest_parse_Inr)
  then show ?thesis
    by (simp add: verify_def Inr bindr_Panic rng_def verify_root_def verify_signature_def root_mth
        payload_off_sum total_size_sum leaves_off_def mota_const)
qed

lemma verify_total: "\<exists>problems. verify c blob = Inr problems"
proof (cases "verify c blob")
  case (Inl x)
  then have False using verify_no_panic [of c blob]
    by (auto simp: verify_def bindr_def verify_root_def verify_signature_def rng_def root_mth split: sum.splits err.splits if_splits)
  then show ?thesis ..
qed simp

lemma leaves_of_wf:
  assumes "manifest_wf c m p" and "length p = unat (m_payload_size m)" and "sha_ok c"
  shows "length (concat (leaf_hashes c p (unat (block_size m)))) = 4 * unat (m_block_count m)"
proof -
  have "0 < unat (block_size m)" using unat_block_size [OF assms(1)] by simp
  then have "length (leaf_hashes c p (unat (block_size m))) = unat (m_block_count m)"
    by (simp add: leaf_hashes_length assms(2) wf_block_count [OF assms(1)])
  moreover have "length (concat ls) = 4 * length ls" if "\<forall>l \<in> set ls. length l = 4" for ls :: "bytes list"
    using that by (induction ls) auto
  ultimately show ?thesis using leaf_hashes_elem [OF assms(3)] by metis
qed

lemma signed_slice:
  assumes "field_lengths m"
  shows "slice 8 137 (container m l p) = take SIGNED_LEN (manifest_bytes m)"
  using length_manifest_bytes [OF assms] by (simp add: container_def slice_def mota_const)

lemma verify_nil:
  assumes "sha_ok c"
  shows "verify c blob = Inr [] \<longleftrightarrow> (\<exists>m payload. intact c m payload \<and> blob = intact_container c m payload)"
proof
  assume v: "verify c blob = Inr []"
  then obtain m where m: "manifest_parse c blob = Inr m"
    by (auto simp: verify_def split: sum.splits err.splits)
  define leaves where "leaves = slice (leaves_off m) (payload_off m) blob"
  define payload where "payload = slice (payload_off m) (payload_off m + unat (m_payload_size m)) blob"
  note c = parse_Inr_container [OF m, folded leaves_def payload_def]
  have t: "total_size m = length blob" using m by (simp add: manifest_parse_Inr)
  have f: "field_lengths m" using c(2) by (simp add: manifest_wf_def)
  have p: "verify_leaves c m leaves payload = [] \<and> verify_root c m leaves = Inr [] \<and>
      verify_image c m payload = [] \<and> verify_signature c m blob = Inr [] \<and> verify_approval m = []"
    using v t
    by (auto simp: verify_def m rng_def leaves_def [symmetric] payload_def [symmetric] split: if_splits)
  then have l: "leaves = concat (leaf_hashes c payload (unat (block_size m)))"
    by (simp add: verify_leaves_def split: if_splits)
  have b: "blob = intact_container c m payload" using c(1) l by (simp add: intact_container_def)
  have "chunks_exact 4 leaves = leaf_hashes c payload (unat (block_size m))"
    unfolding l by (rule chunks_exact_concat) (auto dest: leaf_hashes_elem [OF assms])
  then have "intact c m payload"
    using p c(2,4) t signed_slice [OF f] unfolding c(1) [symmetric]
    by (auto simp: intact_def verify_root_def root_mth verify_image_def verify_approval_def
        verify_signature_def c(1) [symmetric] rng_def mota_const signed_slice [OF f, of leaves payload, folded c(1)] split: if_splits)
  with b show "\<exists>m payload. intact c m payload \<and> blob = intact_container c m payload" by blast
next
  assume "\<exists>m payload. intact c m payload \<and> blob = intact_container c m payload"
  then obtain m payload where i: "intact c m payload" and b: "blob = intact_container c m payload" by blast
  from i have w: "manifest_wf c m payload" and lp: "length payload = unat (m_payload_size m)"
    by (simp_all add: intact_def)
  have f: "field_lengths m" using w by (simp add: manifest_wf_def)
  define leaves where "leaves = concat (leaf_hashes c payload (unat (block_size m)))"
  have ll: "length leaves = 4 * unat (m_block_count m)"
    unfolding leaves_def by (rule leaves_of_wf [OF w lp assms])
  have b': "blob = container m leaves payload" by (simp add: b intact_container_def leaves_def)
  note s = container_slices [OF f ll lp, folded b']
  have t: "length blob = total_size m" unfolding b' by (rule length_container [OF f ll lp])
  have "chunks_exact 4 leaves = leaf_hashes c payload (unat (block_size m))"
    unfolding leaves_def by (rule chunks_exact_concat) (auto dest: leaf_hashes_elem [OF assms])
  moreover have "rng blob (leaves_off m) (payload_off m) = Inr leaves"
    "rng blob (payload_off m) (payload_off m + unat (m_payload_size m)) = Inr payload"
    "rng blob HEADER_LEN (HEADER_LEN + SIGNED_LEN) = Inr (take SIGNED_LEN (manifest_bytes m))"
    using s(4,5) t signed_slice [OF f, of leaves payload, folded b']
    by (auto simp: rng_def payload_off_sum leaves_off_def total_size_sum mota_const)
  ultimately show "verify c blob = Inr []"
    using i parse_container [OF w ll lp, folded b']
    by (simp add: verify_def verify_root_def root_mth verify_leaves_def leaves_def intact_def
        verify_image_def verify_signature_def verify_approval_def)
qed


section \<open>Binding\<close>

text \<open>Every string hashed while the root of a payload is computed.\<close>

definition hashed_inputs :: "crypto \<Rightarrow> manifest \<Rightarrow> bytes \<Rightarrow> bytes list" where
  "hashed_inputs c m payload =
    chunks (unat (block_size m)) payload @ mth_inputs c (leaf_hashes c payload (unat (block_size m)))"

lemma map_collision:
  assumes "map h xs = map h ys" and "xs \<noteq> ys"
  shows "collision h xs ys"
proof -
  have len: "length xs = length ys" using assms(1) by (rule map_eq_imp_length_eq)
  then obtain i where i: "i < length xs" "xs ! i \<noteq> ys ! i"
    using assms(2) nth_equalityI by blast
  have "h (xs ! i) = h (ys ! i)"
    using assms(1) i(1) len by (metis nth_map)
  then show ?thesis
    using i nth_mem [OF i(1)] nth_mem [of i ys] len unfolding collision_def by metis
qed

lemma intact_binding:
  assumes "sha_ok c" and "intact c m p" and "intact c m q"
  shows "p = q \<or> collision (mh c 4) (hashed_inputs c m p) (hashed_inputs c m q)"
proof -
  let ?b = "unat (block_size m)"
  have w: "manifest_wf c m p" and lp: "length p = length q" using assms by (simp_all add: intact_def)
  have b: "0 < ?b" using unat_block_size [OF w] by simp
  have "leaf_hashes c p ?b = leaf_hashes c q ?b \<or>
      collision (mh c 4) (mth_inputs c (leaf_hashes c p ?b)) (mth_inputs c (leaf_hashes c q ?b))"
  proof (rule mth_binding [OF assms(1)])
    show "length (leaf_hashes c p ?b) = length (leaf_hashes c q ?b)"
      by (simp add: leaf_hashes_length b lp)
    show "mth c (leaf_hashes c p ?b) = mth c (leaf_hashes c q ?b)"
      using assms by (simp add: intact_def)
  qed (auto dest: leaf_hashes_elem [OF assms(1)])
  then show ?thesis
  proof
    assume "leaf_hashes c p ?b = leaf_hashes c q ?b"
    then have m: "map (mh c 4) (chunks ?b p) = map (mh c 4) (chunks ?b q)"
      by (simp add: leaf_hashes_def leaf_def [abs_def])
    show ?thesis
    proof (cases "chunks ?b p = chunks ?b q")
      case True
      then show ?thesis using concat_chunks [OF b] by metis
    next
      case False
      then show ?thesis
        using collision_mono [OF map_collision [OF m]] by (auto simp: hashed_inputs_def)
    qed
  qed (auto simp: hashed_inputs_def intro: collision_mono)
qed

lemma verified_same_manifest:
  assumes "sha_ok c"
    and "verify c x = Inr []" and "manifest_parse c x = Inr m"
    and "verify c y = Inr []" and "manifest_parse c y = Inr m"
  shows "x = y \<or> (\<exists>p q. collision (mh c 4) (hashed_inputs c m p) (hashed_inputs c m q))"
proof -
  have i: "\<exists>p. intact c m p \<and> z = intact_container c m p"
    if z: "verify c z = Inr []" "manifest_parse c z = Inr m" for z
  proof -
    from z(1) obtain m' p where p: "intact c m' p" "z = intact_container c m' p"
      unfolding verify_nil [OF assms(1)] by blast
    then have "manifest_parse c z = Inr m'"
      using parse_container [of c m' p] leaves_of_wf [of c m' p] assms(1)
      by (simp add: intact_def intact_container_def)
    with z(2) p show ?thesis by auto
  qed
  from i [OF assms(2,3)] i [OF assms(4,5)] obtain p q where
    "intact c m p" "x = intact_container c m p" "intact c m q" "y = intact_container c m q" by blast
  then show ?thesis using intact_binding [OF assms(1), of m p q] by blast
qed

section \<open>Geometry of parsed manifests\<close>

lemma parse_geometry:
  assumes "manifest_parse c blob = Inr m"
  shows "length blob = 8 + 197 + 4 * unat (m_block_count m) + unat (m_payload_size m) + 5"
    and "unat (block_size m) \<in> {2..2048}" and "unat (m_block_count m) \<in> {1..0xFFFF}"
    and "(unat (m_block_count m) - 1) * unat (block_size m) < unat (m_payload_size m)"
    and "unat (m_payload_size m) \<le> unat (m_block_count m) * unat (block_size m)"
proof -
  note pc = parse_Inr_container [OF assms]
  have w: "manifest_wf c m (slice (payload_off m) (payload_off m + unat (m_payload_size m)) blob)" by (rule pc(2))
  show "length blob = 8 + 197 + 4 * unat (m_block_count m) + unat (m_payload_size m) + 5"
    using assms by (simp add: manifest_parse_Inr total_size_sum)
  have lg: "1 \<le> unat (m_block_size_log2 m)" "unat (m_block_size_log2 m) \<le> 11"
    using w block_size_log2_bound by (auto simp: manifest_wf_def)
  have "(2 :: nat) ^ 1 \<le> 2 ^ unat (m_block_size_log2 m)" "(2 :: nat) ^ unat (m_block_size_log2 m) \<le> 2 ^ 11"
    by (rule power_increasing [OF lg(1)], simp, rule power_increasing [OF lg(2)], simp)
  then show bs: "unat (block_size m) \<in> {2..2048}" by (simp add: unat_block_size [OF w])
  show "unat (m_block_count m) \<in> {1..0xFFFF}" using w by (auto simp: manifest_wf_def word_le_nat_alt)
  have pos: "0 < unat (block_size m)" using bs by simp
  note b = div_ceil_bounds [OF pos, of "unat (m_payload_size m)", folded wf_block_count [OF w]]
  show "unat (m_payload_size m) \<le> unat (m_block_count m) * unat (block_size m)" by (rule b(1))
  show "(unat (m_block_count m) - 1) * unat (block_size m) < unat (m_payload_size m)"
    using b(2) pos \<open>unat (m_block_count m) \<in> {1..0xFFFF}\<close> by (cases "unat (m_block_count m)") auto
qed

end
