(* ===== verification/Mota_Seeder.thy ===== *)
theory Mota_Seeder
  imports Mota_Transport Mota_Verify Mota_Versions "HOL-Library.List_Lexorder"
begin

text \<open>
  \<open>src/serve.rs\<close>, the part that does not depend on a transport: the folder of verified containers
  (\<open>ServedMota\<close>, \<open>Folder::scan\<close>), and \<open>SeederCore\<close> with its request handler and the capture store; with
  the protocol constants of \<open>src/format.rs\<close> (\<open>mod seeder\<close>).

  The directory walk gives a list of entries with their contents. The capture store is a finite part
  of a file system, a map from paths to contents. Opening a missing file or reading past its end fails; a
  write, a read or a renaming may fail besides, as the host decides from the disk (\<open>write_fault\<close>,
  \<open>read_fault\<close>, \<open>rename_fault\<close>), and a write that fails may leave anything in its file. The encoders are functions, so the cache of a block is the function's value.
\<close>

section \<open>Protocol constants\<close>

definition REQ_MAGIC :: bytes where "REQ_MAGIC = ascii ''MS''"
definition RSP_MAGIC :: bytes where "RSP_MAGIC = ascii ''ms''"
definition OP_COUNT :: u8 where [mota_const]: "OP_COUNT = 0x01"
definition OP_DESCRIBE :: u8 where [mota_const]: "OP_DESCRIBE = 0x02"
definition OP_READ :: u8 where [mota_const]: "OP_READ = 0x03"
definition OP_STAT :: u8 where [mota_const]: "OP_STAT = 0x04"
definition OP_BEGIN :: u8 where [mota_const]: "OP_BEGIN = 0x05"
definition OP_WRITE :: u8 where [mota_const]: "OP_WRITE = 0x06"
definition OP_SREAD :: u8 where [mota_const]: "OP_SREAD = 0x07"
definition OP_FIN :: u8 where [mota_const]: "OP_FIN = 0x08"
definition OP_DEFLATE_BLOCK :: u8 where [mota_const]: "OP_DEFLATE_BLOCK = 0x09"
definition STATUS_OK :: u8 where [mota_const]: "STATUS_OK = 0x00"
definition STATUS_ERR :: u8 where [mota_const]: "STATUS_ERR = 0x01"
definition DESC_WIRE :: nat where [mota_const]: "DESC_WIRE = 38"
definition SOURCE_CAP_DEFLATE_BLOCK :: u8 where [mota_const]: "SOURCE_CAP_DEFLATE_BLOCK = 0x01"
definition WRITE_MAX :: nat where [mota_const]: "WRITE_MAX = 512"
definition DEFLATE_READ_MAX :: nat where [mota_const]: "DEFLATE_READ_MAX = 190"

definition request_header_len :: "u8 \<Rightarrow> nat option" where
  "request_header_len op =
    (if op = OP_COUNT then Some 0
     else if op = OP_DESCRIBE then Some 1
     else if op = OP_READ \<or> op = OP_DEFLATE_BLOCK then Some 7
     else if op = OP_STAT \<or> op = OP_FIN then Some 4
     else if op = OP_BEGIN then Some 8
     else if op = OP_SREAD \<or> op = OP_WRITE then Some 10
     else None)"

section \<open>The served folder\<close>

text \<open>\<open>s_cache\<close> is the number of cells of \<open>deflate_cache\<close>.\<close>

record served_mota =
  s_path :: path
  s_bytes :: bytes
  s_manifest :: manifest
  s_cache :: nat

definition raw_block :: "served_mota \<Rightarrow> u32 \<Rightarrow> bytes option" where
  "raw_block s block =
    (let m = s_manifest s in
     if m_block_count m \<le> block then None
     else let bs = unat (block_size m) in
       if bs = 0 \<or> MAX_TRANSPORT_BLOCK_SIZE < bs then None
       else let payload_start = payload_off m in
         case checked_add64 payload_start (unat block * bs) of None \<Rightarrow> None
         | Some start \<Rightarrow>
           case checked_add64 payload_start (unat (m_payload_size m)) of None \<Rightarrow> None
           | Some payload_end \<Rightarrow>
             let end = min (min (start + bs) (2 ^ 64 - 1)) payload_end in
             if start < end \<and> end \<le> length (s_bytes s) then Some (slice start end (s_bytes s)) else None)"

definition cached_deflate_block :: "host \<Rightarrow> served_mota \<Rightarrow> u32 \<Rightarrow> bytes option" where
  "cached_deflate_block h s block =
    (case raw_block s block of None \<Rightarrow> None
     | Some raw \<Rightarrow>
         if unat block < s_cache s then
           (case deflate_raw h raw of None \<Rightarrow> None
            | Some encoded \<Rightarrow>
                if encoded \<noteq> [] \<and> length encoded < length raw \<and> length encoded \<le> 0xFFFF
                then Some encoded else None)
         else None)"

text \<open>\<open>Path::extension\<close>: what follows the last dot of the file name, unless that dot is its first byte.\<close>

definition path_extension :: "path \<Rightarrow> bytes option" where
  "path_extension p =
    (case rev p of [] \<Rightarrow> None
     | name # _ \<Rightarrow>
         if 46 \<notin> set name \<or> name = [46, 46] then None
         else let ext = rev (takeWhile (\<lambda>b. b \<noteq> 46) (rev name));
                  stem = take (length name - length ext - 1) name
              in if stem = [] then None else Some ext)"

record dir_entry =
  e_path :: path
  e_is_file :: bool
  e_content :: "bytes option"

fun join_problems :: "string list \<Rightarrow> string" where
  "join_problems [] = ''''"
| "join_problems [p] = p"
| "join_problems (p # ps) = p @ ''; '' @ join_problems ps"

fun scan_entries ::
  "crypto \<Rightarrow> dir_entry list \<Rightarrow> served_mota list \<times> (path \<times> string) list \<Rightarrow>
    (served_mota list \<times> (path \<times> string) list) result"
where
  "scan_entries c [] acc = Inr acc"
| "scan_entries c (e # es) (motas, warns) =
    (if \<not> e_is_file e \<or> path_extension (e_path e) \<noteq> Some (ascii ''mota'') then scan_entries c es (motas, warns)
     else case e_content e of
       None \<Rightarrow> scan_entries c es (motas, warns @ [(e_path e, ''cannot read'')])
     | Some blob \<Rightarrow>
         bindr (verify c blob) (\<lambda>problems.
         if problems \<noteq> [] then scan_entries c es (motas, warns @ [(e_path e, join_problems problems)])
         else case manifest_parse c blob of
           Inl _ \<Rightarrow> Inl Panic
         | Inr m \<Rightarrow> scan_entries c es
             (motas @ [\<lparr>s_path = e_path e, s_bytes = blob, s_manifest = m, s_cache = unat (m_block_count m)\<rparr>], warns)))"

definition folder_scan ::
  "crypto \<Rightarrow> dir_entry list \<Rightarrow> (served_mota list \<times> (path \<times> string) list) result"
where
  "folder_scan c entries =
    bindr (scan_entries c entries ([], [])) (\<lambda>(motas, warns). Inr (sort_key s_path motas, warns))"

definition folder_at :: "served_mota list \<Rightarrow> nat \<Rightarrow> served_mota option" where
  "folder_at motas i = (if i < length motas then Some (motas ! i) else None)"

text \<open>\<open>prepare_deflate_cache\<close>: the calls of its \<open>progress\<close> argument.\<close>

definition prepare_deflate_cache :: "served_mota list \<Rightarrow> (nat \<times> nat) list" where
  "prepare_deflate_cache motas =
    (let all = sum_list (map (\<lambda>s. unat (m_block_count (s_manifest s))) motas)
     in map (\<lambda>done. (done, all)) (filter (\<lambda>done. done mod 64 = 0 \<or> done = all) [1..<Suc all]))"

section \<open>The request handler\<close>

record seeder_core =
  c_folder :: "served_mota list"
  c_store_dir :: "path option"
  c_seed :: "(bytes \<times> u32) option"

type_synonym reply = "u8 \<times> bytes"

definition seeder_new :: "served_mota list \<Rightarrow> path option \<Rightarrow> seeder_core" where
  "seeder_new motas store_dir = \<lparr>c_folder = motas, c_store_dir = store_dir, c_seed = None\<rparr>"

definition set_seed :: "bytes \<Rightarrow> u32 \<Rightarrow> seeder_core \<Rightarrow> seeder_core" where
  "set_seed payload block_count core = core\<lparr>c_seed := Some (payload, block_count)\<rparr>"

definition describe :: "served_mota \<Rightarrow> bytes" where
  "describe s =
    (let m = s_manifest s;
         w0 = put 0 (m_merkle_root m) (replicate DESC_WIRE 0);
         w1 = put 4 (le_u32 (m_target_id m)) w0;
         w2 = put 8 (le_u32 (m_fw_version m)) w1;
         w3 = w2[12 := m_codec_id m];
         w4 = w3[13 := m_flags m];
         w5 = put 14 (le_u32 (of_nat (length (s_bytes s)))) w4;
         w6 = put 18 (le_u32 (of_nat (leaves_off m))) w5;
         w7 = put 22 (le_u32 (m_block_count m)) w6;
         w8 = put 26 (le_u32 (of_nat (payload_off m))) w7;
         w9 = put 30 (le_u32 (m_payload_size m)) w8;
         w10 = w9[34 := m_block_size_log2 m]
     in w10[35 := SOURCE_CAP_DEFLATE_BLOCK])"

definition deflate_block :: "host \<Rightarrow> seeder_core \<Rightarrow> bytes \<Rightarrow> reply" where
  "deflate_block h core args =
    (if length args \<noteq> 7 then (STATUS_ERR, [])
     else let index = unat (args ! 0);
              block = ucast (u16_le [args ! 1, args ! 2]);
              off = unat (u16_le [args ! 3, args ! 4]);
              len = unat (u16_le [args ! 5, args ! 6])
          in if DEFLATE_READ_MAX < len \<or> (len = 0 \<and> off \<noteq> 0) then (STATUS_ERR, [])
             else case folder_at (c_folder core) index of None \<Rightarrow> (STATUS_ERR, [])
               | Some served \<Rightarrow>
                   case cached_deflate_block h served block of None \<Rightarrow> (STATUS_ERR, [])
                   | Some encoded \<Rightarrow>
                       if length encoded < off \<or> length encoded < off + len then (STATUS_ERR, [])
                       else (STATUS_OK, le_u16 (of_nat (length encoded)) @ slice off (off + len) encoded))"

subsection \<open>The capture store\<close>

definition store_path :: "host \<Rightarrow> path \<Rightarrow> bytes \<Rightarrow> bool \<Rightarrow> path" where
  "store_path h dir mid part = dir @ [hex_lower h mid @ ascii (if part then ''.mota.part'' else ''.mota'')]"

text \<open>\<open>File::write_all\<close> at an offset: a gap behind the old end reads as zeros; writing nothing changes nothing.\<close>

definition file_write :: "nat \<Rightarrow> bytes \<Rightarrow> bytes \<Rightarrow> bytes" where
  "file_write off data f =
    (if data = [] then f else put off data (f @ replicate (off - length f) 0))"

text \<open>The contents a write leaves, and whether it succeeded: the value of an \<open>io::Result<()>\<close>.\<close>

definition write_file :: "host \<Rightarrow> disk \<Rightarrow> path \<Rightarrow> bytes \<Rightarrow> bool \<times> disk" where
  "write_file h d p f =
    (case write_fault h d p f of
       None \<Rightarrow> (True, d(p \<mapsto> f))
     | Some Refused \<Rightarrow> (False, d)
     | Some (Partial g) \<Rightarrow> (False, d(p \<mapsto> g)))"

definition write_at :: "host \<Rightarrow> disk \<Rightarrow> path \<Rightarrow> nat \<Rightarrow> bytes \<Rightarrow> bool \<times> disk" where
  "write_at h d p off data =
    (case d p of None \<Rightarrow> (False, d) | Some f \<Rightarrow> write_file h d p (file_write off data f))"

definition read_at :: "host \<Rightarrow> disk \<Rightarrow> path \<Rightarrow> nat \<Rightarrow> nat \<Rightarrow> bytes option" where
  "read_at h d p off len =
    (case d p of None \<Rightarrow> None
     | Some f \<Rightarrow> if read_fault h d p then None else if len = 0 then Some [] else if off + len \<le> length f then Some (slice off (off + len) f) else None)"

definition begin_part :: "host \<Rightarrow> seeder_core \<Rightarrow> disk \<Rightarrow> path \<Rightarrow> u32 \<Rightarrow> bool \<times> disk" where
  "begin_part h core d part total_len =
    (let buf = replicate (unat total_len) 0xFF in
     case c_seed core of
       None \<Rightarrow> write_file h d part buf
     | Some (payload, block_count) \<Rightarrow>
         let off = HEADER_LEN + MFL + unat block_count * 4 in
         if off < length buf then
           let n = min (length payload) (length buf - off) in write_file h d part (put off (take n payload) buf)
         else write_file h d part buf)"

definition publish :: "host \<Rightarrow> disk \<Rightarrow> path \<Rightarrow> path \<Rightarrow> bool \<times> disk" where
  "publish h d part done =
    (case d part of None \<Rightarrow> (False, d)
     | Some f \<Rightarrow>
         if read_fault h d part \<or> length f < 8 then (False, d)
         else if take 4 f \<noteq> MAGIC \<or> unat (u32_le (slice 4 8 f)) \<noteq> length f then (False, d)
         else if rename_fault h d part done then (False, d)
         else (True, d(part := None, done \<mapsto> f)))"

text \<open>The closure \<open>ok\<close>: an I/O result as a status.\<close>

definition io_reply :: "bool \<times> disk \<Rightarrow> reply \<times> disk" where
  "io_reply r = (case r of (ok, d) \<Rightarrow> (((if ok then STATUS_OK else STATUS_ERR), []), d))"

definition handle_storage :: "host \<Rightarrow> seeder_core \<Rightarrow> disk \<Rightarrow> u8 \<Rightarrow> bytes \<Rightarrow> (reply \<times> disk) result" where
  "handle_storage h core d op args =
    (case c_store_dir core of None \<Rightarrow> Inr ((STATUS_ERR, []), d)
     | Some store \<Rightarrow>
         bindr (rng args 0 4) (\<lambda>mid.
         let part = store_path h store mid True; done = store_path h store mid False in
         if op = OP_STAT then
           let (present, total_len) =
             (case d done of Some f \<Rightarrow> (1, of_nat (length f))
              | None \<Rightarrow> case d part of Some f \<Rightarrow> (1, of_nat (length f)) | None \<Rightarrow> (0, 0))
           in Inr ((STATUS_OK, [present] @ le_u32 total_len), d)
         else if op = OP_BEGIN then
           bindr (rd_u32 args 4) (\<lambda>total_len. Inr (io_reply (begin_part h core d part total_len)))
         else if op = OP_WRITE then
           bindr (rd_u32 args 4) (\<lambda>off.
           bindr (idx args 8) (\<lambda>lo. bindr (idx args 9) (\<lambda>hi.
           let len = unat (u16_le [lo, hi]) in
           if 10 + len \<le> length args then Inr (io_reply (write_at h d part (unat off) (slice 10 (10 + len) args)))
           else Inr ((STATUS_ERR, []), d))))
         else if op = OP_SREAD then
           bindr (rd_u32 args 4) (\<lambda>off.
           bindr (idx args 8) (\<lambda>lo. bindr (idx args 9) (\<lambda>hi.
           let len = unat (u16_le [lo, hi]); src = (if d part \<noteq> None then part else done) in
           case read_at h d src (unat off) len of
             Some buf \<Rightarrow> Inr ((STATUS_OK, buf), d)
           | None \<Rightarrow> Inr ((STATUS_ERR, []), d))))
         else if op = OP_FIN then Inr (io_reply (publish h d part done))
         else Inr ((STATUS_ERR, []), d)))"

definition handle :: "host \<Rightarrow> seeder_core \<Rightarrow> disk \<Rightarrow> u8 \<Rightarrow> bytes \<Rightarrow> (reply option \<times> disk) result" where
  "handle h core d op args =
    (if op = OP_COUNT then Inr (Some (STATUS_OK, [of_nat (min (length (c_folder core)) 255)]), d)
     else if op = OP_DESCRIBE then
       (case args of [] \<Rightarrow> Inr (None, d)
        | i # _ \<Rightarrow>
            (case folder_at (c_folder core) (unat i) of
               Some s \<Rightarrow> Inr (Some (STATUS_OK, describe s), d)
             | None \<Rightarrow> Inr (Some (STATUS_ERR, []), d)))
     else if op = OP_READ then
       bindr (rd_u32 args 1) (\<lambda>off32.
       bindr (idx args 5) (\<lambda>lo. bindr (idx args 6) (\<lambda>hi. bindr (idx args 0) (\<lambda>i.
       let off = unat off32; len = unat (u16_le [lo, hi]) in
       case folder_at (c_folder core) (unat i) of
         Some s \<Rightarrow>
           if off + len \<le> length (s_bytes s) then Inr (Some (STATUS_OK, slice off (off + len) (s_bytes s)), d)
           else Inr (Some (STATUS_ERR, []), d)
       | None \<Rightarrow> Inr (Some (STATUS_ERR, []), d)))))
     else if op = OP_DEFLATE_BLOCK then Inr (Some (deflate_block h core args), d)
     else if op \<in> {OP_STAT, OP_BEGIN, OP_WRITE, OP_SREAD, OP_FIN} then
       bindr (handle_storage h core d op args) (\<lambda>(r, d'). Inr (Some r, d'))
     else Inr (None, d))"

section \<open>The scan\<close>

definition served_ok :: "crypto \<Rightarrow> served_mota \<Rightarrow> bool" where
  "served_ok c s \<longleftrightarrow> verify c (s_bytes s) = Inr [] \<and> manifest_parse c (s_bytes s) = Inr (s_manifest s) \<and>
    s_cache s = unat (m_block_count (s_manifest s))"

definition mota_entry :: "crypto \<Rightarrow> dir_entry \<Rightarrow> bool" where
  "mota_entry c e \<longleftrightarrow> e_is_file e \<and> path_extension (e_path e) = Some (ascii ''mota'') \<and>
    (\<exists>blob. e_content e = Some blob \<and> verify c blob = Inr [])"

definition served_of :: "crypto \<Rightarrow> dir_entry \<Rightarrow> served_mota" where
  "served_of c e = (let blob = the (e_content e); m = (case manifest_parse c blob of Inr m \<Rightarrow> m)
    in \<lparr>s_path = e_path e, s_bytes = blob, s_manifest = m, s_cache = unat (m_block_count m)\<rparr>)"

lemma verify_nil_parses:
  assumes "verify c blob = Inr []"
  obtains m where "manifest_parse c blob = Inr m"
  using assms by (cases "manifest_parse c blob") (auto simp: verify_def split: err.splits)

lemma served_of_ok: "mota_entry c e \<Longrightarrow> served_ok c (served_of c e) \<and> s_path (served_of c e) = e_path e"
  by (auto simp: mota_entry_def served_ok_def served_of_def Let_def elim: verify_nil_parses)

lemma scan_entries_Inr:
  "\<exists>w. scan_entries c es (motas, warns) = Inr (motas @ map (served_of c) (filter (mota_entry c) es), w)"
proof (induction es arbitrary: motas warns)
  case (Cons e es)
  show ?case
  proof (cases "e_is_file e \<and> path_extension (e_path e) = Some (ascii ''mota'')")
    case True
    show ?thesis
    proof (cases "e_content e")
      case None
      then show ?thesis using Cons.IH True by (simp add: mota_entry_def)
    next
      case (Some blob)
      obtain problems where p: "verify c blob = Inr problems" using verify_total by blast
      show ?thesis
      proof (cases "problems = []")
        case nil: True
        with p have v: "verify c blob = Inr []" by simp
        then obtain m where m: "manifest_parse c blob = Inr m" by (rule verify_nil_parses)
        then show ?thesis using Cons.IH [of "motas @ [served_of c e]" warns] True Some v
          by (simp add: mota_entry_def served_of_def)
      next
        case False
        then show ?thesis using Cons.IH True Some p by (simp add: mota_entry_def)
      qed
    qed
  next
    case False
    then show ?thesis using Cons.IH by (auto simp: mota_entry_def)
  qed
qed simp

lemma folder_scan_Inr:
  "\<exists>warns. folder_scan c es = Inr (sort_key s_path (map (served_of c) (filter (mota_entry c) es)), warns)"
  using scan_entries_Inr [of c es "[]" "[]"] by (auto simp: folder_scan_def)

lemma folder_scan_ok:
  assumes "folder_scan c es = Inr (motas, warns)"
  shows "\<forall>s \<in> set motas. served_ok c s" and "sorted (map s_path motas)"
    and "mset motas = mset (map (served_of c) (filter (mota_entry c) es))"
proof -
  from assms folder_scan_Inr [of c es] have m: "motas = sort_key s_path (map (served_of c) (filter (mota_entry c) es))" by auto
  show "\<forall>s \<in> set motas. served_ok c s" using served_of_ok by (auto simp: m)
  show "sorted (map s_path motas)" by (simp add: m)
  show "mset motas = mset (map (served_of c) (filter (mota_entry c) es))" by (simp add: m)
qed

section \<open>Requests\<close>

text \<open>The argument lengths that \<open>read_request\<close> produces.\<close>

definition request_ok :: "u8 \<Rightarrow> bytes \<Rightarrow> bool" where
  "request_ok op args \<longleftrightarrow>
    (\<exists>n. request_header_len op = Some n \<and> n \<le> length args \<and>
      length args = n + (if op = OP_WRITE then unat (u16_le [args ! 8, args ! 9]) else 0) \<and> length args - n \<le> WRITE_MAX)"

lemmas request_lens = request_header_len_def OP_COUNT_def OP_DESCRIBE_def OP_READ_def OP_STAT_def OP_BEGIN_def
  OP_WRITE_def OP_SREAD_def OP_FIN_def OP_DEFLATE_BLOCK_def

lemma request_lengths:
  assumes "request_ok op args"
  shows "op = OP_DESCRIBE \<Longrightarrow> length args = 1" and "op = OP_READ \<Longrightarrow> length args = 7"
    and "op = OP_STAT \<Longrightarrow> length args = 4" and "op = OP_FIN \<Longrightarrow> length args = 4" and "op = OP_BEGIN \<Longrightarrow> length args = 8"
    and "op = OP_SREAD \<Longrightarrow> length args = 10" and "op = OP_DEFLATE_BLOCK \<Longrightarrow> length args = 7"
    and "op = OP_WRITE \<Longrightarrow> length args = 10 + unat (u16_le [args ! 8, args ! 9])"
  using assms by (auto simp: request_ok_def request_lens split: if_splits)

lemma storage_replies:
  assumes "request_ok op args" and "op \<in> {OP_STAT, OP_BEGIN, OP_WRITE, OP_SREAD, OP_FIN}"
  shows "\<exists>status payload d'. handle_storage h core d op args = Inr ((status, payload), d') \<and> status \<in> {STATUS_OK, STATUS_ERR}"
proof (cases "c_store_dir core")
  case (Some store)
  have io: "\<exists>status payload d'. Inr (io_reply r) = (Inr ((status, payload), d') :: (reply \<times> disk) result) \<and>
      status \<in> {STATUS_OK, STATUS_ERR}" for r
    by (cases r) (auto simp: io_reply_def)
  note l = request_lengths [OF assms(1)]
  from assms(2) consider "op = OP_STAT" | "op = OP_BEGIN" | "op = OP_WRITE" | "op = OP_SREAD" | "op = OP_FIN" by auto
  then show ?thesis
  proof cases
    case 1
    with l show ?thesis by (simp add: handle_storage_def Some rng_ok split: option.splits)
  next
    case 2
    with l io show ?thesis by (simp add: handle_storage_def Some rng_ok rd_u32_ok request_lens)
  next
    case 3
    with l io show ?thesis by (simp add: handle_storage_def Some rng_ok rd_u32_ok idx_ok request_lens Let_def)
  next
    case 4
    with l show ?thesis by (simp add: handle_storage_def Some rng_ok rd_u32_ok idx_ok request_lens Let_def split: option.splits)
  next
    case 5
    with l io show ?thesis by (simp add: handle_storage_def Some rng_ok request_lens)
  qed
qed (simp add: handle_storage_def)

lemma handle_replies:
  assumes "request_ok op args"
  shows "\<exists>status payload d'. handle h core d op args = Inr (Some (status, payload), d') \<and> status \<in> {STATUS_OK, STATUS_ERR}"
proof -
  note l = request_lengths [OF assms]
  have "request_header_len op \<noteq> None" using assms by (auto simp: request_ok_def)
  then consider "op = OP_COUNT" | "op = OP_DESCRIBE" | "op = OP_READ" | "op = OP_DEFLATE_BLOCK"
    | "op \<in> {OP_STAT, OP_BEGIN, OP_WRITE, OP_SREAD, OP_FIN}"
    by (auto simp: request_header_len_def split: if_splits)
  then show ?thesis
  proof cases
    case 1
    then show ?thesis by (simp add: handle_def)
  next
    case 2
    with l obtain i where "args = [i]" by (auto simp: length_Suc_conv)
    with 2 show ?thesis by (auto simp: handle_def request_lens split: option.splits)
  next
    case 3
    with l show ?thesis by (simp add: handle_def rd_u32_ok idx_ok request_lens Let_def split: option.splits)
  next
    case 4
    have "fst (deflate_block h core args) \<in> {STATUS_OK, STATUS_ERR}"
      by (auto simp: deflate_block_def Let_def split: option.splits)
    with 4 show ?thesis by (cases "deflate_block h core args") (simp add: handle_def request_lens)
  next
    case 5
    from storage_replies [OF assms 5, of h core d] obtain status payload d' where
      s: "handle_storage h core d op args = Inr ((status, payload), d')" "status \<in> {STATUS_OK, STATUS_ERR}" by blast
    have "handle h core d op args = bindr (handle_storage h core d op args) (\<lambda>(r, d'). Inr (Some r, d'))"
      using 5 by (auto simp: handle_def request_lens)
    with s show ?thesis by simp
  qed
qed

lemma handle_unknown: "request_header_len op = None \<Longrightarrow> handle h core d op args = Inr (None, d)"
  by (auto simp: handle_def request_lens split: if_splits)

section \<open>What a node receives\<close>

definition served_payload :: "served_mota \<Rightarrow> bytes" where
  "served_payload s = (let m = s_manifest s in slice (payload_off m) (payload_off m + unat (m_payload_size m)) (s_bytes s))"

definition served_blocks :: "served_mota \<Rightarrow> bytes list" where
  "served_blocks s = chunks (unat (block_size (s_manifest s))) (served_payload s)"

lemma served_geometry:
  assumes "served_ok c s"
  defines "m \<equiv> s_manifest s"
  shows "length (s_bytes s) < 2 ^ 32" and "length (s_bytes s) = payload_off m + unat (m_payload_size m) + 5"
    and "unat (block_size m) \<in> {2..2048}" and "length (served_payload s) = unat (m_payload_size m)"
    and "length (served_blocks s) = unat (m_block_count m)" and "length (m_merkle_root m) = 4"
    and "m_merkle_root m = take 4 (m_merkle_root m)"
proof -
  from assms have p: "manifest_parse c (s_bytes s) = Inr m" by (simp add: served_ok_def)
  note g = parse_geometry [OF p] and pc = parse_Inr_container [OF p]
  show len: "length (s_bytes s) = payload_off m + unat (m_payload_size m) + 5"
    using g(1) by (simp add: payload_off_sum)
  show "length (s_bytes s) < 2 ^ 32"
  proof -
    have "total_size m < 2 ^ 32" using pc(2) by (simp only: manifest_wf_def)
    with g(1) show ?thesis by (simp add: total_size_sum)
  qed
  show bs: "unat (block_size m) \<in> {2..2048}" by (rule g(2))
  show lp: "length (served_payload s) = unat (m_payload_size m)"
    using len by (simp add: served_payload_def Let_def m_def [symmetric])
  show "length (served_blocks s) = unat (m_block_count m)"
    using bs lp wf_block_count [OF pc(2)] by (simp add: served_blocks_def length_chunks m_def [symmetric])
  show "length (m_merkle_root m) = 4" using pc(2) by (simp add: manifest_wf_def field_lengths_def)
  then show "m_merkle_root m = take 4 (m_merkle_root m)" by simp
qed

lemma concat_served_blocks: "served_ok c s \<Longrightarrow> concat (served_blocks s) = served_payload s"
  using served_geometry(3) [of c s] by (simp add: served_blocks_def concat_chunks)

lemma raw_block_eq:
  assumes "served_ok c s"
  shows "raw_block s b =
    (if b < m_block_count (s_manifest s) then Some (served_blocks s ! unat b) else None)"
proof (cases "b < m_block_count (s_manifest s)")
  case True
  let ?m = "s_manifest s"
  let ?bs = "unat (block_size ?m)" and ?ps = "unat (m_payload_size ?m)"
  note g = served_geometry [OF assms]
  have pos: "0 < ?bs" "?bs \<noteq> 0" "\<not> MAX_TRANSPORT_BLOCK_SIZE < ?bs"
    using g(3) by (auto simp: mota_const)
  have k: "unat b < length (served_blocks s)" using True g(5) by (simp add: word_less_nat_alt)
  then have in_range: "unat b * ?bs < ?ps"
    using chunk_inside [OF pos(1), of "unat b" "served_payload s"] g(4) by (simp add: served_blocks_def)
  have blk: "served_blocks s ! unat b =
      slice (payload_off ?m + unat b * ?bs) (min (payload_off ?m + unat b * ?bs + ?bs) (payload_off ?m + ?ps)) (s_bytes s)"
  proof -
    have "served_blocks s ! unat b = slice (unat b * ?bs) (min (unat b * ?bs + ?bs) ?ps) (served_payload s)"
      using nth_chunks [OF pos(1)] k g(4) slice_min [of "unat b * ?bs" _ "served_payload s"]
      by (simp add: served_blocks_def)
    also have "\<dots> = slice (payload_off ?m + unat b * ?bs) (payload_off ?m + min (unat b * ?bs + ?bs) ?ps) (s_bytes s)"
      by (simp add: served_payload_def Let_def slice_slice)
    finally show ?thesis by (simp add: min_add_distrib_right add.assoc)
  qed
  have bd: "payload_off ?m + unat b * ?bs < 2 ^ 64" "payload_off ?m + ?ps < 2 ^ 64"
    "payload_off ?m + unat b * ?bs + ?bs \<le> 2 ^ 64 - 1"
    using g(1,2,3) in_range by auto
  have "payload_off ?m + ?ps \<le> length (s_bytes s)" using g(2) by simp
  then show ?thesis
    unfolding raw_block_def Let_def checked_add64_def blk
    using True iffD2 [OF not_le True] pos in_range bd by (simp add: min.coboundedI2)
next
  case False
  then show ?thesis by (simp add: raw_block_def Let_def not_less)
qed


text \<open>The 38 bytes of a description, field by field.\<close>

lemma describe_eq:
  assumes "length (m_merkle_root (s_manifest s)) = 4"
  shows "describe s =
    (let m = s_manifest s in
     m_merkle_root m @ le_u32 (m_target_id m) @ le_u32 (m_fw_version m) @ [m_codec_id m, m_flags m] @
     le_u32 (of_nat (length (s_bytes s))) @ le_u32 (of_nat (leaves_off m)) @ le_u32 (m_block_count m) @
     le_u32 (of_nat (payload_off m)) @ le_u32 (m_payload_size m) @
     [m_block_size_log2 m, SOURCE_CAP_DEFLATE_BLOCK, 0, 0])"
proof -
  define m where "m = s_manifest s"
  have r: "length (m_merkle_root m) = 4" using assms by (simp add: m_def)
  have z: "replicate 38 (0 :: u8) = [] @ replicate 38 0" by simp
  have e: "replicate 2 (0 :: u8) = [0, 0]" by (simp add: numeral_2_eq_2)
  have "describe s =
    (((((((((((([] @ m_merkle_root m) @ le_u32 (m_target_id m)) @ le_u32 (m_fw_version m)) @ [m_codec_id m]) @ [m_flags m]) @
     le_u32 (of_nat (length (s_bytes s)))) @ le_u32 (of_nat (leaves_off m))) @ le_u32 (m_block_count m)) @
     le_u32 (of_nat (payload_off m))) @ le_u32 (m_payload_size m)) @ [m_block_size_log2 m]) @
     [SOURCE_CAP_DEFLATE_BLOCK]) @ replicate 2 0"
    unfolding describe_def Let_def DESC_WIRE_def m_def [symmetric]
    by (subst z, insert r)
      (simp add: put_pad update_pad del: append_Cons append_Nil append_assoc)
  then show ?thesis by (simp add: m_def e Let_def)
qed

lemma handle_read:
  "handle h core d OP_READ ([i] @ le_u32 off @ le_u16 len) =
    (case folder_at (c_folder core) (unat i) of
       Some s \<Rightarrow> Inr (Some (if unat off + unat len \<le> length (s_bytes s)
                       then (STATUS_OK, slice (unat off) (unat off + unat len) (s_bytes s)) else (STATUS_ERR, [])), d)
     | None \<Rightarrow> Inr (Some (STATUS_ERR, []), d))"
proof -
  have l: "length (le_u32 off) = 4" "length (le_u16 len) = 2" by simp_all
  obtain a b where ab: "le_u16 len = [a, b]" using l(2) by (cases "le_u16 len" rule: list.exhaust; cases "tl (le_u16 len)") auto
  have r: "rd_u32 ([i] @ le_u32 off @ le_u16 len) 1 = Inr off"
    using u32f.dec_slice_append [of "[i]" off "le_u16 len"] l by (simp add: rd_u32_ok)
  have u: "u16_le [a, b] = len" using u16f.dec_enc [of len] ab by simp
  have x: "idx ([i] @ le_u32 off @ le_u16 len) 5 = Inr a" "idx ([i] @ le_u32 off @ le_u16 len) 6 = Inr b"
      "idx ([i] @ le_u32 off @ le_u16 len) 0 = Inr i"
    using l by (simp_all add: idx_def ab nth_append)
  show ?thesis
    unfolding handle_def by (simp add: request_lens r [simplified] x [simplified] u Let_def split: option.splits)
qed

lemma u16_pair: obtains a b where "le_u16 v = [a, b]" and "u16_le [a, b] = v"
proof -
  have "length (le_u16 v) = 2" by simp
  then obtain a b where "le_u16 v = [a, b]" by (cases "le_u16 v" rule: list.exhaust; cases "tl (le_u16 v)") auto
  with u16f.dec_enc [of v] show thesis by (intro that) simp_all
qed

lemma handle_deflate:
  "handle h core d OP_DEFLATE_BLOCK ([i] @ le_u16 k @ le_u16 off @ le_u16 len) =
    Inr (Some (if DEFLATE_READ_MAX < unat len \<or> (len = 0 \<and> off \<noteq> 0) then (STATUS_ERR, [])
      else case Option.bind (folder_at (c_folder core) (unat i)) (\<lambda>s. cached_deflate_block h s (ucast k)) of
          None \<Rightarrow> (STATUS_ERR, [])
        | Some e \<Rightarrow> if unat off + unat len \<le> length e
            then (STATUS_OK, le_u16 (of_nat (length e)) @ slice (unat off) (unat off + unat len) e)
            else (STATUS_ERR, [])), d)"
proof -
  obtain a b where k: "le_u16 k = [a, b]" "u16_le [a, b] = k" by (rule u16_pair)
  obtain a' b' where o: "le_u16 off = [a', b']" "u16_le [a', b'] = off" by (rule u16_pair)
  obtain a'' b'' where l: "le_u16 len = [a'', b'']" "u16_le [a'', b''] = len" by (rule u16_pair)
  have z: "unat len = 0 \<longleftrightarrow> len = 0" "unat off = 0 \<longleftrightarrow> off = 0" by (simp_all add: unat_eq_0)
  have "handle h core d OP_DEFLATE_BLOCK ([i] @ le_u16 k @ le_u16 off @ le_u16 len) =
      Inr (Some (deflate_block h core [i, a, b, a', b', a'', b'']), d)"
    by (simp add: handle_def request_lens k o l)
  then show ?thesis
    by (auto simp: deflate_block_def k(2) o(2) l(2) z unat_gt_0 Let_def split: option.splits)
qed

lemma cached_block:
  assumes "served_ok c s" and "cached_deflate_block h s b = Some e"
  shows "unat b < length (served_blocks s)" and "deflate_raw h (served_blocks s ! unat b) = Some e"
    and "e \<noteq> []" and "length e < length (served_blocks s ! unat b)"
proof -
  have r: "raw_block s b \<noteq> None" using assms(2) by (auto simp: cached_deflate_block_def split: option.splits)
  then have b: "b < m_block_count (s_manifest s)" by (simp add: raw_block_eq [OF assms(1)] split: if_splits)
  then show "unat b < length (served_blocks s)"
    using served_geometry(5) [OF assms(1)] by (simp add: word_less_nat_alt)
  show "deflate_raw h (served_blocks s ! unat b) = Some e" "e \<noteq> []" "length e < length (served_blocks s ! unat b)"
    using assms(2) b by (auto simp: cached_deflate_block_def raw_block_eq [OF assms(1)] split: option.splits if_splits)
qed

section \<open>The capture store\<close>

text \<open>A file system on which no operation fails that the code could carry out.\<close>

definition storage_ok :: "host \<Rightarrow> bool" where
  "storage_ok h \<longleftrightarrow> (\<forall>d p f. write_fault h d p f = None) \<and> (\<forall>d p. \<not> read_fault h d p) \<and>
    (\<forall>d p q. \<not> rename_fault h d p q)"

lemma write_file_ok: "storage_ok h \<Longrightarrow> write_file h d p f = (True, d(p \<mapsto> f))"
  by (simp add: storage_ok_def write_file_def)

lemma write_file_effect: "snd (write_file h d p f) = d \<or> (\<exists>g. snd (write_file h d p f) = d(p \<mapsto> g))"
  by (auto simp: write_file_def split: option.splits fault.splits)

lemma io_reply_simps [simp]: "io_reply (ok, d) = (((if ok then STATUS_OK else STATUS_ERR), []), d)"
  by (simp add: io_reply_def)

lemma snd_io_reply [simp]: "snd (io_reply r) = snd r"
  by (cases r) simp

lemma part_not_done: "store_path h dir mid True \<noteq> store_path h dir mid False"
  by (simp add: store_path_def ascii_def)

text \<open>The requests of a capture, as the node encodes them.\<close>

definition begin_args :: "bytes \<Rightarrow> nat \<Rightarrow> bytes" where
  "begin_args mid total_len = mid @ le_u32 (of_nat total_len)"

definition write_args :: "bytes \<Rightarrow> nat \<Rightarrow> bytes \<Rightarrow> bytes" where
  "write_args mid off data = mid @ le_u32 (of_nat off) @ le_u16 (of_nat (length data)) @ data"

lemma rd_u32_mid: "length mid = 4 \<Longrightarrow> rd_u32 (mid @ le_u32 v @ rest) 4 = Inr v"
  using u32f.dec_slice_append [of mid v rest] by (simp add: rd_u32_ok)

lemma rng_mid: "length mid = 4 \<Longrightarrow> rng (mid @ rest) 0 4 = Inr mid"
  by (simp add: rng_def slice_def)

lemma storage_ops:
  "op \<in> {OP_STAT, OP_BEGIN, OP_WRITE, OP_SREAD, OP_FIN} \<Longrightarrow>
    handle h core d op args = bindr (handle_storage h core d op args) (\<lambda>(r, d'). Inr (Some r, d'))"
  by (auto simp: handle_def request_lens)

lemma handle_begin:
  assumes "length mid = 4" and "c_store_dir core = Some dir" and "n < 2 ^ 32"
    and "begin_part h core d (store_path h dir mid True) (of_nat n) = (True, d')"
  shows "handle h core d OP_BEGIN (begin_args mid n) = Inr (Some (STATUS_OK, []), d')"
  using assms rd_u32_mid [of mid "of_nat n" "[]"]
  by (simp add: storage_ops handle_storage_def begin_args_def rng_mid request_lens)

lemma handle_write:
  assumes "length mid = 4" and "c_store_dir core = Some dir" and "off < 2 ^ 32" and "length data < 2 ^ 16"
    and "d (store_path h dir mid True) = Some f" and "storage_ok h"
  shows "handle h core d OP_WRITE (write_args mid off data) =
    Inr (Some (STATUS_OK, []), d(store_path h dir mid True \<mapsto> file_write off data f))"
proof -
  obtain a b where p: "le_u16 (of_nat (length data)) = [a, b]" "u16_le [a, b] = of_nat (length data)" by (rule u16_pair)
  let ?args = "write_args mid off data"
  have r: "rd_u32 ?args 4 = Inr (of_nat off)" by (simp add: write_args_def rd_u32_mid assms(1))
  have l: "length (le_u32 (of_nat off :: u32)) = 4" by simp
  have i: "idx ?args 8 = Inr a" "idx ?args 9 = Inr b"
    using assms(1) l by (simp_all add: idx_def write_args_def p nth_append)
  have len: "unat (of_nat (length data) :: u16) = length data" using assms(4) by (simp add: unat_of_nat)
  have off: "unat (of_nat off :: u32) = off" using assms(3) by (simp add: unat_of_nat)
  have s: "slice 10 (10 + length data) ?args = data"
    using slice_append_exact [of "mid @ le_u32 (of_nat off) @ [a, b]" data "[]"] assms(1) l
    by (simp add: write_args_def p)
  have m: "rng ?args 0 4 = Inr mid" by (simp add: write_args_def rng_mid assms(1))
  have le: "10 + length data \<le> length ?args" using assms(1) l by (simp add: write_args_def p)
  have "handle_storage h core d OP_WRITE ?args =
      Inr ((STATUS_OK, []), d(store_path h dir mid True \<mapsto> file_write off data f))"
    unfolding handle_storage_def using assms(2,5,6) r i m le
    by (simp add: request_lens p(2) len off s write_at_def write_file_ok)
  then show ?thesis by (simp add: storage_ops)
qed

lemma handle_fin:
  assumes "length mid = 4" and "c_store_dir core = Some dir" and "d (store_path h dir mid True) = Some f"
    and "8 \<le> length f" and "take 4 f = MAGIC" and "unat (u32_le (slice 4 8 f)) = length f" and "storage_ok h"
  shows "handle h core d OP_FIN mid =
    Inr (Some (STATUS_OK, []), d(store_path h dir mid True := None, store_path h dir mid False \<mapsto> f))"
  using assms rng_mid [of mid "[]"]
  by (simp add: storage_ops handle_storage_def request_lens publish_def storage_ok_def)

fun handle_all :: "host \<Rightarrow> seeder_core \<Rightarrow> disk \<Rightarrow> (u8 \<times> bytes) list \<Rightarrow> (reply option list \<times> disk) result" where
  "handle_all h core d [] = Inr ([], d)"
| "handle_all h core d ((op, args) # rs) =
    bindr (handle h core d op args) (\<lambda>(x, d'). bindr (handle_all h core d' rs) (\<lambda>(xs, d''). Inr (x # xs, d'')))"

lemma handle_all_append:
  "handle_all h core d (xs @ ys) =
    bindr (handle_all h core d xs) (\<lambda>(rs, d'). bindr (handle_all h core d' ys) (\<lambda>(rs', d''). Inr (rs @ rs', d'')))"
proof (induction xs arbitrary: d)
  case Nil
  then show ?case by (cases "handle_all h core d ys") auto
next
  case (Cons x xs)
  then show ?case by (cases x) (auto simp: bindr_def split: sum.splits prod.splits)
qed

text \<open>A capture: the announced length, the pieces of the container in any order, and the end mark.\<close>

definition capture_writes :: "bytes \<Rightarrow> bytes \<Rightarrow> (nat \<times> nat) list \<Rightarrow> (u8 \<times> bytes) list" where
  "capture_writes mid blob pieces =
    map (\<lambda>(off, len). (OP_WRITE, write_args mid off (slice off (off + len) blob))) pieces"

definition capture_requests :: "bytes \<Rightarrow> bytes \<Rightarrow> (nat \<times> nat) list \<Rightarrow> (u8 \<times> bytes) list" where
  "capture_requests mid blob pieces =
    (OP_BEGIN, begin_args mid (length blob)) # capture_writes mid blob pieces @ [(OP_FIN, mid)]"

definition in_piece :: "nat \<Rightarrow> nat \<times> nat \<Rightarrow> bool" where
  "in_piece i p \<longleftrightarrow> fst p \<le> i \<and> i < fst p + snd p"

definition covers :: "bytes \<Rightarrow> (nat \<times> nat) list \<Rightarrow> bool" where
  "covers blob pieces \<longleftrightarrow> (\<forall>(off, len) \<in> set pieces. off + len \<le> length blob \<and> len \<le> WRITE_MAX) \<and>
    (\<forall>i < length blob. \<exists>p \<in> set pieces. in_piece i p)"

lemma file_write_inside:
  assumes "off + length data \<le> length f"
  shows "length (file_write off data f) = length f"
    and "i < length f \<Longrightarrow> file_write off data f ! i =
      (if in_piece i (off, length data) then data ! (i - off) else f ! i)"
  using assms by (auto simp: file_write_def in_piece_def nth_put)

lemma capture_writes_ok:
  fixes h :: host
  assumes "length mid = 4" and "c_store_dir core = Some dir" and "length blob < 2 ^ 32" and "storage_ok h"
  defines "part \<equiv> store_path h dir mid True"
  shows "(\<forall>(off, len) \<in> set pieces. off + len \<le> length blob \<and> len \<le> WRITE_MAX) \<Longrightarrow>
    d part = Some f \<Longrightarrow> length f = length blob \<Longrightarrow>
    \<exists>f'. handle_all h core d (capture_writes mid blob pieces) =
        Inr (replicate (length pieces) (Some (STATUS_OK, [])), d(part \<mapsto> f')) \<and>
      length f' = length blob \<and>
      (\<forall>i < length blob. f' ! i = (if \<exists>p \<in> set pieces. in_piece i p then blob ! i else f ! i))"
proof (induction pieces arbitrary: d f)
  case Nil
  then have "d(part \<mapsto> f) = d" by auto
  then show ?case using Nil by (intro exI [of _ f]) (simp add: capture_writes_def)
next
  case (Cons p pieces)
  obtain off len where p: "p = (off, len)" by (cases p)
  let ?data = "slice off (off + len) blob"
  have b: "off + len \<le> length blob" "len \<le> 512" using Cons.prems(1) by (auto simp: p WRITE_MAX_def)
  then have ld: "length ?data = len" by simp
  have lf: "length (file_write off ?data f) = length blob"
    using file_write_inside(1) [of off ?data f] b Cons.prems(3) by simp
  have nf: "file_write off ?data f ! i = (if in_piece i p then blob ! i else f ! i)" if "i < length blob" for i
    using file_write_inside(2) [of off ?data f i] that b Cons.prems(3)
    by (auto simp: p in_piece_def slice_def)
  have w: "handle h core d OP_WRITE (write_args mid off ?data) =
      Inr (Some (STATUS_OK, []), d(part \<mapsto> file_write off ?data f))"
    unfolding part_def
    by (rule handle_write [OF assms(1,2)]) (use b assms(3,4) Cons.prems(2) in \<open>simp_all add: part_def\<close>)
  have "\<exists>f'. handle_all h core (d(part \<mapsto> file_write off ?data f)) (capture_writes mid blob pieces) =
        Inr (replicate (length pieces) (Some (STATUS_OK, [])), d(part \<mapsto> file_write off ?data f, part \<mapsto> f')) \<and>
      length f' = length blob \<and>
      (\<forall>i < length blob. f' ! i = (if \<exists>p \<in> set pieces. in_piece i p then blob ! i else file_write off ?data f ! i))"
    by (rule Cons.IH) (use Cons.prems lf in auto)
  then obtain f' where IH: "handle_all h core (d(part \<mapsto> file_write off ?data f)) (capture_writes mid blob pieces) =
        Inr (replicate (length pieces) (Some (STATUS_OK, [])), d(part \<mapsto> f'))"
      "length f' = length blob"
      "\<forall>i < length blob. f' ! i = (if \<exists>p \<in> set pieces. in_piece i p then blob ! i else file_write off ?data f ! i)"
    by auto
  have "handle_all h core d (capture_writes mid blob (p # pieces)) =
      Inr (replicate (length (p # pieces)) (Some (STATUS_OK, [])), d(part \<mapsto> f'))"
    using IH(1) w by (simp add: capture_writes_def p)
  then show ?case using IH(2,3) nf by (intro exI [of _ f']) auto
qed

lemma begin_part_eq:
  "\<exists>f. begin_part h core d part n = write_file h d part f \<and> length f = unat n \<and>
    (c_seed core = None \<longrightarrow> f = replicate (unat n) 0xFF)"
  by (auto simp: begin_part_def Let_def put_def split: option.splits prod.splits)

lemma capture_ok:
  assumes "length mid = 4" and "c_store_dir core = Some dir" and "length blob < 2 ^ 32"
    and "8 \<le> length blob" and "take 4 blob = MAGIC" and "unat (u32_le (slice 4 8 blob)) = length blob"
    and "covers blob pieces" and "storage_ok h"
  shows "handle_all h core d (capture_requests mid blob pieces) =
    Inr (replicate (length pieces + 2) (Some (STATUS_OK, [])),
      d(store_path h dir mid True := None, store_path h dir mid False \<mapsto> blob))"
proof -
  let ?part = "store_path h dir mid True"
  have u: "unat (of_nat (length blob) :: u32) = length blob" using assms(3) by (simp add: unat_of_nat)
  obtain f where f: "begin_part h core d ?part (of_nat (length blob)) = (True, d(?part \<mapsto> f))" "length f = length blob"
    using begin_part_eq [of h core d ?part "of_nat (length blob)"] u write_file_ok [OF assms(8)] by auto
  note b = handle_begin [OF assms(1,2,3) f(1)]
  have p: "\<forall>(off, len) \<in> set pieces. off + len \<le> length blob \<and> len \<le> WRITE_MAX"
    and c: "\<forall>i < length blob. \<exists>p \<in> set pieces. in_piece i p"
    using assms(7) by (auto simp: covers_def)
  obtain f' where w: "handle_all h core (d(?part \<mapsto> f)) (capture_writes mid blob pieces) =
      Inr (replicate (length pieces) (Some (STATUS_OK, [])), d(?part \<mapsto> f'))" "length f' = length blob"
      "\<forall>i < length blob. f' ! i = (if \<exists>p \<in> set pieces. in_piece i p then blob ! i else f ! i)"
    using capture_writes_ok [OF assms(1-3,8) p, of "d(?part \<mapsto> f)" f] f(2) by auto
  then have "f' = blob" using c by (intro nth_equalityI) auto
  then have "handle h core (d(?part \<mapsto> f')) OP_FIN mid =
      Inr (Some (STATUS_OK, []), d(?part := None, store_path h dir mid False \<mapsto> blob))"
    using handle_fin [OF assms(1,2), of "d(?part \<mapsto> f')" h blob] assms(4,5,6,8) by simp
  then show ?thesis
    using b w(1) by (simp add: capture_requests_def handle_all_append replicate_app_Cons_same)
qed

section \<open>What requests can do to the store\<close>

text \<open>The light validation a capture passes before it is published.\<close>

definition header_ok :: "bytes \<Rightarrow> bool" where
  "header_ok f \<longleftrightarrow> 8 \<le> length f \<and> take 4 f = MAGIC \<and> unat (u32_le (slice 4 8 f)) = length f"

lemma part_not_done_any: "store_path h dir mid True \<noteq> store_path h dir' mid' False"
proof
  assume "store_path h dir mid True = store_path h dir' mid' False"
  then have "last (hex_lower h mid @ ascii ''.mota.part'') = last (hex_lower h mid' @ ascii ''.mota'')"
    by (simp add: store_path_def)
  then show False by (simp add: ascii_def last_append)
qed

lemmas store_paths_differ [simp] = part_not_done_any part_not_done_any [symmetric]

definition part_file :: "host \<Rightarrow> seeder_core \<Rightarrow> bytes \<Rightarrow> path" where
  "part_file h core args = store_path h (the (c_store_dir core)) (take 4 args) True"

definition done_file :: "host \<Rightarrow> seeder_core \<Rightarrow> bytes \<Rightarrow> path" where
  "done_file h core args = store_path h (the (c_store_dir core)) (take 4 args) False"

text \<open>Everything a request can change: its own capture, or its publication.\<close>

lemma storage_effect:
  assumes "handle_storage h core d op args = Inr (r, d')"
  shows "d' = d \<or> c_store_dir core \<noteq> None \<and>
    ((\<exists>f. d' = d(part_file h core args \<mapsto> f)) \<or>
     (\<exists>f. d (part_file h core args) = Some f \<and> header_ok f \<and>
       d' = d(part_file h core args := None, done_file h core args \<mapsto> f)))"
proof (cases "c_store_dir core")
  case (Some store)
  have part: "store_path h store (slice 0 4 args) True = part_file h core args"
    and "done": "store_path h store (slice 0 4 args) False = done_file h core args"
    by (simp_all add: part_file_def done_file_def Some slice_def)
  have b: "snd (begin_part h core d p n) = d \<or> (\<exists>f. snd (begin_part h core d p n) = d(p \<mapsto> f))" for p n
    using begin_part_eq [of h core d p n] write_file_effect by metis
  have w: "snd (write_at h d p off data) = d \<or> (\<exists>f. snd (write_at h d p off data) = d(p \<mapsto> f))" for p off data
    using write_file_effect by (simp add: write_at_def split: option.splits)
  have pub: "snd (publish h d p q) = d \<or> (\<exists>f. d p = Some f \<and> header_ok f \<and> snd (publish h d p q) = d(p := None, q \<mapsto> f))" for p q
    by (auto simp: publish_def header_ok_def split: option.splits)
  from assms Some have g: "4 \<le> length args" by (auto simp: handle_storage_def rng_def split: if_splits)
  have e: "rng args 0 4 = Inr (slice 0 4 args)" using g by (simp add: rng_def)
  consider "op = OP_BEGIN" | "op = OP_WRITE" | "op = OP_FIN" | "op \<notin> {OP_BEGIN, OP_WRITE, OP_FIN}" by blast
  then show ?thesis
  proof cases
    case 1
    with assms have "\<exists>n. (r, d') = io_reply (begin_part h core d (part_file h core args) n)"
      by (simp add: handle_storage_def Some e request_lens part "done" Let_def) metis
    then obtain n where "d' = snd (begin_part h core d (part_file h core args) n)" by (metis snd_conv snd_io_reply)
    with b [of "part_file h core args" n] Some show ?thesis by auto
  next
    case 2
    with assms have "d' = d \<or> (\<exists>off data. io_reply (write_at h d (part_file h core args) off data) = (r, d'))"
      by (auto simp: handle_storage_def Some e request_lens part "done" Let_def split: if_splits)
    then show ?thesis
    proof
      assume "\<exists>off data. io_reply (write_at h d (part_file h core args) off data) = (r, d')"
      then obtain off data where "d' = snd (write_at h d (part_file h core args) off data)" by (metis snd_conv snd_io_reply)
      with w [of "part_file h core args" off data] Some show ?thesis by auto
    qed simp
  next
    case 3
    with assms have "(r, d') = io_reply (publish h d (part_file h core args) (done_file h core args))"
      by (auto simp: handle_storage_def Some e request_lens part "done" Let_def)
    then have "d' = snd (publish h d (part_file h core args) (done_file h core args))" by (metis snd_conv snd_io_reply)
    with pub [of "part_file h core args" "done_file h core args"] Some show ?thesis by auto
  next
    case 4
    with assms have "d' = d"
      by (auto simp: handle_storage_def Some e Let_def split: if_splits option.splits)
    then show ?thesis by simp
  qed
qed (use assms in \<open>simp add: handle_storage_def\<close>)

lemma handle_effect:
  assumes "handle h core d op args = Inr (r, d')"
  shows "d' = d \<or> c_store_dir core \<noteq> None \<and>
    ((\<exists>f. d' = d(part_file h core args \<mapsto> f)) \<or>
     (\<exists>f. d (part_file h core args) = Some f \<and> header_ok f \<and>
       d' = d(part_file h core args := None, done_file h core args \<mapsto> f)))"
proof (cases "op \<in> {OP_STAT, OP_BEGIN, OP_WRITE, OP_SREAD, OP_FIN}")
  case True
  then obtain r' where "handle_storage h core d op args = Inr (r', d')"
    using assms by (auto simp: storage_ops)
  then show ?thesis by (rule storage_effect)
next
  case False
  then have "d' = d"
    using assms by (auto simp: handle_def Let_def split: if_splits list.splits option.splits)
  then show ?thesis by simp
qed

lemma handle_keeps_published:
  assumes "handle h core d op args = Inr (r, d')"
  shows "d' (store_path h dir mid False) = d (store_path h dir mid False) \<or>
    (\<exists>f. d' (store_path h dir mid False) = Some f \<and> header_ok f)"
  using handle_effect [OF assms] by (auto simp: part_file_def done_file_def)

lemma handle_all_keeps_published:
  "handle_all h core d rs = Inr (xs, d') \<Longrightarrow>
    d' (store_path h dir mid False) = d (store_path h dir mid False) \<or>
    (\<exists>f. d' (store_path h dir mid False) = Some f \<and> header_ok f)"
proof (induction rs arbitrary: d xs)
  case (Cons x rs)
  obtain op args where x: "x = (op, args)" by (cases x)
  from Cons.prems obtain r d1 xs' where h: "handle h core d op args = Inr (r, d1)"
    and r: "handle_all h core d1 rs = Inr (xs', d')" by (auto simp: x)
  from Cons.IH [OF r] handle_keeps_published [OF h, of dir mid] show ?case by metis
qed simp

lemma handle_all_frame:
  assumes "inj (hex_lower h)"
  shows "handle_all h core d rs = Inr (xs, d') \<Longrightarrow> c_store_dir core = Some dir \<Longrightarrow>
    \<forall>(op, args) \<in> set rs. take 4 args \<noteq> mid \<Longrightarrow> d' (store_path h dir mid part) = d (store_path h dir mid part)"
proof (induction rs arbitrary: d xs)
  case (Cons x rs)
  obtain op args where x: "x = (op, args)" by (cases x)
  from Cons.prems obtain r d1 xs' where h: "handle h core d op args = Inr (r, d1)"
    and r: "handle_all h core d1 rs = Inr (xs', d')" by (auto simp: x)
  have ne: "take 4 args \<noteq> mid" using Cons.prems by (simp add: x)
  then have hx: "hex_lower h (take 4 args) \<noteq> hex_lower h mid" using assms by (auto dest: injD)
  then have differ: "store_path h dir mid p \<noteq> store_path h dir (take 4 args) p" for p
    by (auto simp: store_path_def)
  have "d1 (store_path h dir mid part) = d (store_path h dir mid part)"
    using handle_effect [OF h] Cons.prems(2) differ [of part]
    by (cases part) (auto simp: part_file_def done_file_def)
  with Cons.IH [OF r] Cons.prems show ?case by (auto simp: x)
qed simp

section \<open>A node can check what it fetches\<close>

lemma served_intact:
  assumes "sha_ok c" and "served_ok c s"
  shows "intact c (s_manifest s) (served_payload s)" and "s_bytes s = intact_container c (s_manifest s) (served_payload s)"
proof -
  from assms(2) have v: "verify c (s_bytes s) = Inr []" and p: "manifest_parse c (s_bytes s) = Inr (s_manifest s)"
    by (simp_all add: served_ok_def)
  obtain m q where i: "intact c m q" and b: "s_bytes s = intact_container c m q"
    using v unfolding verify_nil [OF assms(1)] by blast
  from i have w: "manifest_wf c m q" and lq: "length q = unat (m_payload_size m)" by (simp_all add: intact_def)
  have f: "field_lengths m" using w by (simp add: manifest_wf_def)
  note ll = leaves_of_wf [OF w lq assms(1)]
  have "manifest_parse c (s_bytes s) = Inr m"
    unfolding b intact_container_def by (rule parse_container [OF w ll lq])
  with p have m: "s_manifest s = m" by simp
  have "served_payload s = q"
    using container_slices(5) [OF f ll lq] by (simp add: served_payload_def m Let_def b intact_container_def)
  then show "intact c (s_manifest s) (served_payload s)"
    "s_bytes s = intact_container c (s_manifest s) (served_payload s)" using i b m by simp_all
qed

lemma concat_chunk4: "\<forall>x \<in> set xs. length x = 4 \<Longrightarrow> k < length xs \<Longrightarrow> slice (4 * k) (4 * k + 4) (concat xs) = xs ! k"
proof (induction xs arbitrary: k)
  case (Cons x xs)
  have "slice (4 * Suc j) (4 * Suc j + 4) (x @ concat xs) = slice (4 * j) (4 * j + 4) (concat xs)" for j
    using Cons.prems(1) by (auto simp: slice_def)
  with Cons show ?case by (cases k) (auto simp: slice_def)
qed simp

text \<open>A leaf and a block, as requests for the bytes at the offsets of the description.\<close>

lemma served_leaf:
  assumes "sha_ok c" and "served_ok c s" and "k < length (served_blocks s)"
  shows "leaves_off (s_manifest s) + 4 * k + 4 \<le> length (s_bytes s)"
    and "slice (leaves_off (s_manifest s) + 4 * k) (leaves_off (s_manifest s) + 4 * k + 4) (s_bytes s) = leaf c (served_blocks s ! k)"
proof -
  let ?m = "s_manifest s"
  note g = served_geometry [OF assms(2)] and i = served_intact [OF assms(1,2)]
  let ?ls = "leaf_hashes c (served_payload s) (unat (block_size ?m))"
  have w: "manifest_wf c ?m (served_payload s)" using i(1) by (simp add: intact_def)
  have f: "field_lengths ?m" using w by (simp add: manifest_wf_def)
  have lp: "length (served_payload s) = unat (m_payload_size ?m)" by (rule g(4))
  have ll: "length (concat ?ls) = 4 * unat (m_block_count ?m)" by (rule leaves_of_wf [OF w lp assms(1)])
  have k: "k < unat (m_block_count ?m)" using assms(3) g(5) by simp
  show "leaves_off ?m + 4 * k + 4 \<le> length (s_bytes s)"
    using g(2) k by (simp add: payload_off_def)
  have ls: "slice (leaves_off ?m) (payload_off ?m) (s_bytes s) = concat ?ls"
    unfolding i(2) intact_container_def by (rule container_slices(4) [OF f ll lp])
  have "slice (leaves_off ?m + 4 * k) (leaves_off ?m + 4 * k + 4) (s_bytes s) =
      slice (4 * k) (4 * k + 4) (slice (leaves_off ?m) (payload_off ?m) (s_bytes s))"
    using k by (simp add: slice_slice payload_off_def add.assoc)
  also have "\<dots> = ?ls ! k"
    unfolding ls using k g(5) leaf_hashes_elem [OF assms(1)]
    by (intro concat_chunk4) (auto simp: leaf_hashes_def served_blocks_def)
  finally show "slice (leaves_off ?m + 4 * k) (leaves_off ?m + 4 * k + 4) (s_bytes s) = leaf c (served_blocks s ! k)"
    using assms(3) by (simp add: leaf_hashes_def served_blocks_def)
qed

lemma served_block:
  assumes "served_ok c s" and "k < length (served_blocks s)"
  defines "off \<equiv> payload_off (s_manifest s) + k * unat (block_size (s_manifest s))"
  shows "off + length (served_blocks s ! k) \<le> length (s_bytes s)" and "length (served_blocks s ! k) \<le> 2048"
    and "slice off (off + length (served_blocks s ! k)) (s_bytes s) = served_blocks s ! k"
proof -
  let ?m = "s_manifest s"
  let ?bs = "unat (block_size ?m)"
  note g = served_geometry [OF assms(1)]
  have pos: "0 < ?bs" using g(3) by simp
  let ?e = "min (k * ?bs + ?bs) (unat (m_payload_size ?m))"
  have in_range: "k * ?bs < unat (m_payload_size ?m)"
    using chunk_inside [OF pos, of k "served_payload s"] assms(2) g(4) by (simp add: served_blocks_def)
  have b: "served_blocks s ! k = slice (k * ?bs) ?e (served_payload s)"
    using nth_chunks [OF pos, of k "served_payload s"] assms(2) g(4) slice_min [of "k * ?bs" _ "served_payload s"]
    by (simp add: served_blocks_def)
  have l: "length (served_blocks s ! k) = ?e - k * ?bs" unfolding b using g(4) in_range by simp
  then show "length (served_blocks s ! k) \<le> 2048" using g(3) by auto
  show "off + length (served_blocks s ! k) \<le> length (s_bytes s)"
    using l g(2) in_range by (simp add: off_def)
  have "slice off (off + length (served_blocks s ! k)) (s_bytes s) = slice (k * ?bs) ?e (served_payload s)"
    using l in_range by (simp add: off_def served_payload_def Let_def slice_slice add.assoc)
  then show "slice off (off + length (served_blocks s ! k)) (s_bytes s) = served_blocks s ! k" by (simp only: b)
qed

lemma handle_read_inside:
  assumes "folder_at (c_folder core) (unat i) = Some s" and "length (s_bytes s) < 2 ^ 32" and "n < 2 ^ 16"
    and "off + n \<le> length (s_bytes s)"
  shows "handle h core d OP_READ ([i] @ le_u32 (of_nat off) @ le_u16 (of_nat n)) =
    Inr (Some (STATUS_OK, slice off (off + n) (s_bytes s)), d)"
proof -
  have u: "unat (of_nat off :: u32) = off" "unat (of_nat n :: u16) = n" using assms by (simp_all add: unat_of_nat)
  show ?thesis unfolding handle_read assms(1) by (simp only: option.case u assms(4) if_True)
qed

lemma handle_describe:
  "folder_at (c_folder core) (unat i) = Some s \<Longrightarrow> handle h core d OP_DESCRIBE [i] = Inr (Some (STATUS_OK, describe s), d)"
  by (simp add: handle_def request_lens)

lemma fetch_block:
  assumes "sha_ok c" and "served_ok c s" and "folder_at (c_folder core) (unat i) = Some s" and "k < length (served_blocks s)"
  defines "m \<equiv> s_manifest s" and "b \<equiv> served_blocks s ! k"
  shows "handle h core d OP_READ ([i] @ le_u32 (of_nat (payload_off m + k * unat (block_size m))) @ le_u16 (of_nat (length b))) =
      Inr (Some (STATUS_OK, b), d)"
    and "handle h core d OP_READ ([i] @ le_u32 (of_nat (leaves_off m + 4 * k)) @ le_u16 4) = Inr (Some (STATUS_OK, leaf c b), d)"
    and "m_merkle_root m = mth c (map (leaf c) (served_blocks s))"
    and "is_full m \<Longrightarrow> m_image_hash m = sha256 c (concat (served_blocks s))"
proof -
  note g = served_geometry [OF assms(2)]
  note blk = served_block [OF assms(2,4)] and lf = served_leaf [OF assms(1,2,4)] and i = served_intact [OF assms(1,2)]
  show "handle h core d OP_READ ([i] @ le_u32 (of_nat (payload_off m + k * unat (block_size m))) @ le_u16 (of_nat (length b))) =
      Inr (Some (STATUS_OK, b), d)"
    using handle_read_inside [OF assms(3) g(1) _ blk(1), of h d] blk(2,3) by (simp add: m_def b_def)
  show "handle h core d OP_READ ([i] @ le_u32 (of_nat (leaves_off m + 4 * k)) @ le_u16 4) = Inr (Some (STATUS_OK, leaf c b), d)"
    using handle_read_inside [OF assms(3) g(1) _ lf(1), of h d] lf(2) by (simp add: m_def b_def)
  show "m_merkle_root m = mth c (map (leaf c) (served_blocks s))"
    using i(1) by (simp add: intact_def m_def leaf_hashes_def served_blocks_def)
  show "is_full m \<Longrightarrow> m_image_hash m = sha256 c (concat (served_blocks s))"
    using i(1) concat_served_blocks [OF assms(2)] by (simp add: intact_def m_def)
qed

end
