(* ===== verification/Mota_Stream.thy ===== *)
theory Mota_Stream
  imports Mota_Seeder
begin

text \<open>
  \<open>src/serve.rs\<close>, the byte-stream side: opening a link, reading requests, answering them, separating console text from
  binary frames (\<open>StreamState\<close>). The loops over this event pump are in \<open>Mota_Session\<close>.

  A link is the list of what its reads will return (a byte, a timeout, the end; the end once the list is
  used up), the list of what was written, a flag for a link whose writes fail and one for a link that
  takes what is written but cannot be flushed. The clock and the stop flag are functions of the number of the query. Every loop consumes the input list, so the loops
  are total functions.
\<close>

section \<open>The link\<close>

datatype byte_read = Got u8 | Timeout | Closed

record link =
  l_in :: "byte_read list"
  l_out :: "bytes list"
  l_broken :: bool
  l_stuck :: bool

definition read_byte :: "link \<Rightarrow> byte_read \<times> link" where
  "read_byte l = (case l_in l of [] \<Rightarrow> (Closed, l) | x # xs \<Rightarrow> (x, l\<lparr>l_in := xs\<rparr>))"

definition write_all :: "link \<Rightarrow> bytes \<Rightarrow> link option" where
  "write_all l bs = (if l_broken l then None else Some (l\<lparr>l_out := l_out l @ [bs]\<rparr>))"

fun read_frame_bytes :: "link \<Rightarrow> nat \<Rightarrow> bytes option \<times> link" where
  "read_frame_bytes l 0 = (Some [], l)"
| "read_frame_bytes l (Suc n) =
    (case read_byte l of
       (Got b, l1) \<Rightarrow> (case read_frame_bytes l1 n of (bs, l2) \<Rightarrow> (map_option (\<lambda>bs. b # bs) bs, l2))
     | (_, l1) \<Rightarrow> (None, l1))"

declare read_frame_bytes.simps [simp del]

section \<open>Opening a link\<close>

definition LINK_TIMEOUT :: nat where [mota_const]: "LINK_TIMEOUT = 500"

text \<open>
  A port as the \<open>serialport\<close> crate opens it: its byte stream, its two control lines, and whether the device
  refuses to set them. A connected socket, and whether it refuses a read timeout.
\<close>

record serial_port =
  sp_link :: link
  sp_dtr :: bool
  sp_rts :: bool
  sp_refuses_dtr :: bool
  sp_refuses_rts :: bool

record tcp_stream =
  tcp_link :: link
  tcp_timeout :: "nat option"
  tcp_refuses_timeout :: bool

definition write_data_terminal_ready :: "serial_port \<Rightarrow> bool \<Rightarrow> serial_port option" where
  "write_data_terminal_ready p level = (if sp_refuses_dtr p then None else Some (p\<lparr>sp_dtr := level\<rparr>))"

definition write_request_to_send :: "serial_port \<Rightarrow> bool \<Rightarrow> serial_port option" where
  "write_request_to_send p level = (if sp_refuses_rts p then None else Some (p\<lparr>sp_rts := level\<rparr>))"

definition set_read_timeout :: "tcp_stream \<Rightarrow> nat option \<Rightarrow> tcp_stream option" where
  "set_read_timeout s t = (if tcp_refuses_timeout s then None else Some (s\<lparr>tcp_timeout := t\<rparr>))"

text \<open>\<open>port_open\<close> takes the device, the speed, the read timeout and \<open>dtr_on_open\<close>.\<close>

definition open_serial :: "(bytes \<Rightarrow> u32 \<Rightarrow> nat \<Rightarrow> bool \<Rightarrow> serial_port option) \<Rightarrow> bytes \<Rightarrow> u32 \<Rightarrow> serial_port result" where
  "open_serial port_open dev baud =
    bindr (of_opt ''cannot open serial device'' (port_open dev baud LINK_TIMEOUT True)) (\<lambda>p.
    bindr (of_opt ''cannot assert DTR on serial device'' (write_data_terminal_ready p True)) (\<lambda>p1.
    of_opt ''cannot deassert RTS on serial device'' (write_request_to_send p1 False)))"

definition open_tcp :: "(bytes \<Rightarrow> u16 \<Rightarrow> tcp_stream option) \<Rightarrow> bytes \<Rightarrow> u16 \<Rightarrow> tcp_stream result" where
  "open_tcp connect host port =
    bindr (of_opt ''cannot connect'' (connect host port)) (\<lambda>s.
    of_opt ''set_read_timeout'' (set_read_timeout s (Some LINK_TIMEOUT)))"

lemma open_serial_Inr:
  "open_serial port_open dev baud = Inr p \<longleftrightarrow> (\<exists>p0. port_open dev baud LINK_TIMEOUT True = Some p0 \<and>
    \<not> sp_refuses_dtr p0 \<and> \<not> sp_refuses_rts p0 \<and> p = p0\<lparr>sp_dtr := True, sp_rts := False\<rparr>)"
  by (auto simp: open_serial_def write_data_terminal_ready_def write_request_to_send_def of_opt_Inr)

lemma open_tcp_Inr:
  "open_tcp connect host port = Inr s \<longleftrightarrow> (\<exists>s0. connect host port = Some s0 \<and>
    \<not> tcp_refuses_timeout s0 \<and> s = s0\<lparr>tcp_timeout := Some LINK_TIMEOUT\<rparr>)"
  by (auto simp: open_tcp_def set_read_timeout_def of_opt_Inr)

lemma open_no_panic: "open_serial port_open dev baud \<noteq> Inl Panic" "open_tcp connect host port \<noteq> Inl Panic"
  by (auto simp: open_serial_def open_tcp_def bindr_Panic)

section \<open>Requests\<close>

definition xor_bytes :: "bytes \<Rightarrow> u8 \<Rightarrow> u8" where
  "xor_bytes bs seed = foldl (XOR) seed bs"

datatype request_read = Valid u8 bytes | MalformedKnown | Unknown u8

text \<open>The data of a write, then the checksum.\<close>

definition read_write_data :: "link \<Rightarrow> bytes \<Rightarrow> bytes option \<times> link" where
  "read_write_data l args =
    (let dlen = unat (u16_le [args ! 8, args ! 9]) in
     if WRITE_MAX < dlen then (None, l)
     else if 0 < dlen then (case read_frame_bytes l dlen of (data, l1) \<Rightarrow> (map_option (\<lambda>x. args @ x) data, l1))
     else (Some args, l))"

definition read_checksum :: "link \<Rightarrow> u8 \<Rightarrow> bytes \<Rightarrow> request_read \<times> link" where
  "read_checksum l op args =
    (case read_frame_bytes l 1 of
       (Some (xsum # _), l1) \<Rightarrow> (if xsum = xor_bytes args op then Valid op args else MalformedKnown, l1)
     | (_, l1) \<Rightarrow> (MalformedKnown, l1))"

definition read_request :: "link \<Rightarrow> request_read \<times> link" where
  "read_request l =
    (case read_frame_bytes l 1 of
       (Some (op # _), l1) \<Rightarrow>
         (case request_header_len op of
            None \<Rightarrow> (Unknown op, l1)
          | Some hdr \<Rightarrow>
              (case read_frame_bytes l1 hdr of
                 (Some args, l2) \<Rightarrow>
                   if op = OP_WRITE then
                     (case read_write_data l2 args of
                        (Some args', l3) \<Rightarrow> read_checksum l3 op args'
                      | (None, l3) \<Rightarrow> (MalformedKnown, l3))
                   else read_checksum l2 op args
               | (None, l2) \<Rightarrow> (MalformedKnown, l2)))
     | (_, l1) \<Rightarrow> (MalformedKnown, l1))"

definition response_frame :: "u8 \<Rightarrow> u8 \<Rightarrow> bytes \<Rightarrow> bytes" where
  "response_frame op status payload =
    (let frame = RSP_MAGIC @ [op] @ [status] @ payload in frame @ [xor_bytes frame 0])"

text \<open>A failing write of a response is ignored.\<close>

definition send_response :: "link \<Rightarrow> u8 \<Rightarrow> u8 \<Rightarrow> bytes \<Rightarrow> link" where
  "send_response l op status payload =
    (case write_all l (response_frame op status payload) of None \<Rightarrow> l | Some l' \<Rightarrow> l')"

section \<open>Console text and frames\<close>

text \<open>\<open>line\<close> holds the characters \<open>b as char\<close>; its UTF-8 length counts two bytes above \<open>0x7F\<close>.\<close>

record stream_state =
  pending_m :: bool
  deferred :: "u8 option"
  line :: bytes

definition stream_default :: stream_state where
  "stream_default = \<lparr>pending_m = False, deferred = None, line = []\<rparr>"

datatype pump_event = Activity | NoByte | LinkClosed | SeederFrame "bytes option" | DeviceLine bytes

definition utf8_len :: "bytes \<Rightarrow> nat" where
  "utf8_len cs = sum_list (map (\<lambda>c. if c < 0x80 then 1 else 2) cs)"

definition trim_line_end :: "bytes \<Rightarrow> bytes" where
  "trim_line_end cs = rev (dropWhile (\<lambda>c. c = 13 \<or> c = 10) (rev cs))"

definition push_text :: "stream_state \<Rightarrow> u8 \<Rightarrow> bytes option \<times> stream_state" where
  "push_text st b =
    (let cs = line st @ [b] in
     if b \<noteq> 10 \<and> utf8_len cs \<le> 512 then (None, st\<lparr>line := cs\<rparr>)
     else let trimmed = trim_line_end cs
          in (if trimmed \<noteq> [] then Some trimmed else None, st\<lparr>line := []\<rparr>))"

text \<open>\<open>emitted.get_or_insert(line)\<close>: the first line wins.\<close>

fun push_literal_from :: "stream_state \<Rightarrow> bytes option \<Rightarrow> bytes \<Rightarrow> bytes option \<times> stream_state" where
  "push_literal_from st emitted [] = (emitted, st)"
| "push_literal_from st emitted (b # bs) =
    (case push_text st b of
       (Some ln, st1) \<Rightarrow> push_literal_from st1 (case emitted of None \<Rightarrow> Some ln | Some e \<Rightarrow> Some e) bs
     | (None, st1) \<Rightarrow> push_literal_from st1 emitted bs)"

definition push_literal :: "stream_state \<Rightarrow> bytes \<Rightarrow> bytes option \<times> stream_state" where
  "push_literal st bs = push_literal_from st None bs"

definition accept_unframed :: "stream_state \<Rightarrow> u8 \<Rightarrow> pump_event \<times> stream_state" where
  "accept_unframed st b =
    (if b = REQ_MAGIC ! 0 then (Activity, st\<lparr>pending_m := True\<rparr>)
     else case push_text st b of
       (Some ln, st1) \<Rightarrow> (DeviceLine ln, st1)
     | (None, st1) \<Rightarrow> (Activity, st1))"

section \<open>One event of the stream\<close>

definition request_log :: "u8 \<Rightarrow> bytes \<Rightarrow> u8 \<Rightarrow> bytes \<Rightarrow> bytes option result" where
  "request_log op args status payload =
    (let ok = (if status = STATUS_OK then ascii ''OK'' else ascii ''ERR'') in
     if op = OP_COUNT then
       Inr (Some (ascii ''COUNT -> '' @ dec (case payload of [] \<Rightarrow> 0 | b # _ \<Rightarrow> unat b)))
     else if op = OP_DESCRIBE then
       bindr (idx args 0) (\<lambda>i. Inr (Some (ascii ''DESCRIBE '' @ dec (unat i) @ ascii '' '' @ ok)))
     else if op = OP_READ then
       bindr (idx args 0) (\<lambda>i. bindr (rd_u32 args 1) (\<lambda>off.
       Inr (Some (ascii ''READ '' @ dec (unat i) @ ascii '' @'' @ dec (unat off) @ ascii '' '' @ ok))))
     else if op = OP_DEFLATE_BLOCK then
       bindr (idx args 0) (\<lambda>i. bindr (idx args 1) (\<lambda>k0. bindr (idx args 2) (\<lambda>k1.
       bindr (idx args 3) (\<lambda>o0. bindr (idx args 4) (\<lambda>o1.
       Inr (Some (ascii ''DEFLATE '' @ dec (unat i) @ ascii '' block='' @ dec (unat (u16_le [k0, k1])) @
         ascii '' @'' @ dec (unat (u16_le [o0, o1])) @ ascii '' '' @ ok)))))))
     else Inr None)"

type_synonym pump_result = "(pump_event \<times> stream_state \<times> link \<times> disk) result"

definition answer_request ::
  "host \<Rightarrow> seeder_core \<Rightarrow> bool \<Rightarrow> u8 \<Rightarrow> bytes \<Rightarrow> link \<Rightarrow> disk \<Rightarrow> (bytes option \<times> link \<times> disk) result"
where
  "answer_request h core verbose op args l d =
    bindr (handle h core d op args) (\<lambda>(reply, d').
    case reply of
      Some (status, payload) \<Rightarrow>
        let l' = send_response l op status payload in
        bindr (if verbose then request_log op args status payload else Inr None) (\<lambda>log. Inr (log, l', d'))
    | None \<Rightarrow> Inr (None, l, d'))"

definition pump_byte :: "host \<Rightarrow> seeder_core \<Rightarrow> bool \<Rightarrow> u8 \<Rightarrow> stream_state \<Rightarrow> link \<Rightarrow> disk \<Rightarrow> pump_result" where
  "pump_byte h core verbose b st l d =
    (if pending_m st then
       let st1 = st\<lparr>pending_m := False\<rparr> in
       if b = REQ_MAGIC ! 1 then
         (case read_request l of
            (Valid op args, l1) \<Rightarrow>
              bindr (answer_request h core verbose op args l1 d) (\<lambda>(log, l2, d').
              Inr (SeederFrame log, st1\<lparr>line := []\<rparr>, l2, d'))
          | (MalformedKnown, l1) \<Rightarrow> Inr (SeederFrame None, st1\<lparr>line := []\<rparr>, l1, d)
          | (Unknown op, l1) \<Rightarrow>
              (case push_literal st1 REQ_MAGIC of
                 (Some ln, st2) \<Rightarrow> Inr (DeviceLine ln, st2\<lparr>deferred := Some op\<rparr>, l1, d)
               | (None, st2) \<Rightarrow> (case accept_unframed st2 op of (ev, st3) \<Rightarrow> Inr (ev, st3, l1, d))))
       else
         (case push_text st1 (REQ_MAGIC ! 0) of
            (Some ln, st2) \<Rightarrow> Inr (DeviceLine ln, st2\<lparr>deferred := Some b\<rparr>, l, d)
          | (None, st2) \<Rightarrow> (case accept_unframed st2 b of (ev, st3) \<Rightarrow> Inr (ev, st3, l, d)))
     else (case accept_unframed st b of (ev, st1) \<Rightarrow> Inr (ev, st1, l, d)))"

definition pump :: "host \<Rightarrow> seeder_core \<Rightarrow> bool \<Rightarrow> stream_state \<Rightarrow> link \<Rightarrow> disk \<Rightarrow> pump_result" where
  "pump h core verbose st l d =
    (case deferred st of
       Some b \<Rightarrow> pump_byte h core verbose b (st\<lparr>deferred := None\<rparr>) l d
     | None \<Rightarrow>
         (case read_byte l of
            (Got b, l1) \<Rightarrow> pump_byte h core verbose b st l1 d
          | (Timeout, l1) \<Rightarrow> Inr (NoByte, st, l1, d)
          | (Closed, l1) \<Rightarrow> Inr (LinkClosed, st, l1, d)))"

section \<open>Every event makes progress\<close>

text \<open>Reading takes a prefix of the input and writes nothing.\<close>

definition consumes :: "link \<Rightarrow> link \<Rightarrow> bool" where
  "consumes l l' \<longleftrightarrow> (\<exists>n. l_in l' = drop n (l_in l)) \<and> l_out l' = l_out l \<and> l_broken l' = l_broken l"

lemma consumes_refl [simp]: "consumes l l"
  by (auto simp: consumes_def intro: exI [of _ 0])

lemma consumes_trans [trans]: "consumes l l1 \<Longrightarrow> consumes l1 l2 \<Longrightarrow> consumes l l2"
  by (auto simp: consumes_def)

lemma consumes_le: "consumes l l' \<Longrightarrow> length (l_in l') \<le> length (l_in l)"
  by (auto simp: consumes_def)

lemma read_byte_consumes: "read_byte l = (x, l') \<Longrightarrow> consumes l l'"
  by (auto simp: read_byte_def consumes_def split: list.splits intro: exI [of _ 0] exI [of _ 1])

lemma read_byte_less: "read_byte l = (x, l') \<Longrightarrow> x \<noteq> Closed \<Longrightarrow> length (l_in l') < length (l_in l)"
  by (auto simp: read_byte_def split: list.splits)

lemma read_frame_bytes_consumes: "read_frame_bytes l n = (r, l') \<Longrightarrow> consumes l l'"
proof (induction n arbitrary: l r l')
  case (Suc n)
  then show ?case
    by (auto simp: read_frame_bytes.simps split: prod.splits byte_read.splits
        dest!: read_byte_consumes intro: consumes_trans)
qed (simp add: read_frame_bytes.simps)

lemma read_frame_bytes_length: "read_frame_bytes l n = (Some bs, l') \<Longrightarrow> length bs = n"
  by (induction n arbitrary: l bs l')
    (auto simp: read_frame_bytes.simps split: prod.splits byte_read.splits)

lemma read_frame_bytes_less: "read_frame_bytes l (Suc n) = (Some bs, l') \<Longrightarrow> length (l_in l') < length (l_in l)"
  by (auto simp: read_frame_bytes.simps split: prod.splits byte_read.splits
      dest!: read_byte_less read_frame_bytes_consumes consumes_le)

lemma read_checksum_consumes: "read_checksum l op args = (r, l') \<Longrightarrow> consumes l l'"
  by (auto simp: read_checksum_def dest!: read_frame_bytes_consumes split: prod.splits option.splits list.splits)

lemma read_write_data_consumes: "read_write_data l args = (r, l') \<Longrightarrow> consumes l l'"
  by (auto simp: read_write_data_def Let_def dest!: read_frame_bytes_consumes split: prod.splits if_splits)

lemmas read_consumes = read_frame_bytes_consumes read_checksum_consumes read_write_data_consumes

lemma read_request_consumes: "read_request l = (r, l') \<Longrightarrow> consumes l l'"
  unfolding read_request_def
  by (elim prod.splits [THEN iffD1, elim_format])
    (auto split: prod.splits option.splits list.splits if_splits dest!: read_consumes intro: consumes_trans)

lemma read_request_unknown: "read_request l = (Unknown op, l') \<Longrightarrow> length (l_in l') < length (l_in l)"
  by (auto simp: read_request_def read_checksum_def dest!: read_frame_bytes_less [of _ 0, simplified]
      split: prod.splits option.splits list.splits if_splits)

text \<open>What is read as a valid request has the argument lengths the handler relies on.\<close>

lemma read_checksum_valid: "read_checksum l op args = (Valid op' args', l') \<Longrightarrow> op' = op \<and> args' = args"
  by (auto simp: read_checksum_def split: prod.splits option.splits list.splits if_splits)

lemma read_write_data_length:
  assumes "read_write_data l args = (Some args', l')" and "length args = 10"
  shows "length args' = 10 + unat (u16_le [args' ! 8, args' ! 9])" and "unat (u16_le [args' ! 8, args' ! 9]) \<le> WRITE_MAX"
  using assms by (auto simp: read_write_data_def Let_def nth_append dest!: read_frame_bytes_length
      split: if_splits prod.splits)

lemma read_request_valid:
  assumes "read_request l = (Valid op args, l')"
  shows "request_ok op args"
proof -
  from assms obtain hdr args0 l1 l2 where h: "request_header_len op = Some hdr"
    and a: "read_frame_bytes l1 hdr = (Some args0, l2)"
    and r: "if op = OP_WRITE then \<exists>l3. read_write_data l2 args0 = (Some args, l3) else args = args0"
    by (auto simp: read_request_def dest!: read_checksum_valid
        split: prod.splits option.splits list.splits if_splits)
  note len = read_frame_bytes_length [OF a]
  show ?thesis
  proof (cases "op = OP_WRITE")
    case True
    then have "hdr = 10" using h by (simp add: request_lens)
    with r True len obtain l3 where "read_write_data l2 args0 = (Some args, l3)" "length args0 = 10" by auto
    from read_write_data_length [OF this] show ?thesis
      using True h \<open>hdr = 10\<close> by (simp add: request_ok_def)
  next
    case False
    then show ?thesis using r h len by (simp add: request_ok_def)
  qed
qed

lemma request_log_no_panic: "request_ok op args \<Longrightarrow> \<exists>log. request_log op args status payload = Inr log"
  using request_lengths [of op args]
  by (auto simp: request_log_def Let_def idx_ok rd_u32_ok request_lens)

lemma answer_request_ok:
  assumes "request_ok op args"
  shows "\<exists>status payload log d'. answer_request h core verbose op args l d = Inr (log, send_response l op status payload, d') \<and>
    handle h core d op args = Inr (Some (status, payload), d')"
proof -
  obtain status payload d' where h: "handle h core d op args = Inr (Some (status, payload), d')"
    using handle_replies [OF assms] by blast
  moreover obtain log where "request_log op args status payload = Inr log"
    using request_log_no_panic [OF assms] by blast
  ultimately show ?thesis by (auto simp: answer_request_def Let_def)
qed

definition stream_size :: "stream_state \<Rightarrow> link \<Rightarrow> nat" where
  "stream_size st l =
    4 * length (l_in l) + (if deferred st \<noteq> None then 2 else 0) + (if pending_m st then 1 else 0)"

text \<open>The only writes are responses.\<close>

definition is_response :: "bytes \<Rightarrow> bool" where
  "is_response f \<longleftrightarrow> (\<exists>op status payload. f = response_frame op status payload)"

definition responds :: "link \<Rightarrow> link \<Rightarrow> bool" where
  "responds l l' \<longleftrightarrow> (\<exists>n. l_in l' = drop n (l_in l)) \<and> l_broken l' = l_broken l \<and>
    (\<exists>fs. l_out l' = l_out l @ fs \<and> length fs \<le> 1 \<and> (\<forall>f \<in> set fs. is_response f))"

lemma consumes_responds: "consumes l l' \<Longrightarrow> responds l l'"
  by (auto simp: consumes_def responds_def)

lemma send_response_simps [simp]:
  "l_in (send_response l op status payload) = l_in l"
  "l_broken (send_response l op status payload) = l_broken l"
  by (auto simp: send_response_def write_all_def split: option.splits)

lemma send_response_responds: "consumes l l1 \<Longrightarrow> responds l (send_response l1 op status payload)"
  by (auto simp: consumes_def responds_def send_response_def write_all_def is_response_def split: option.splits)

lemma push_text_fields: "push_text st b = (r, st') \<Longrightarrow> pending_m st' = pending_m st \<and> deferred st' = deferred st"
  by (auto simp: push_text_def Let_def split: if_splits)

lemma push_literal_from_fields:
  "push_literal_from st e bs = (r, st') \<Longrightarrow> pending_m st' = pending_m st \<and> deferred st' = deferred st"
  by (induction st e bs rule: push_literal_from.induct) (auto dest: push_text_fields split: prod.splits option.splits)

lemma accept_unframed_fields: "accept_unframed st b = (ev, st') \<Longrightarrow> deferred st' = deferred st \<and> ev \<noteq> LinkClosed"
  by (auto simp: accept_unframed_def dest: push_text_fields split: if_splits prod.splits option.splits)

lemma stream_size_simps:
  "stream_size st l \<le> 4 * length (l_in l) + (if deferred st \<noteq> None then 2 else 0) + 1"
  by (simp add: stream_size_def)

lemma pump_byte_ok:
  assumes "deferred st = None"
  shows "\<exists>ev st' l' d'. pump_byte h core verbose b st l d = Inr (ev, st', l', d') \<and> responds l l' \<and> ev \<noteq> LinkClosed \<and>
    stream_size st' l' \<le> 4 * length (l_in l) + (if pending_m st then 2 else 1)"
proof (cases "pending_m st")
  case False
  then show ?thesis
    using assms accept_unframed_fields [of st b]
    by (cases "accept_unframed st b") (auto simp: pump_byte_def consumes_responds stream_size_def)
next
  case pend: True
  let ?st1 = "st\<lparr>pending_m := False\<rparr>"
  show ?thesis
  proof (cases "b = REQ_MAGIC ! 1")
    case True
    obtain r l1 where r: "read_request l = (r, l1)" by (cases "read_request l")
    note c = read_request_consumes [OF r]
    note le = consumes_le [OF c]
    show ?thesis
    proof (cases r)
      case (Valid op args)
      then have ok: "request_ok op args" using r read_request_valid by simp
      obtain status payload log d' where
        "answer_request h core verbose op args l1 d = Inr (log, send_response l1 op status payload, d')"
        using answer_request_ok [OF ok] by blast
      then show ?thesis
        using pend True r Valid assms c le by (simp add: pump_byte_def send_response_responds stream_size_def)
    next
      case MalformedKnown
      then show ?thesis
        using pend True r assms c le by (simp add: pump_byte_def consumes_responds stream_size_def)
    next
      case (Unknown op)
      then have lt: "length (l_in l1) < length (l_in l)" using r read_request_unknown by simp
      obtain e st2 where p: "push_literal ?st1 REQ_MAGIC = (e, st2)" by (cases "push_literal ?st1 REQ_MAGIC")
      have f: "pending_m st2 = False \<and> deferred st2 = None"
        using push_literal_from_fields [OF p [unfolded push_literal_def]] assms by simp
      show ?thesis
        using pend True r Unknown p f c lt accept_unframed_fields [of st2 op]
        by (cases e; cases "accept_unframed st2 op") (auto simp: pump_byte_def consumes_responds stream_size_def)
    qed
  next
    case False
    obtain e st2 where p: "push_text ?st1 (REQ_MAGIC ! 0) = (e, st2)" by (cases "push_text ?st1 (REQ_MAGIC ! 0)")
    have f: "pending_m st2 = False \<and> deferred st2 = None"
      using push_text_fields [OF p] assms by simp
    show ?thesis
      using pend False p f accept_unframed_fields [of st2 b]
      by (cases e; cases "accept_unframed st2 b") (auto simp: pump_byte_def consumes_responds stream_size_def)
  qed
qed

lemma pump_ok:
  "\<exists>ev st' l' d'. pump h core verbose st l d = Inr (ev, st', l', d') \<and> responds l l' \<and>
    (ev = LinkClosed \<or> stream_size st' l' < stream_size st l)"
proof (cases "deferred st")
  case (Some b)
  then show ?thesis
    using pump_byte_ok [of "st\<lparr>deferred := None\<rparr>" h core verbose b l d]
    by (auto simp: pump_def stream_size_def [of st l] split: if_splits)
next
  case None
  obtain x l1 where x: "read_byte l = (x, l1)" by (cases "read_byte l")
  note c = read_byte_consumes [OF x]
  show ?thesis
  proof (cases x)
    case (Got b)
    obtain ev st' l' d' where p: "pump_byte h core verbose b st l1 d = Inr (ev, st', l', d')" "responds l1 l'"
      "stream_size st' l' \<le> 4 * length (l_in l1) + (if pending_m st then 2 else 1)"
      using pump_byte_ok [OF None, of h core verbose b l1 d] by blast
    have "responds l l'" using c p(2) by (auto simp: consumes_def responds_def)
    moreover have "stream_size st' l' < stream_size st l"
      using read_byte_less [OF x] Got p(3) by (auto simp: stream_size_def [of st l] split: if_splits)
    ultimately show ?thesis using None x Got p(1) by (simp add: pump_def)
  next
    case Timeout
    then show ?thesis using None x c read_byte_less [OF x] by (simp add: pump_def consumes_responds stream_size_def)
  next
    case Closed
    then show ?thesis using None x c by (simp add: pump_def consumes_responds)
  qed
qed

lemma pump_less: "pump h core verbose st l d = Inr (ev, st', l', d') \<Longrightarrow> ev \<noteq> LinkClosed \<Longrightarrow> stream_size st' l' < stream_size st l"
  using pump_ok [of h core verbose st l d] by auto

end
