(* ===== verification/Mota_Session.thy ===== *)
theory Mota_Session
  imports Mota_Stream
begin

text \<open>
  The loops over the event pump of \<open>Mota_Stream\<close>: \<open>serve_loop\<close>, the attach handshake of \<open>src/serve.rs\<close>
  (\<open>attach_serial_folder\<close>, with its policy, its retries and its reply classification), the detach command,
  and the session that \<open>cmd_serve\<close> of \<open>src/main.rs\<close> makes of them. A session never panics, always ends,
  writes only enable commands, well-formed responses and one disable command, and sends no console text
  once binary frames have been seen.
\<close>

section \<open>The serving loop\<close>

text \<open>
  \<open>serve_loop\<close>: query \<open>k\<close> of the stop flag is \<open>stop k\<close>. The result lists the lines given to \<open>devline\<close>.
\<close>

definition event_line :: "pump_event \<Rightarrow> bytes list" where
  "event_line ev = (case ev of DeviceLine ln \<Rightarrow> [ln] | SeederFrame (Some log) \<Rightarrow> [log] | _ \<Rightarrow> [])"

function serve_loop ::
  "host \<Rightarrow> seeder_core \<Rightarrow> bool \<Rightarrow> (nat \<Rightarrow> bool) \<Rightarrow> nat \<Rightarrow> stream_state \<Rightarrow> link \<Rightarrow> disk \<Rightarrow> bytes list \<Rightarrow>
    (bytes list \<times> link \<times> disk) result"
where
  "serve_loop h core verbose stop k st l d lines =
    (if stop k then Inr (lines, l, d)
     else case pump h core verbose st l d of
       Inl e \<Rightarrow> Inl e
     | Inr (ev, st', l', d') \<Rightarrow>
         if ev = LinkClosed then Inr (lines, l', d')
         else serve_loop h core verbose stop (k + 1) st' l' d' (lines @ event_line ev))"
  by pat_completeness auto
termination
  by (relation "measure (\<lambda>(h, core, verbose, stop, k, st, l, d, lines). stream_size st l)")
    (auto dest: pump_less)

declare serve_loop.simps [simp del]

section \<open>Attaching\<close>

definition FOLDER_ON :: bytes where "FOLDER_ON = ascii ''ota folder on'' @ [13, 10]"
definition FOLDER_OFF :: bytes where "FOLDER_OFF = ascii ''ota folder off'' @ [13, 10]"

record attach_policy =
  settle :: nat
  retry_after :: nat
  timeout :: nat
  max_attempts :: nat

text \<open>The default policy in milliseconds. The settling delay passes before the first query of the clock.\<close>

definition SERIAL_OPEN_SETTLE :: nat where [mota_const]: "SERIAL_OPEN_SETTLE = 750"
definition ATTACH_RETRY_AFTER :: nat where [mota_const]: "ATTACH_RETRY_AFTER = 2000"
definition ATTACH_TIMEOUT :: nat where [mota_const]: "ATTACH_TIMEOUT = 12000"
definition ATTACH_MAX_ATTEMPTS :: nat where [mota_const]: "ATTACH_MAX_ATTEMPTS = 3"

definition default_policy :: attach_policy where
  "default_policy = \<lparr>settle = SERIAL_OPEN_SETTLE, retry_after = ATTACH_RETRY_AFTER, timeout = ATTACH_TIMEOUT,
     max_attempts = ATTACH_MAX_ATTEMPTS\<rparr>"

text \<open>A command to the console is written and flushed; the message of the step that failed, if any.\<close>

definition send_console :: "string \<Rightarrow> bytes \<Rightarrow> link \<Rightarrow> string option \<times> link" where
  "send_console what text l =
    (case write_all l text of
       None \<Rightarrow> (Some (''sending '' @ what), l)
     | Some l1 \<Rightarrow> (if l_stuck l1 then Some (''flushing '' @ what) else None, l1))"

definition send_folder_on :: "link \<Rightarrow> string option \<times> link" where
  "send_folder_on l = send_console ''`ota folder on`'' FOLDER_ON l"

definition detach_serial_folder :: "link \<Rightarrow> string option \<times> link" where
  "detach_serial_folder l = send_console ''`ota folder off`'' FOLDER_OFF l"

lemma send_console_link:
  "l_in (snd (send_console what text l)) = l_in l" "l_broken (snd (send_console what text l)) = l_broken l"
  "l_stuck (snd (send_console what text l)) = l_stuck l"
  "l_out (snd (send_console what text l)) = l_out l @ (if l_broken l then [] else [text])"
  "fst (send_console what text l) = None \<longleftrightarrow> \<not> l_broken l \<and> \<not> l_stuck l"
  "l_broken l \<Longrightarrow> snd (send_console what text l) = l"
  by (simp_all add: send_console_def write_all_def)

lemma send_folder_on_broken: "l_broken l \<Longrightarrow> send_folder_on l = (failure, l') \<Longrightarrow> l' = l"
  using send_console_link(6) [of l "''`ota folder on`''" FOLDER_ON] by (simp add: send_folder_on_def)

lemma send_folder_on_failure:
  "send_folder_on l = (Some msg, l') \<Longrightarrow> msg = ''sending `ota folder on`'' \<or> msg = ''flushing `ota folder on`''"
  by (auto simp: send_folder_on_def send_console_def split: option.splits if_splits)

text \<open>\<open>strip_prefix\<close> and \<open>trim_start\<close>; a Latin-1 character is white space as \<open>char::is_whitespace\<close> says.\<close>

definition strip_prefix :: "bytes \<Rightarrow> bytes \<Rightarrow> bytes option" where
  "strip_prefix p s = (if take (length p) s = p then Some (drop (length p) s) else None)"

definition is_whitespace :: "u8 \<Rightarrow> bool" where
  "is_whitespace c \<longleftrightarrow> (9 \<le> c \<and> c \<le> 13) \<or> c = 32 \<or> c = 0x85 \<or> c = 0xA0"

definition normalize_console_reply :: "bytes \<Rightarrow> bytes" where
  "normalize_console_reply ln =
    (let s = dropWhile is_whitespace ln in
     case strip_prefix (ascii ''-> '') s of None \<Rightarrow> s | Some rest \<Rightarrow> rest)"

definition has_reply_prefix :: "bytes \<Rightarrow> bytes \<Rightarrow> bool" where
  "has_reply_prefix ln prefix =
    (case strip_prefix prefix ln of
       None \<Rightarrow> False
     | Some rest \<Rightarrow> rest = [] \<or> take 1 rest = [32] \<or> take 1 rest = [58])"

definition is_attach_ok :: "bytes \<Rightarrow> bool" where
  "is_attach_ok ln \<longleftrightarrow> has_reply_prefix ln (ascii ''OK folder attached'') \<or>
    has_reply_prefix ln (ascii ''OK folder refreshed'')"

definition is_attach_err :: "bytes \<Rightarrow> bool" where
  "is_attach_err reply \<longleftrightarrow> reply = ascii ''ERR'' \<or> strip_prefix (ascii ''ERR '') reply \<noteq> None \<or>
    strip_prefix (ascii ''ERR:'') reply \<noteq> None"

datatype attach_outcome = Attached | Failed string

type_synonym attach_result = "(attach_outcome \<times> bytes list \<times> link \<times> disk) result"

text \<open>What a line of the console decides.\<close>

definition line_verdict :: "pump_event \<Rightarrow> attach_outcome option" where
  "line_verdict ev =
    (case ev of
       DeviceLine ln \<Rightarrow>
         let reply = normalize_console_reply ln in
         if is_attach_ok reply then Some Attached
         else if is_attach_err reply then Some (Failed ''node rejected `ota folder on`'')
         else None
     | _ \<Rightarrow> None)"

text \<open>Iteration \<open>k\<close> asks the clock twice, as queries \<open>2 k + 1\<close> and \<open>2 k + 2\<close>; query 0 is the start time.\<close>

function attach_loop ::
  "host \<Rightarrow> seeder_core \<Rightarrow> bool \<Rightarrow> (nat \<Rightarrow> bool) \<Rightarrow> (nat \<Rightarrow> nat) \<Rightarrow> attach_policy \<Rightarrow> nat \<Rightarrow>
    nat \<Rightarrow> nat \<Rightarrow> nat \<Rightarrow> bool \<Rightarrow> stream_state \<Rightarrow> link \<Rightarrow> disk \<Rightarrow> bytes list \<Rightarrow> attach_result"
where
  "attach_loop h core verbose stop clock policy deadline k attempts retry_at protocol_seen st l d lines =
    (if stop (k + 1) then Inr (Failed ''interrupted while enabling the serial folder source'', lines, l, d)
     else if deadline \<le> clock (2 * k + 1) then
       Inr (Failed ''timed out waiting for `OK folder attached`'', lines, l, d)
     else case pump h core verbose st l d of
       Inl e \<Rightarrow> Inl e
     | Inr (ev, st', l', d') \<Rightarrow>
         if ev = LinkClosed then Inr (Failed ''serial link closed while enabling the folder source'', lines, l', d')
         else let lines' = lines @ event_line ev; seen = (protocol_seen \<or> (\<exists>log. ev = SeederFrame log)) in
           case line_verdict ev of
             Some outcome \<Rightarrow> Inr (outcome, lines', l', d')
           | None \<Rightarrow>
               let now = clock (2 * k + 2) in
               if \<not> seen \<and> \<not> pending_m st' \<and> attempts < max_attempts policy \<and> retry_at \<le> now then
                 (case send_folder_on l' of
                    (Some msg, l'') \<Rightarrow> Inr (Failed msg, lines', l'', d')
                  | (None, l'') \<Rightarrow> attach_loop h core verbose stop clock policy deadline (k + 1) (attempts + 1)
                      (now + retry_after policy) seen st' l'' d' lines')
               else attach_loop h core verbose stop clock policy deadline (k + 1) attempts retry_at seen st' l' d' lines')"
  by pat_completeness auto
termination
proof (relation "measure (\<lambda>(h, core, verbose, stop, clock, policy, deadline, k, attempts, retry_at, seen, st, l, d, lines). stream_size st l)")
qed (auto dest!: pump_less arg_cong [of _ _ "\<lambda>x. l_in (snd x)"] simp: send_folder_on_def send_console_link stream_size_def split: if_splits)

declare attach_loop.simps [simp del]

definition attach_serial_folder_with_policy ::
  "host \<Rightarrow> seeder_core \<Rightarrow> bool \<Rightarrow> (nat \<Rightarrow> bool) \<Rightarrow> (nat \<Rightarrow> nat) \<Rightarrow> attach_policy \<Rightarrow> link \<Rightarrow> disk \<Rightarrow> attach_result"
where
  "attach_serial_folder_with_policy h core verbose stop clock policy l d =
    (if stop 0 then Inr (Failed ''interrupted before enabling the serial folder source'', [], l, d)
     else case send_folder_on l of
       (Some msg, l1) \<Rightarrow> Inr (Failed msg, [], l1, d)
     | (None, l1) \<Rightarrow> attach_loop h core verbose stop clock policy (clock 0 + timeout policy) 0 1
         (clock 0 + retry_after policy) False stream_default l1 d [])"

definition attach_serial_folder ::
  "host \<Rightarrow> seeder_core \<Rightarrow> bool \<Rightarrow> (nat \<Rightarrow> bool) \<Rightarrow> (nat \<Rightarrow> nat) \<Rightarrow> link \<Rightarrow> disk \<Rightarrow> attach_result"
where
  "attach_serial_folder h core verbose stop clock l d =
    attach_serial_folder_with_policy h core verbose stop clock default_policy l d"

text \<open>
  The end of \<open>cmd_serve\<close>, from the attach handshake on. The stop flag and the clock of the serving loop are
  queried after those of the handshake, so they are separate functions.
\<close>

definition serve_session ::
  "host \<Rightarrow> seeder_core \<Rightarrow> bool \<Rightarrow> bool \<Rightarrow> (nat \<Rightarrow> bool) \<Rightarrow> (nat \<Rightarrow> nat) \<Rightarrow> (nat \<Rightarrow> bool) \<Rightarrow> link \<Rightarrow> disk \<Rightarrow>
    (string option \<times> bytes list \<times> link \<times> disk) result"
where
  "serve_session h core verbose enable stop clock stop2 l d =
    bindr (if enable then attach_serial_folder h core verbose stop clock l d else Inr (Attached, [], l, d))
      (\<lambda>(outcome, lines, l1, d1).
    case outcome of
      Failed msg \<Rightarrow>
        Inr (Some msg, lines, snd (detach_serial_folder l1), d1)
    | Attached \<Rightarrow>
        bindr (serve_loop h core verbose stop2 0 stream_default l1 d1 lines) (\<lambda>(lines2, l2, d2).
        if enable then
          (case detach_serial_folder l2 of (failure, l3) \<Rightarrow> Inr (failure, lines2, l3, d2))
        else Inr (None, lines2, l2, d2)))"

section \<open>What a session writes\<close>

lemma is_response_checked: "is_response f \<Longrightarrow> take 2 f = RSP_MAGIC \<and> xor_bytes f 0 = 0"
  by (auto simp: is_response_def response_frame_def Let_def xor_bytes_def RSP_MAGIC_def)

text \<open>Frames are written in answer to requests only, and a link keeps working or keeps failing.\<close>

lemma answer_writes:
  assumes "answer_request h core verbose op args l d = Inr (log, l', d')"
  shows "\<exists>rs. l_out l' = l_out l @ rs \<and> (\<forall>f \<in> set rs. is_response f) \<and> (l_broken l \<longrightarrow> rs = [])"
proof -
  have "l' = l \<or> (\<exists>status payload. l' = send_response l op status payload)"
    using assms by (fastforce simp: answer_request_def Let_def split: option.splits prod.splits)
  then show ?thesis
    by (auto simp: send_response_def write_all_def is_response_def split: option.splits if_splits)
qed

definition frames_of :: "link \<Rightarrow> link \<Rightarrow> pump_event \<Rightarrow> bytes list \<Rightarrow> bool" where
  "frames_of l l' ev rs \<longleftrightarrow> l_out l' = l_out l @ rs \<and> l_broken l' = l_broken l \<and> (\<forall>f \<in> set rs. is_response f) \<and>
    (l_broken l \<longrightarrow> rs = []) \<and> (rs \<noteq> [] \<longrightarrow> (\<exists>log. ev = SeederFrame log))"

lemma frames_consume: "consumes l l' \<Longrightarrow> frames_of l l' ev []"
  by (simp add: frames_of_def consumes_def)

lemma answer_broken: "answer_request h core verbose op args l d = Inr (log, l', d') \<Longrightarrow> l_broken l' = l_broken l"
  by (auto simp: answer_request_def Let_def split: option.splits prod.splits)

lemma pump_byte_frames:
  assumes "pump_byte h core verbose b st l d = Inr (ev, st', l', d')"
  shows "\<exists>rs. frames_of l l' ev rs"
proof (cases "consumes l l'")
  case True
  then show ?thesis using frames_consume by blast
next
  case False
  have "\<exists>op args l1 log. consumes l l1 \<and> answer_request h core verbose op args l1 d = Inr (log, l', d') \<and> ev = SeederFrame log"
    using assms False
    by (auto simp: pump_byte_def Let_def dest: read_request_consumes
        split: if_splits option.splits prod.splits request_read.splits)
  then obtain op args l1 log where c: "consumes l l1" and a: "answer_request h core verbose op args l1 d = Inr (log, l', d')"
    and ev: "ev = SeederFrame log" by blast
  from answer_writes [OF a] answer_broken [OF a] c ev show ?thesis by (auto simp: consumes_def frames_of_def)
qed

lemma pump_frames:
  assumes "pump h core verbose st l d = Inr (ev, st', l', d')"
  shows "\<exists>rs. frames_of l l' ev rs"
proof (cases "deferred st")
  case (Some b)
  with assms show ?thesis by (auto simp: pump_def dest: pump_byte_frames)
next
  case None
  obtain x l1 where x: "read_byte l = (x, l1)" by (cases "read_byte l")
  note c = read_byte_consumes [OF x]
  show ?thesis
  proof (cases x)
    case (Got b)
    with assms None x have "pump_byte h core verbose b st l1 d = Inr (ev, st', l', d')" by (simp add: pump_def)
    from pump_byte_frames [OF this] c show ?thesis by (auto simp: frames_of_def consumes_def)
  qed (use assms None x c frames_consume in \<open>auto simp: pump_def\<close>)
qed

definition responses_only :: "link \<Rightarrow> link \<Rightarrow> bool" where
  "responses_only l l' \<longleftrightarrow> l_broken l' = l_broken l \<and>
    (\<exists>rs. l_out l' = l_out l @ rs \<and> (\<forall>f \<in> set rs. is_response f) \<and> (l_broken l \<longrightarrow> rs = []))"

lemma frames_responses: "frames_of l l' ev rs \<Longrightarrow> responses_only l l'"
  by (auto simp: frames_of_def responses_only_def)

lemma responses_refl: "responses_only l l"
  by (simp add: responses_only_def)

lemma responses_trans [trans]: "responses_only l l1 \<Longrightarrow> responses_only l1 l2 \<Longrightarrow> responses_only l l2"
  by (fastforce simp: responses_only_def)

lemma serve_loop_end:
  "stop k \<Longrightarrow> serve_loop h core verbose stop k st l d lines = Inr (lines, l, d)"
  "\<not> stop k \<Longrightarrow> pump h core verbose st l d = Inr (LinkClosed, st1, l1, d1) \<Longrightarrow>
    serve_loop h core verbose stop k st l d lines = Inr (lines, l1, d1)"
  by (subst serve_loop.simps, simp)+

lemma serve_loop_step:
  "\<not> stop k \<Longrightarrow> pump h core verbose st l d = Inr (ev, st1, l1, d1) \<Longrightarrow> ev \<noteq> LinkClosed \<Longrightarrow>
    serve_loop h core verbose stop k st l d lines = serve_loop h core verbose stop (k + 1) st1 l1 d1 (lines @ event_line ev)"
  by (subst serve_loop.simps, simp)

lemma serve_loop_ok:
  "\<exists>lines' l' d'. serve_loop h core verbose stop k st l d lines = Inr (lines', l', d') \<and> responses_only l l'"
proof (induction h core verbose stop k st l d lines rule: serve_loop.induct)
  case (1 h core verbose stop k st l d lines)
  obtain ev st1 l1 d1 where p: "pump h core verbose st l d = Inr (ev, st1, l1, d1)"
    using pump_ok [of h core verbose st l d] by blast
  obtain rs where "frames_of l l1 ev rs" using pump_frames [OF p] by blast
  note r = frames_responses [OF this]
  consider "stop k" | "\<not> stop k" "ev = LinkClosed" | "\<not> stop k" "ev \<noteq> LinkClosed" by blast
  then show ?case
  proof cases
    case 1
    then show ?thesis using responses_refl by (auto simp: serve_loop_end)
  next
    case 2
    then show ?thesis using p r by (auto simp: serve_loop_end)
  next
    case 3
    then show ?thesis
      using "1.IH" [OF 3(1) p refl refl refl 3(2)] responses_trans [OF r] by (auto simp: serve_loop_step [where stop = stop and k = k, OF 3(1) p 3(2)])
  qed
qed

text \<open>
  Inside the handshake: what is appended is a run of enable commands, only while no frame has been seen,
  then responses.
\<close>

definition handshake_out :: "nat \<Rightarrow> bool \<Rightarrow> link \<Rightarrow> link \<Rightarrow> bool" where
  "handshake_out budget seen l l' \<longleftrightarrow> l_broken l' = l_broken l \<and>
    (\<exists>n rs. l_out l' = l_out l @ replicate n FOLDER_ON @ rs \<and> (\<forall>f \<in> set rs. is_response f) \<and>
      n \<le> budget \<and> (seen \<longrightarrow> n = 0) \<and> (l_broken l \<longrightarrow> n = 0 \<and> rs = []))"

lemma handshake_refl: "handshake_out budget seen l l"
  by (auto simp: handshake_out_def)

lemma handshake_frames:
  "frames_of l l1 ev rs \<Longrightarrow> handshake_out budget (seen \<or> (\<exists>log. ev = SeederFrame log)) l1 l' \<Longrightarrow> handshake_out budget seen l l'"
  by (fastforce simp: handshake_out_def frames_of_def)

lemma handshake_retry:
  assumes "frames_of l l1 ev rs" and "\<not> (\<exists>log. ev = SeederFrame log)" and "\<not> seen" and "\<not> l_broken l1" and l2: "send_folder_on l1 = (failure, l2)"
    and "handshake_out budget False l2 l'"
  shows "handshake_out (Suc budget) seen l l'"
proof -
  have w: "l_out l2 = l_out l1 @ [FOLDER_ON]" "l_broken l2 = l_broken l1"
    using l2 send_console_link(2,4) [of "''`ota folder on`''" FOLDER_ON l1] assms(4) by (simp_all add: send_folder_on_def)
  from assms(6) obtain n rs' where n: "l_out l' = l_out l2 @ replicate n FOLDER_ON @ rs'" "\<forall>f \<in> set rs'. is_response f"
    "n \<le> budget" "l_broken l' = l_broken l2" by (auto simp: handshake_out_def)
  have "l_out l' = l_out l @ replicate (Suc n) FOLDER_ON @ rs'"
    using assms(1,2) n(1) w(1) by (auto simp: frames_of_def)
  moreover have "l_broken l' = l_broken l" "\<not> l_broken l"
    using assms(1,4) n(4) w(2) by (auto simp: frames_of_def)
  ultimately show ?thesis using n(2,3) assms(3)
    unfolding handshake_out_def by (intro conjI exI [of _ "Suc n"] exI [of _ rs']) auto
qed

lemma attach_loop_ok:
  "\<exists>outcome lines' l' d'.
    attach_loop h core verbose stop clock policy deadline k attempts retry_at seen st l d lines = Inr (outcome, lines', l', d') \<and>
    handshake_out (max_attempts policy - attempts) seen l l'"
proof (induction h core verbose stop clock policy deadline k attempts retry_at seen st l d lines rule: attach_loop.induct)
  case (1 h core verbose stop clock policy deadline k attempts retry_at seen st l d lines)
  obtain ev st1 l1 d1 where p: "pump h core verbose st l d = Inr (ev, st1, l1, d1)"
    using pump_ok [of h core verbose st l d] by blast
  obtain rs where f: "frames_of l l1 ev rs" using pump_frames [OF p] by blast
  let ?seen = "seen \<or> (\<exists>log. ev = SeederFrame log)"
  let ?b = "max_attempts policy - attempts"
  have stay: "handshake_out ?b seen l l1"
    using handshake_frames [OF f handshake_refl] .
  show ?case
  proof (cases "stop (k + 1) \<or> deadline \<le> clock (2 * k + 1) \<or> ev = LinkClosed \<or> line_verdict ev \<noteq> None")
    case True
    then show ?thesis using p stay handshake_refl [of ?b seen l]
      by (subst attach_loop.simps) (auto simp: Let_def)
  next
    case False
    then have go: "\<not> stop (k + 1)" "\<not> deadline \<le> clock (2 * k + 1)" "ev \<noteq> LinkClosed" "line_verdict ev = None" by auto
    show ?thesis
    proof (cases "\<not> ?seen \<and> \<not> pending_m st1 \<and> attempts < max_attempts policy \<and> retry_at \<le> clock (2 * k + 2)")
      case retry: True
      show ?thesis
      proof (cases "send_folder_on l1")
        case (Pair failure l2)
        have eq: "Suc (max_attempts policy - (attempts + 1)) = ?b" using retry by linarith
        show ?thesis
        proof (cases failure)
          case None
          have "\<not> l_broken l1" using Pair None send_console_link(5) [of "''`ota folder on`''" FOLDER_ON l1] by (simp add: send_folder_on_def)
          with "1.IH"(1) [OF go(1,2) p refl refl refl go(3) refl refl go(4) refl retry Pair [symmetric] None]
            handshake_retry [OF f _ _ _ Pair, of seen "max_attempts policy - (attempts + 1)"]
          show ?thesis by (subst attach_loop.simps) (use go retry p Pair None eq in \<open>auto simp: Let_def\<close>)
        next
          case (Some msg)
          have "handshake_out ?b seen l l2"
          proof (cases "l_broken l1")
            case True
            then show ?thesis using send_folder_on_broken [OF _ Pair] stay by simp
          next
            case False
            then show ?thesis
              using handshake_retry [OF f _ _ False Pair handshake_refl, of seen "max_attempts policy - (attempts + 1)"] retry eq by simp
          qed
          then show ?thesis using go retry p Pair Some by (subst attach_loop.simps) (simp add: Let_def)
        qed
      qed
    next
      case wait: False
      show ?thesis
        using "1.IH"(2) [OF go(1,2) p refl refl refl go(3) refl refl go(4) refl wait] handshake_frames [OF f]
        by (subst attach_loop.simps) (use go wait p in \<open>auto simp: Let_def\<close>)
    qed
  qed
qed

section \<open>The outcome of the handshake\<close>

text \<open>What each outcome is backed by: a line of the node, or the clock.\<close>

definition backed :: "(nat \<Rightarrow> nat) \<Rightarrow> nat \<Rightarrow> attach_outcome \<Rightarrow> bytes list \<Rightarrow> bool" where
  "backed clock deadline outcome lines \<longleftrightarrow>
    (outcome = Attached \<longrightarrow> lines \<noteq> [] \<and> is_attach_ok (normalize_console_reply (last lines))) \<and>
    (outcome = Failed ''node rejected `ota folder on`'' \<longrightarrow>
      lines \<noteq> [] \<and> is_attach_err (normalize_console_reply (last lines))) \<and>
    (outcome = Failed ''timed out waiting for `OK folder attached`'' \<longrightarrow> (\<exists>k. deadline \<le> clock (2 * k + 1)))"

lemma verdict_backed:
  "line_verdict ev = Some outcome \<Longrightarrow> backed clock deadline outcome (lines @ event_line ev)"
  by (auto simp: line_verdict_def backed_def event_line_def Let_def split: pump_event.splits if_splits)

lemma attach_loop_backed:
  "attach_loop h core verbose stop clock policy deadline k attempts retry_at seen st l d lines = Inr (outcome, lines', l', d') \<Longrightarrow>
    backed clock deadline outcome lines'"
proof (induction h core verbose stop clock policy deadline k attempts retry_at seen st l d lines rule: attach_loop.induct)
  case (1 h core verbose stop clock policy deadline k attempts retry_at seen st l d lines)
  obtain ev st1 l1 d1 where p: "pump h core verbose st l d = Inr (ev, st1, l1, d1)"
    using pump_ok [of h core verbose st l d] by blast
  let ?seen = "seen \<or> (\<exists>log. ev = SeederFrame log)"
  show ?case
  proof (cases "stop (k + 1) \<or> deadline \<le> clock (2 * k + 1) \<or> ev = LinkClosed \<or> line_verdict ev \<noteq> None")
    case True
    then consider "stop (k + 1) \<or> deadline \<le> clock (2 * k + 1) \<or> ev = LinkClosed"
      | x where "\<not> (stop (k + 1) \<or> deadline \<le> clock (2 * k + 1) \<or> ev = LinkClosed)" "line_verdict ev = Some x" by auto
    then show ?thesis
    proof cases
      case 1
      then show ?thesis using "1.prems" p
        by (subst (asm) attach_loop.simps) (auto simp: Let_def backed_def split: if_splits)
    next
      case 2
      then have "outcome = x \<and> lines' = lines @ event_line ev" using "1.prems" p
        by (subst (asm) attach_loop.simps) (simp add: Let_def)
      then show ?thesis using verdict_backed [OF 2(2)] by simp
    qed
  next
    case False
    then have go: "\<not> stop (k + 1)" "\<not> deadline \<le> clock (2 * k + 1)" "ev \<noteq> LinkClosed" "line_verdict ev = None" by auto
    show ?thesis
    proof (cases "\<not> ?seen \<and> \<not> pending_m st1 \<and> attempts < max_attempts policy \<and> retry_at \<le> clock (2 * k + 2)")
      case retry: True
      show ?thesis
      proof (cases "send_folder_on l1")
        case (Pair failure l2)
        show ?thesis
        proof (cases failure)
          case None
          from "1.prems" show ?thesis
            by (intro "1.IH"(1) [OF go(1,2) p refl refl refl go(3) refl refl go(4) refl retry Pair [symmetric] None])
              (use go retry p Pair None in \<open>subst (asm) attach_loop.simps, simp add: Let_def\<close>)
        next
          case (Some msg)
          then have "outcome = Failed msg" using "1.prems" go retry p Pair
            by (subst (asm) attach_loop.simps) (auto simp: Let_def)
          then show ?thesis using send_folder_on_failure [of l1 msg l2] Pair Some by (auto simp: backed_def)
        qed
      qed
    next
      case wait: False
      from "1.prems" show ?thesis
        by (intro "1.IH"(2) [OF go(1,2) p refl refl refl go(3) refl refl go(4) refl wait])
          (use go wait p in \<open>subst (asm) attach_loop.simps, auto simp: Let_def\<close>)
    qed
  qed
qed

lemma attach_ok:
  "\<exists>outcome lines l' d'. attach_serial_folder_with_policy h core verbose stop clock policy l d = Inr (outcome, lines, l', d') \<and>
    handshake_out (Suc (max_attempts policy - 1)) False l l' \<and> backed clock (clock 0 + timeout policy) outcome lines"
proof (cases "stop 0")
  case True
  then show ?thesis using handshake_refl by (auto simp: attach_serial_folder_with_policy_def backed_def)
next
  case False
  show ?thesis
  proof (cases "send_folder_on l")
    case (Pair failure l1)
    have e: "frames_of l l Activity []" by (rule frames_consume) simp
    show ?thesis
    proof (cases failure)
      case (Some msg)
      have "handshake_out (Suc (max_attempts policy - 1)) False l l1"
      proof (cases "l_broken l")
        case True
        then show ?thesis using send_folder_on_broken [OF _ Pair] handshake_refl by simp
      next
        case False
        show ?thesis by (rule handshake_retry [OF e _ _ False Pair handshake_refl]) simp_all
      qed
      moreover have "backed clock deadline (Failed msg) []" for deadline
        using send_folder_on_failure [of l msg l1] Pair Some by (auto simp: backed_def)
      ultimately show ?thesis using False Pair Some by (simp add: attach_serial_folder_with_policy_def)
    next
      case None
      have b: "\<not> l_broken l" using Pair None send_console_link(5) [of "''`ota folder on`''" FOLDER_ON l] by (simp add: send_folder_on_def)
      obtain outcome lines l' d' where
        r: "attach_loop h core verbose stop clock policy (clock 0 + timeout policy) 0 1 (clock 0 + retry_after policy) False
          stream_default l1 d [] = Inr (outcome, lines, l', d')"
        and o: "handshake_out (max_attempts policy - 1) False l1 l'"
        using attach_loop_ok [of h core verbose stop clock policy "clock 0 + timeout policy" 0 1 "clock 0 + retry_after policy" False stream_default l1 d "[]"]
        by blast
      from handshake_retry [OF e _ _ b Pair o] attach_loop_backed [OF r] r Pair None False show ?thesis
        by (simp add: attach_serial_folder_with_policy_def)
    qed
  qed
qed

lemma detach_out: "l_out (snd (detach_serial_folder l)) = l_out l @ (if l_broken l then [] else [FOLDER_OFF])"
  by (simp add: detach_serial_folder_def send_console_link)

definition transcript :: "bool \<Rightarrow> link \<Rightarrow> link \<Rightarrow> bool" where
  "transcript enable l l' \<longleftrightarrow>
    (\<exists>n rs. l_out l' = l_out l @ (if l_broken l then [] else replicate n FOLDER_ON @ rs @ (if enable then [FOLDER_OFF] else [])) \<and>
      n \<le> 3 \<and> (\<not> enable \<longrightarrow> n = 0) \<and> (\<forall>f \<in> set rs. is_response f))"

lemma transcript_detach:
  assumes "handshake_out 3 False l l1"
  shows "transcript True l (snd (detach_serial_folder l1))"
  using assms by (auto simp: handshake_out_def transcript_def detach_out)

lemma handshake_serve: "handshake_out b False l l1 \<Longrightarrow> responses_only l1 l2 \<Longrightarrow> handshake_out b False l l2"
  by (fastforce simp: handshake_out_def responses_only_def)

lemma serve_session_ok:
  "\<exists>outcome lines l' d'. serve_session h core verbose enable stop clock stop2 l d = Inr (outcome, lines, l', d') \<and>
    transcript enable l l'"
proof -
  obtain res lines l1 d1 where a: "(if enable then attach_serial_folder h core verbose stop clock l d else Inr (Attached, [], l, d)) =
      Inr (res, lines, l1, d1)"
    and o: "handshake_out (if enable then 3 else 0) False l l1"
  proof (cases enable)
    case True
    then show thesis using that attach_ok [of h core verbose stop clock default_policy l d]
      by (auto simp: attach_serial_folder_def default_policy_def mota_const)
  qed (use that handshake_refl in auto)
  show ?thesis
  proof (cases res)
    case (Failed msg)
    then have "enable" using a by (auto split: if_splits)
    then show ?thesis using a o Failed transcript_detach [of l l1] by (simp add: serve_session_def)
  next
    case Attached
    obtain lines2 l2 d2 where s: "serve_loop h core verbose stop2 0 stream_default l1 d1 lines = Inr (lines2, l2, d2)"
      and r: "responses_only l1 l2"
      using serve_loop_ok [of h core verbose stop2 0 stream_default l1 d1 lines] by blast
    note o2 = handshake_serve [OF o r]
    show ?thesis
    proof (cases enable)
      case True
      then show ?thesis using a s Attached o2 transcript_detach [of l l2]
        by (cases "detach_serial_folder l2") (auto simp: serve_session_def)
    next
      case False
      then have "transcript False l l2" using o2 by (auto simp: handshake_out_def transcript_def)
      then show ?thesis using a s Attached False by (simp add: serve_session_def)
    qed
  qed
qed

section \<open>A request on the wire\<close>

lemma read_frame_bytes_got:
  "l_in l = map Got bs @ rest \<Longrightarrow> read_frame_bytes l (length bs) = (Some bs, l\<lparr>l_in := rest\<rparr>)"
proof (induction bs arbitrary: l)
  case (Cons b bs)
  then have "read_frame_bytes (l\<lparr>l_in := map Got bs @ rest\<rparr>) (length bs) = (Some bs, l\<lparr>l_in := rest\<rparr>)"
    by simp
  with Cons.prems show ?case by (simp add: read_frame_bytes.simps read_byte_def)
qed (auto simp: read_frame_bytes.simps)

lemma read_checksum_got:
  assumes "l_in l = Got x # rest"
  shows "read_checksum l op args = ((if x = xor_bytes args op then Valid op args else MalformedKnown), l\<lparr>l_in := rest\<rparr>)"
  using read_frame_bytes_got [of l "[x]" rest] assms by (simp add: read_checksum_def)

lemma read_write_data_got:
  assumes "10 \<le> length args" and "length args = 10 + unat (u16_le [args ! 8, args ! 9])" and "length args - 10 \<le> WRITE_MAX"
    and "l_in l = map Got (drop 10 args) @ rest"
  shows "read_write_data l (take 10 args) = (Some args, l\<lparr>l_in := rest\<rparr>)"
proof -
  have n: "unat (u16_le [args ! 8, args ! 9]) = length (drop 10 args)" using assms(2) by simp
  have le: "\<not> WRITE_MAX < length (drop 10 args)" using assms(3) by simp
  show ?thesis
  proof (cases "drop 10 args = []")
    case True
    then show ?thesis using assms(1,4) n le by (auto simp: read_write_data_def Let_def)
  next
    case False
    then have "0 < length (drop 10 args)" by simp
    then show ?thesis using assms(1) n le read_frame_bytes_got [OF assms(4)]
      by (simp add: read_write_data_def Let_def del: length_drop)
  qed
qed

lemma read_request_got:
  assumes "request_ok op args" and "l_in l = map Got ([op] @ args @ [x]) @ rest"
  shows "read_request l = ((if x = xor_bytes args op then Valid op args else MalformedKnown), l\<lparr>l_in := rest\<rparr>)"
proof -
  from assms(1) obtain n where n: "request_header_len op = Some n" "n \<le> length args"
    "length args = n + (if op = OP_WRITE then unat (u16_le [args ! 8, args ! 9]) else 0)" "length args - n \<le> WRITE_MAX"
    by (auto simp: request_ok_def)
  let ?l1 = "l\<lparr>l_in := map Got (args @ [x]) @ rest\<rparr>"
  let ?l2 = "l\<lparr>l_in := map Got (drop n args @ [x]) @ rest\<rparr>"
  let ?l3 = "l\<lparr>l_in := Got x # rest\<rparr>"
  have a: "read_frame_bytes l 1 = (Some [op], ?l1)"
    using read_frame_bytes_got [of l "[op]" "map Got (args @ [x]) @ rest"] assms(2) by simp
  have "map Got (args @ [x]) @ rest = map Got (take n args) @ map Got (drop n args @ [x]) @ rest"
    by (metis append.assoc append_take_drop_id map_append)
  then have b: "read_frame_bytes ?l1 n = (Some (take n args), ?l2)"
    using read_frame_bytes_got [of ?l1 "take n args" "map Got (drop n args @ [x]) @ rest"] n(2) by simp
  show ?thesis
  proof (cases "op = OP_WRITE")
    case True
    then have "n = 10" using n(1) by (simp add: request_lens)
    then have "read_write_data ?l2 (take 10 args) = (Some args, ?l3)"
      using read_write_data_got [of args ?l2 "Got x # rest"] n True by simp
    then show ?thesis using a b n(1) True \<open>n = 10\<close> read_checksum_got [of ?l3 x rest op args]
      by (simp add: read_request_def)
  next
    case False
    then have "n = length args" using n(3) by simp
    then show ?thesis using a b n(1) False read_checksum_got [of ?l2 x rest op args]
      by (simp add: read_request_def)
  qed
qed

lemma req_magic: "REQ_MAGIC = [0x4D, 0x53]"
  by (simp add: REQ_MAGIC_def ascii_def)

text \<open>Two bytes of magic, then the request: two events.\<close>

definition pump2 :: "host \<Rightarrow> seeder_core \<Rightarrow> bool \<Rightarrow> stream_state \<Rightarrow> link \<Rightarrow> disk \<Rightarrow> pump_result" where
  "pump2 h core verbose st l d = bindr (pump h core verbose st l d) (\<lambda>(ev, st1, l1, d1). pump h core verbose st1 l1 d1)"

lemma pump2_frame:
  assumes "pending_m st = False" and "deferred st = None" and "l_in l = map Got (REQ_MAGIC @ [op] @ args @ [x]) @ rest"
  shows "pump2 h core verbose st l d =
    (case read_request (l\<lparr>l_in := map Got ([op] @ args @ [x]) @ rest\<rparr>) of
       (Valid op args, l1) \<Rightarrow> bindr (answer_request h core verbose op args l1 d) (\<lambda>(log, l2, d').
         Inr (SeederFrame log, st\<lparr>line := []\<rparr>, l2, d'))
     | (MalformedKnown, l1) \<Rightarrow> Inr (SeederFrame None, st\<lparr>line := []\<rparr>, l1, d)
     | (Unknown op, l1) \<Rightarrow>
         (case push_literal st REQ_MAGIC of
            (Some ln, st2) \<Rightarrow> Inr (DeviceLine ln, st2\<lparr>deferred := Some op\<rparr>, l1, d)
          | (None, st2) \<Rightarrow> (case accept_unframed st2 op of (ev, st3) \<Rightarrow> Inr (ev, st3, l1, d))))"
proof -
  let ?l1 = "l\<lparr>l_in := map Got (drop 1 REQ_MAGIC @ [op] @ args @ [x]) @ rest\<rparr>"
  let ?l2 = "l\<lparr>l_in := map Got ([op] @ args @ [x]) @ rest\<rparr>"
  let ?st = "st\<lparr>pending_m := True\<rparr>"
  have "read_byte l = (Got (REQ_MAGIC ! 0), ?l1)" using assms(3) by (simp add: read_byte_def req_magic)
  then have 1: "pump h core verbose st l d = Inr (Activity, ?st, ?l1, d)"
    using assms(1,2) by (simp add: pump_def pump_byte_def accept_unframed_def)
  have "read_byte ?l1 = (Got (REQ_MAGIC ! 1), ?l2)" by (simp add: read_byte_def req_magic)
  moreover have "?st\<lparr>pending_m := False\<rparr> = st" using assms(1) by simp
  ultimately have 2: "pump h core verbose ?st ?l1 d = pump_byte h core verbose (REQ_MAGIC ! 1) ?st ?l2 d"
    using assms(2) by (simp add: pump_def)
  show ?thesis
    using \<open>?st\<lparr>pending_m := False\<rparr> = st\<close> by (simp add: pump2_def 1 2 [simplified] pump_byte_def Let_def)
qed

lemma pump2_request:
  assumes "request_ok op args" and "pending_m st = False" and "deferred st = None" and "\<not> l_broken l"
    and "l_in l = map Got (REQ_MAGIC @ [op] @ args @ [x]) @ rest"
  shows "\<exists>status payload d1 log. handle h core d op args = Inr (Some (status, payload), d1) \<and>
    pump2 h core verbose st l d =
      (if x = xor_bytes args op
       then Inr (SeederFrame log, st\<lparr>line := []\<rparr>, l\<lparr>l_in := rest, l_out := l_out l @ [response_frame op status payload]\<rparr>, d1)
       else Inr (SeederFrame None, st\<lparr>line := []\<rparr>, l\<lparr>l_in := rest\<rparr>, d))"
proof -
  let ?l = "l\<lparr>l_in := map Got ([op] @ args @ [x]) @ rest\<rparr>"
  have r: "read_request ?l = ((if x = xor_bytes args op then Valid op args else MalformedKnown), l\<lparr>l_in := rest\<rparr>)"
    using read_request_got [OF assms(1), of ?l x rest] by simp
  obtain status payload log d1 where
    "answer_request h core verbose op args (l\<lparr>l_in := rest\<rparr>) d = Inr (log, send_response (l\<lparr>l_in := rest\<rparr>) op status payload, d1)"
    "handle h core d op args = Inr (Some (status, payload), d1)"
    using answer_request_ok [OF assms(1)] by blast
  then show ?thesis
    using assms(4) unfolding pump2_frame [OF assms(2,3,5)] r
    by (auto simp: send_response_def write_all_def)
qed

section \<open>Console text\<close>

text \<open>The characters kept never exceed the bound, and neither does a line handed out, but for the last character.\<close>

lemma utf8_len_append [simp]: "utf8_len (xs @ ys) = utf8_len xs + utf8_len ys"
  by (simp add: utf8_len_def)

lemma utf8_len_single [simp]: "utf8_len [c] = (if c < 0x80 then 1 else 2)" "utf8_len [] = 0"
  by (simp_all add: utf8_len_def)

lemma utf8_len_trim: "utf8_len (trim_line_end cs) \<le> utf8_len cs"
proof -
  have d: "utf8_len (dropWhile p xs) \<le> utf8_len xs" for p xs
    by (induction xs) (auto simp: utf8_len_def)
  have r: "utf8_len (rev xs) = utf8_len xs" for xs by (simp add: utf8_len_def rev_map [symmetric])
  show ?thesis using d [of _ "rev cs"] by (simp add: trim_line_end_def r)
qed

definition short_line :: "stream_state \<Rightarrow> bool" where
  "short_line st \<longleftrightarrow> utf8_len (line st) \<le> 512"

definition short_event :: "pump_event \<Rightarrow> bool" where
  "short_event ev \<longleftrightarrow> (\<forall>ln. ev = DeviceLine ln \<longrightarrow> ln \<noteq> [] \<and> utf8_len ln \<le> 514)"

definition short_text :: "bytes option \<Rightarrow> bool" where
  "short_text r \<longleftrightarrow> (\<forall>ln. r = Some ln \<longrightarrow> ln \<noteq> [] \<and> utf8_len ln \<le> 514)"

lemma short_text_simps [simp]: "short_text None" "short_text (Some ln) \<longleftrightarrow> ln \<noteq> [] \<and> utf8_len ln \<le> 514"
  by (simp_all add: short_text_def)

lemma push_text_short:
  "push_text st b = (r, st') \<Longrightarrow> short_line st \<Longrightarrow>
    short_line st' \<and> short_text r"
  using utf8_len_trim [of "line st @ [b]"]
  by (auto simp: push_text_def short_line_def Let_def split: if_splits)

lemma push_literal_short:
  "push_literal_from st e bs = (r, st') \<Longrightarrow> short_line st \<Longrightarrow> short_text e \<Longrightarrow>
    short_line st' \<and> short_text r"
proof (induction bs arbitrary: st e)
  case (Cons b bs)
  obtain x st1 where p: "push_text st b = (x, st1)" by (cases "push_text st b")
  note s = push_text_short [OF p Cons.prems(2)]
  show ?case
  proof (cases x)
    case None
    then show ?thesis using Cons.IH [of st1 e] Cons.prems p s by simp
  next
    case (Some ln)
    then show ?thesis
      using Cons.IH [of st1 "case e of None \<Rightarrow> Some ln | Some e \<Rightarrow> Some e"] Cons.prems p s by (cases e) auto
  qed
qed simp

lemma accept_short: "accept_unframed st b = (ev, st') \<Longrightarrow> short_line st \<Longrightarrow> short_line st' \<and> short_event ev"
proof -
  assume a: "accept_unframed st b = (ev, st')" and s: "short_line st"
  obtain x st1 where p: "push_text st b = (x, st1)" by (cases "push_text st b")
  show ?thesis using a push_text_short [OF p s] s p
    by (cases x) (auto simp: accept_unframed_def short_event_def short_line_def split: if_splits)
qed

lemma short_fields [simp]:
  "short_line (st\<lparr>pending_m := b\<rparr>) = short_line st" "short_line (st\<lparr>deferred := x\<rparr>) = short_line st"
  "short_line (st\<lparr>line := []\<rparr>)"
  by (simp_all add: short_line_def)

lemma pump_byte_short:
  assumes "pump_byte h core verbose b st l d = Inr (ev, st', l', d')" and "short_line st"
  shows "short_line st' \<and> short_event ev"
proof -
  let ?st1 = "st\<lparr>pending_m := False\<rparr>"
  have s1: "short_line ?st1" using assms(2) by simp
  obtain x stx where x: "push_text ?st1 (REQ_MAGIC ! 0) = (x, stx)" by (cases "push_text ?st1 (REQ_MAGIC ! 0)")
  obtain y sty where y: "push_literal ?st1 REQ_MAGIC = (y, sty)" by (cases "push_literal ?st1 REQ_MAGIC")
  note sx = push_text_short [OF x s1]
  have sy: "short_line sty \<and> short_text y"
    using push_literal_short [OF y [unfolded push_literal_def] s1] by simp
  show ?thesis
  proof (cases "pending_m st")
    case False
    then show ?thesis using assms accept_short [of st b]
      by (cases "accept_unframed st b") (auto simp: pump_byte_def)
  next
    case p: True
    show ?thesis
    proof (cases "b = REQ_MAGIC ! 1")
      case True
      obtain r l1 where r: "read_request l = (r, l1)" by (cases "read_request l")
      show ?thesis
      proof (cases r)
        case (Unknown op)
        then show ?thesis using assms(1) p True r y sy accept_short [of sty op]
          by (cases y; cases "accept_unframed sty op") (auto simp: pump_byte_def Let_def short_event_def)
      qed (use assms(1) p True r in \<open>auto simp: pump_byte_def Let_def short_event_def\<close>)
    next
      case False
      then show ?thesis using assms(1) p x sx accept_short [of stx b]
        by (cases x; cases "accept_unframed stx b") (auto simp: pump_byte_def Let_def short_event_def)
    qed
  qed
qed

lemma pump_short:
  "pump h core verbose st l d = Inr (ev, st', l', d') \<Longrightarrow> short_line st \<Longrightarrow> short_line st' \<and> short_event ev"
  by (auto simp: pump_def short_event_def [of NoByte] short_event_def [of LinkClosed] dest: pump_byte_short
      split: option.splits prod.splits byte_read.splits)

end
