(* ===== verification/Mota_Hex.thy ===== *)
theory Mota_Hex
  imports Mota_Boards
begin

text \<open>
  Reading firmware: \<open>src/input.rs\<close>, and the region extraction of \<open>src/bootloader.rs\<close>
  (\<open>extract_bootloader_region_from_hex\<close>).

  Downloading, reading files and the record parser of the \<open>ihex\<close> crate are parameters (\<open>input_host\<close>).
  The parser gives the records of a text, \<open>None\<close> for a malformed one; a data record holds at most 255
  bytes, its length being one byte of the record. The unchecked additions of \<open>parse_intel_hex\<close> panic or
  wrap with the build profile, so the profile is an argument. The lemmas: when the extraction succeeds and with
  which image, which image the flat reader gives, and when it panics.
\<close>

section \<open>Records\<close>

datatype ihex_record =
    Data u16 bytes
  | EndOfFile
  | ExtendedSegmentAddress u16
  | StartSegmentAddress u16 u16
  | ExtendedLinearAddress u16
  | StartLinearAddress u32

record input_host =
  fetch_url :: "bytes \<Rightarrow> bytes option"
  read_file :: "bytes \<Rightarrow> bytes option"
  hex_reader :: "bytes \<Rightarrow> ihex_record option list"

text \<open>The base address that the two kinds of address records set.\<close>

definition linear_base :: "u16 \<Rightarrow> u32" where
  "linear_base upper = push_bit 16 (ucast upper)"

definition segment_base :: "u16 \<Rightarrow> u32" where
  "segment_base seg = push_bit 4 (ucast seg)"

section \<open>The bootloader region\<close>

definition checked_add32 :: "u32 \<Rightarrow> u32 \<Rightarrow> u32 option" where
  "checked_add32 a b = (if unat a + unat b < 2 ^ 32 then Some (a + b) else None)"

record extract_state =
  x_image :: bytes
  x_written :: "bool list"
  x_base :: u32
  x_saw_region_data :: bool
  x_saw_eof :: bool

text \<open>The inner loop: \<open>index\<close> runs to the end of the copied part.\<close>

fun copy_region :: "bytes \<Rightarrow> nat \<Rightarrow> nat \<Rightarrow> nat list \<Rightarrow> bytes \<Rightarrow> bool list \<Rightarrow> (bytes \<times> bool list) result" where
  "copy_region val source destination [] img written = Inr (img, written)"
| "copy_region val source destination (index # is) img written =
    bindr (idx val (source + index)) (\<lambda>byte.
    bindr (idx written (destination + index)) (\<lambda>w.
    bindr (idx img (destination + index)) (\<lambda>old.
    ensure (\<not> (w \<and> old \<noteq> byte)) ''conflicting Intel HEX data'' (
      copy_region val source destination is (img[destination + index := byte]) (written[destination + index := True])))))"

definition extract_data :: "extract_state \<Rightarrow> u16 \<Rightarrow> bytes \<Rightarrow> extract_state result" where
  "extract_data st offset val =
    bindr (of_opt ''Intel HEX data address overflow'' (checked_add32 (x_base st) (ucast offset))) (\<lambda>address.
    bindr (of_opt ''Intel HEX data range overflow'' (checked_add32 address (of_nat (length val)))) (\<lambda>fin.
    let copy_start = max address IMAGE_START;
        copy_end = min fin (IMAGE_START + of_nat IMAGE_SIZE) in
    if copy_start < copy_end then
      bindr (copy_region val (unat (copy_start - address)) (unat (copy_start - IMAGE_START))
          [0..<unat (copy_end - copy_start)] (x_image st) (x_written st)) (\<lambda>(img, written).
      Inr (st\<lparr>x_saw_region_data := True, x_image := img, x_written := written\<rparr>))
    else Inr st))"

fun extract_records :: "extract_state \<Rightarrow> ihex_record option list \<Rightarrow> extract_state result" where
  "extract_records st [] = Inr st"
| "extract_records st (item # items) =
    bindr (of_opt ''malformed Intel HEX record'' item) (\<lambda>r.
    case r of
      Data offset val \<Rightarrow> bindr (extract_data st offset val) (\<lambda>st1. extract_records st1 items)
    | ExtendedLinearAddress upper \<Rightarrow> extract_records (st\<lparr>x_base := linear_base upper\<rparr>) items
    | ExtendedSegmentAddress seg \<Rightarrow> extract_records (st\<lparr>x_base := segment_base seg\<rparr>) items
    | EndOfFile \<Rightarrow> Inr (st\<lparr>x_saw_eof := True\<rparr>)
    | StartSegmentAddress _ _ \<Rightarrow> extract_records st items
    | StartLinearAddress _ \<Rightarrow> extract_records st items)"

definition extract_start :: extract_state where
  "extract_start = \<lparr>x_image = replicate IMAGE_SIZE 0xFF, x_written = replicate IMAGE_SIZE False, x_base = 0,
     x_saw_region_data = False, x_saw_eof = False\<rparr>"

definition extract_bootloader_region_from_hex :: "input_host \<Rightarrow> bytes \<Rightarrow> bytes result" where
  "extract_bootloader_region_from_hex h bs =
    ensure (utf8_ok bs) ''Intel HEX is not valid UTF-8'' (
    bindr (extract_records extract_start (hex_reader h bs)) (\<lambda>st.
    ensure (x_saw_eof st) ''Intel HEX missing EOF record'' (
    ensure (x_saw_region_data st) ''Intel HEX contains no data in bootloader region'' (Inr (x_image st)))))"

section \<open>A whole image\<close>

text \<open>\<open>u32\<close> addition and subtraction, with or without overflow checks.\<close>

definition add32 :: "bool \<Rightarrow> u32 \<Rightarrow> u32 \<Rightarrow> u32 result" where
  "add32 checks a b = (if checks \<and> 2 ^ 32 \<le> unat a + unat b then Inl Panic else Inr (a + b))"

definition sub32 :: "bool \<Rightarrow> u32 \<Rightarrow> u32 \<Rightarrow> u32 result" where
  "sub32 checks a b = (if checks \<and> a < b then Inl Panic else Inr (a - b))"

record parse_state =
  i_base :: u32
  i_segments :: "(u32 \<times> bytes) list"
  i_lo :: u32
  i_hi :: u32
  i_saw_eof :: bool

definition parse_data :: "bool \<Rightarrow> parse_state \<Rightarrow> u16 \<Rightarrow> bytes \<Rightarrow> parse_state result" where
  "parse_data checks st offset val =
    bindr (add32 checks (i_base st) (ucast offset)) (\<lambda>addr.
    bindr (add32 checks addr (of_nat (length val))) (\<lambda>fin.
    Inr (st\<lparr>i_lo := min (i_lo st) addr, i_hi := max (i_hi st) fin, i_segments := i_segments st @ [(addr, val)]\<rparr>)))"

fun parse_records :: "bool \<Rightarrow> parse_state \<Rightarrow> ihex_record option list \<Rightarrow> parse_state result" where
  "parse_records checks st [] = Inr st"
| "parse_records checks st (item # items) =
    bindr (of_opt ''malformed Intel HEX record'' item) (\<lambda>r.
    case r of
      Data offset val \<Rightarrow> bindr (parse_data checks st offset val) (\<lambda>st1. parse_records checks st1 items)
    | ExtendedLinearAddress upper \<Rightarrow> parse_records checks (st\<lparr>i_base := linear_base upper\<rparr>) items
    | ExtendedSegmentAddress seg \<Rightarrow> parse_records checks (st\<lparr>i_base := segment_base seg\<rparr>) items
    | EndOfFile \<Rightarrow> Inr (st\<lparr>i_saw_eof := True\<rparr>)
    | StartSegmentAddress _ _ \<Rightarrow> parse_records checks st items
    | StartLinearAddress _ \<Rightarrow> parse_records checks st items)"

fun fill_segments :: "bool \<Rightarrow> u32 \<Rightarrow> (u32 \<times> bytes) list \<Rightarrow> bytes \<Rightarrow> bytes result" where
  "fill_segments checks lo [] out = Inr out"
| "fill_segments checks lo ((addr, data) # segs) out =
    bindr (sub32 checks addr lo) (\<lambda>pos.
    if unat pos + length data \<le> length out then fill_segments checks lo segs (put (unat pos) data out)
    else Inl Panic)"

definition parse_start :: parse_state where
  "parse_start = \<lparr>i_base = 0, i_segments = [], i_lo = 0xFFFFFFFF, i_hi = 0, i_saw_eof = False\<rparr>"

definition parse_intel_hex :: "bool \<Rightarrow> input_host \<Rightarrow> bytes \<Rightarrow> bytes result" where
  "parse_intel_hex checks h bs =
    ensure (utf8_ok bs) ''Intel HEX is not valid UTF-8'' (
    bindr (parse_records checks parse_start (hex_reader h bs)) (\<lambda>st.
    ensure (i_segments st \<noteq> []) ''no data records in Intel HEX'' (
    ensure (i_saw_eof st) ''Intel HEX missing EOF record'' (
    bindr (sub32 checks (i_hi st) (i_lo st)) (\<lambda>n.
    fill_segments checks (i_lo st) (i_segments st) (replicate (unat n) 0xFF))))))"

section \<open>Inputs\<close>

definition starts_with :: "bytes \<Rightarrow> bytes \<Rightarrow> bool" where
  "starts_with s p \<longleftrightarrow> take (length p) s = p"

definition ends_with :: "bytes \<Rightarrow> bytes \<Rightarrow> bool" where
  "ends_with s p \<longleftrightarrow> length p \<le> length s \<and> drop (length s - length p) s = p"

definition to_ascii_lowercase :: "bytes \<Rightarrow> bytes" where
  "to_ascii_lowercase s = map (\<lambda>b. if 65 \<le> b \<and> b \<le> 90 then b + 32 else b) s"

definition is_url :: "bytes \<Rightarrow> bool" where
  "is_url s \<longleftrightarrow> starts_with s (ascii ''http://'') \<or> starts_with s (ascii ''https://'')"

definition read_raw_input :: "input_host \<Rightarrow> bytes \<Rightarrow> bytes result" where
  "read_raw_input h src =
    bindr (if is_url src then of_opt ''downloading'' (fetch_url h src)
           else of_opt ''cannot read file'' (read_file h src)) (\<lambda>raw.
    ensure (raw \<noteq> []) ''input is empty'' (Inr raw))"

definition read_input :: "bool \<Rightarrow> input_host \<Rightarrow> bytes \<Rightarrow> bytes result" where
  "read_input checks h src =
    bindr (read_raw_input h src) (\<lambda>raw.
    if ends_with (to_ascii_lowercase src) (ascii ''.hex'')
    then context_msg ''parsing Intel HEX'' (parse_intel_hex checks h raw)
    else Inr raw)"

definition read_bootloader_hex :: "input_host \<Rightarrow> bytes \<Rightarrow> bytes result" where
  "read_bootloader_hex h src =
    bindr (read_raw_input h src) (\<lambda>raw.
    context_msg ''extracting OTAFIX bootloader region from Intel HEX'' (extract_bootloader_region_from_hex h raw))"

section \<open>What a record stream says\<close>

text \<open>The bytes it places, in order, up to the end record; and whether that end is reached without an error.\<close>

fun hex_cells :: "u32 \<Rightarrow> ihex_record option list \<Rightarrow> (nat \<times> u8) list" where
  "hex_cells base [] = []"
| "hex_cells base (None # items) = []"
| "hex_cells base (Some (Data offset val) # items) =
    zip [unat base + unat offset..<unat base + unat offset + length val] val @ hex_cells base items"
| "hex_cells base (Some (ExtendedLinearAddress upper) # items) = hex_cells (linear_base upper) items"
| "hex_cells base (Some (ExtendedSegmentAddress seg) # items) = hex_cells (segment_base seg) items"
| "hex_cells base (Some EndOfFile # items) = []"
| "hex_cells base (Some (StartSegmentAddress _ _) # items) = hex_cells base items"
| "hex_cells base (Some (StartLinearAddress _) # items) = hex_cells base items"

fun hex_wf :: "u32 \<Rightarrow> ihex_record option list \<Rightarrow> bool" where
  "hex_wf base [] = False"
| "hex_wf base (None # items) = False"
| "hex_wf base (Some (Data offset val) # items) =
    (unat base + unat offset + length val < 2 ^ 32 \<and> hex_wf base items)"
| "hex_wf base (Some (ExtendedLinearAddress upper) # items) = hex_wf (linear_base upper) items"
| "hex_wf base (Some (ExtendedSegmentAddress seg) # items) = hex_wf (segment_base seg) items"
| "hex_wf base (Some EndOfFile # items) = True"
| "hex_wf base (Some (StartSegmentAddress _ _) # items) = hex_wf base items"
| "hex_wf base (Some (StartLinearAddress _) # items) = hex_wf base items"

text \<open>The length byte of a record bounds its data.\<close>

text \<open>No data record read before the end of the file reaches the end of the address space.\<close>

fun hex_fits :: "u32 \<Rightarrow> ihex_record option list \<Rightarrow> bool" where
  "hex_fits base [] = True"
| "hex_fits base (None # items) = True"
| "hex_fits base (Some (Data offset val) # items) =
    (unat base + unat offset + length val < 2 ^ 32 \<and> hex_fits base items)"
| "hex_fits base (Some (ExtendedLinearAddress upper) # items) = hex_fits (linear_base upper) items"
| "hex_fits base (Some (ExtendedSegmentAddress seg) # items) = hex_fits (segment_base seg) items"
| "hex_fits base (Some EndOfFile # items) = True"
| "hex_fits base (Some (StartSegmentAddress _ _) # items) = hex_fits base items"
| "hex_fits base (Some (StartLinearAddress _) # items) = hex_fits base items"

lemma hex_wf_fits: "hex_wf base items \<Longrightarrow> hex_fits base items"
  by (induction base items rule: hex_wf.induct) simp_all

definition short_records :: "ihex_record option list \<Rightarrow> bool" where
  "short_records items \<longleftrightarrow> (\<forall>offset val. Some (Data offset val) \<in> set items \<longrightarrow> length val \<le> 255)"

lemma short_records_Cons [simp]:
  "short_records (x # items) \<longleftrightarrow> (\<forall>offset val. x = Some (Data offset val) \<longrightarrow> length val \<le> 255) \<and> short_records items"
  by (auto simp: short_records_def)

definition functional :: "(nat \<times> u8) list \<Rightarrow> bool" where
  "functional cs \<longleftrightarrow> (\<forall>i b b'. (i, b) \<in> set cs \<longrightarrow> (i, b') \<in> set cs \<longrightarrow> b = b')"

lemma functional_append: "functional (xs @ ys) \<Longrightarrow> functional xs"
  by (auto simp: functional_def)

definition region :: "(nat \<times> u8) list \<Rightarrow> (nat \<times> u8) list" where
  "region cs = map (\<lambda>(a, b). (a - 0xF4000, b)) (filter (\<lambda>(a, b). 0xF4000 \<le> a \<and> a < 0xFE000) cs)"

lemma region_append [simp]: "region (xs @ ys) = region xs @ region ys"
  by (simp add: region_def)

definition cell_state :: "(nat \<times> u8) list \<Rightarrow> bytes \<Rightarrow> bool list \<Rightarrow> bool" where
  "cell_state cs img written \<longleftrightarrow> length img = IMAGE_SIZE \<and> length written = IMAGE_SIZE \<and>
    (\<forall>i b. (i, b) \<in> set cs \<longrightarrow> i < IMAGE_SIZE \<and> written ! i \<and> img ! i = b) \<and>
    (\<forall>i < IMAGE_SIZE. (written ! i \<longrightarrow> i \<in> fst ` set cs) \<and> (\<not> written ! i \<longrightarrow> img ! i = 0xFF))"

lemma cell_state_functional: "cell_state cs img written \<Longrightarrow> functional cs"
  unfolding cell_state_def functional_def by blast

lemma cell_state_image:
  assumes "cell_state cs img written"
  shows "img = map (\<lambda>i. case map_of cs i of Some b \<Rightarrow> b | None \<Rightarrow> 0xFF) [0..<IMAGE_SIZE]"
proof (rule nth_equalityI)
  show "length img = length (map (\<lambda>i. case map_of cs i of Some b \<Rightarrow> b | None \<Rightarrow> 0xFF) [0..<IMAGE_SIZE])"
    using assms by (simp add: cell_state_def)
next
  fix i
  assume i: "i < length img"
  then have n: "i < IMAGE_SIZE" using assms by (simp add: cell_state_def)
  show "img ! i = map (\<lambda>i. case map_of cs i of Some b \<Rightarrow> b | None \<Rightarrow> 0xFF) [0..<IMAGE_SIZE] ! i"
  proof (cases "map_of cs i")
    case None
    then have "\<not> written ! i" using assms n by (auto simp: cell_state_def map_of_eq_None_iff)
    then show ?thesis using assms n None by (simp add: cell_state_def)
  next
    case (Some b)
    then show ?thesis using assms n map_of_SomeD [OF Some] by (simp add: cell_state_def)
  qed
qed

lemma cell_state_step:
  assumes "cell_state cs img written" and "i < IMAGE_SIZE"
  shows "written ! i \<and> img ! i \<noteq> b \<Longrightarrow> \<not> functional (cs @ [(i, b)])"
    and "\<not> (written ! i \<and> img ! i \<noteq> b) \<Longrightarrow> cell_state (cs @ [(i, b)]) (img[i := b]) (written[i := True])"
proof -
  assume w: "written ! i \<and> img ! i \<noteq> b"
  then have "i \<in> fst ` set cs" using assms by (simp only: cell_state_def)
  then obtain b' where b': "(i, b') \<in> set cs" by auto
  then have "img ! i = b'" using assms by (simp only: cell_state_def)
  with w b' show "\<not> functional (cs @ [(i, b)])" by (auto simp: functional_def)
next
  assume w: "\<not> (written ! i \<and> img ! i \<noteq> b)"
  have old: "j < IMAGE_SIZE \<and> written ! j \<and> img ! j = c" if "(j, c) \<in> set cs" for j c
    using assms(1) that by (simp add: cell_state_def)
  have len: "length img = IMAGE_SIZE" "length written = IMAGE_SIZE" using assms(1) by (simp_all add: cell_state_def)
  show "cell_state (cs @ [(i, b)]) (img[i := b]) (written[i := True])"
    unfolding cell_state_def
  proof (intro conjI allI impI)
    fix j c assume jc: "(j, c) \<in> set (cs @ [(i, b)])"
    then show "j < IMAGE_SIZE" "written[i := True] ! j" "img[i := b] ! j = c"
      using old [of j c] assms(2) w len by (auto simp: nth_list_update)
  next
    fix j assume j: "j < IMAGE_SIZE"
    have c: "written ! j \<longrightarrow> j \<in> fst ` set cs" "\<not> written ! j \<longrightarrow> img ! j = 0xFF"
      using assms(1) j by (simp_all add: cell_state_def)
    show "j \<in> fst ` set (cs @ [(i, b)])" if "written[i := True] ! j"
      using c(1) that len assms(2) j by (auto simp: nth_list_update split: if_splits)
    show "img[i := b] ! j = 0xFF" if "\<not> written[i := True] ! j"
      using c(2) that len assms(2) j by (auto simp: nth_list_update split: if_splits)
  qed (use len in simp_all)
qed

definition copied :: "bytes \<Rightarrow> nat \<Rightarrow> nat \<Rightarrow> nat list \<Rightarrow> (nat \<times> u8) list" where
  "copied val source destination ks = map (\<lambda>k. (destination + k, val ! (source + k))) ks"

lemma copy_region_ok:
  "cell_state cs img written \<Longrightarrow> \<forall>k \<in> set ks. source + k < length val \<and> destination + k < IMAGE_SIZE \<Longrightarrow>
    if functional (cs @ copied val source destination ks)
    then \<exists>img' written'. copy_region val source destination ks img written = Inr (img', written') \<and>
      cell_state (cs @ copied val source destination ks) img' written'
    else copy_region val source destination ks img written = Inl (Bail ''conflicting Intel HEX data'')"
proof (induction ks arbitrary: cs img written)
  case Nil
  then show ?case by (simp add: cell_state_functional copied_def)
next
  case (Cons k ks)
  let ?d = "destination + k" and ?b = "val ! (source + k)"
  have d: "?d < IMAGE_SIZE" and s: "source + k < length val" using Cons.prems(2) by simp_all
  have len: "length img = IMAGE_SIZE" "length written = IMAGE_SIZE" using Cons.prems(1) by (simp_all add: cell_state_def)
  have rd: "idx val (source + k) = Inr ?b" "idx written ?d = Inr (written ! ?d)" "idx img ?d = Inr (img ! ?d)"
    using d s len by (simp_all add: idx_ok)
  have c: "cs @ copied val source destination (k # ks) = (cs @ [(?d, ?b)]) @ copied val source destination ks"
    by (simp add: copied_def)
  show ?case
  proof (cases "written ! ?d \<and> img ! ?d \<noteq> ?b")
    case True
    then have "\<not> functional (cs @ copied val source destination (k # ks))"
      using cell_state_step(1) [OF Cons.prems(1) d] functional_append unfolding c by blast
    then show ?thesis using rd True by simp
  next
    case False
    have "cell_state (cs @ [(?d, ?b)]) (img[?d := ?b]) (written[?d := True])"
      using cell_state_step(2) [OF Cons.prems(1) d False] .
    from Cons.IH [OF this] Cons.prems(2) False rd show ?thesis unfolding c by (simp del: append_assoc)
  qed
qed

lemma zip_cells: "zip [a..<a + length v] v = map (\<lambda>k. (a + k, v ! k)) [0..<length v]"
  by (intro nth_equalityI) simp_all

lemma filter_upt: "s + n \<le> m \<Longrightarrow> filter (\<lambda>k. s \<le> k \<and> k < s + n) [0..<m] = [s..<s + n]"
proof -
  assume "s + n \<le> m"
  then have "[0..<m] = [0..<s] @ [s..<s + n] @ [s + n..<m]"
    by (metis le_add1 le_add_diff_inverse upt_add_eq_append zero_le add.commute add_0 append.assoc le_trans)
  then show ?thesis by (simp add: filter_id_conv filter_empty_conv)
qed

lemma region_cells:
  "region (zip [a..<a + length v] v) =
    copied v (max a 0xF4000 - a) (max a 0xF4000 - 0xF4000) [0..<min (a + length v) 0xFE000 - max a 0xF4000]"
proof -
  let ?s = "max a 0xF4000 - a" and ?n = "min (a + length v) 0xFE000 - max a 0xF4000"
  have f: "filter (\<lambda>k. 0xF4000 \<le> a + k \<and> a + k < 0xFE000) [0..<length v] = (if ?n = 0 then [] else [?s..<?s + ?n])"
  proof (cases "?n = 0")
    case True
    then show ?thesis by (auto simp: filter_empty_conv)
  next
    case False
    have "filter (\<lambda>k. 0xF4000 \<le> a + k \<and> a + k < 0xFE000) [0..<length v] = filter (\<lambda>k. ?s \<le> k \<and> k < ?s + ?n) [0..<length v]"
      using False by (intro filter_cong) auto
    also have "\<dots> = [?s..<?s + ?n]" using False by (intro filter_upt) auto
    finally show ?thesis using False by simp
  qed
  have "region (zip [a..<a + length v] v) =
      map (\<lambda>k. (a + k - 0xF4000, v ! k)) (filter (\<lambda>k. 0xF4000 \<le> a + k \<and> a + k < 0xFE000) [0..<length v])"
    by (simp add: region_def zip_cells filter_map o_def split_def)
  also have "\<dots> = copied v ?s (max a 0xF4000 - 0xF4000) [0..<?n]"
    unfolding f copied_def by (cases "?n = 0") (auto intro!: nth_equalityI simp: max_def)
  finally show ?thesis .
qed

text \<open>One data record.\<close>

lemma copied_nil [simp]: "copied val source destination [0..<0] = []"
  by (simp add: copied_def)

lemma checked_add32_Some:
  "unat a + unat b < 2 ^ 32 \<Longrightarrow> checked_add32 a b = Some (a + b) \<and> unat (a + b) = unat a + unat b"
  by (simp add: checked_add32_def unat_word_ariths)

lemma unat_offset: "unat (ucast (x :: u16) :: u32) = unat x"
  by transfer (simp add: take_bit_eq_mod)

lemma unat_max: "unat (max (a :: u32) b) = max (unat a) (unat b)"
  by (simp add: max_def word_le_nat_alt)

lemma unat_min: "unat (min (a :: u32) b) = min (unat a) (unat b)"
  by (simp add: min_def word_le_nat_alt)

text \<open>\<open>cell_state\<close> for the fields of the running state.\<close>

definition region_state :: "(nat \<times> u8) list \<Rightarrow> extract_state \<Rightarrow> bool" where
  "region_state cs st \<longleftrightarrow> cell_state cs (x_image st) (x_written st) \<and> (x_saw_region_data st \<longleftrightarrow> cs \<noteq> [])"

lemma region_state_base:
  "region_state cs (st\<lparr>x_base := b\<rparr>) \<longleftrightarrow> region_state cs st" "x_base (st\<lparr>x_base := b\<rparr>) = b"
  "x_saw_eof (st\<lparr>x_base := b\<rparr>) = x_saw_eof st"
  by (simp_all add: region_state_def)

lemma extract_data_ok:
  fixes st :: extract_state and offset :: u16 and val :: bytes
  assumes "region_state cs st" and "length val \<le> 255"
  defines "new \<equiv> region (zip [unat (x_base st) + unat offset..<unat (x_base st) + unat offset + length val] val)"
  shows "if unat (x_base st) + unat offset + length val < 2 ^ 32 \<and> functional (cs @ new)
    then \<exists>st'. extract_data st offset val = Inr st' \<and> region_state (cs @ new) st' \<and>
      x_base st' = x_base st \<and> x_saw_eof st' = x_saw_eof st
    else \<exists>msg. extract_data st offset val = Inl (Bail msg)"
proof (cases "unat (x_base st) + unat offset + length val < 2 ^ 32")
  case False
  note uo = unat_offset [of offset]
  have "unat (of_nat (length val) :: u32) = length val" using assms(2) by (simp add: unat_of_nat)
  then show ?thesis using False uo
    by (auto simp: extract_data_def checked_add32_def unat_word_ariths)
next
  case True
  let ?a = "x_base st + ucast offset :: u32"
  note uo = unat_offset [of offset]
  have ul: "unat (of_nat (length val) :: u32) = length val" using assms(2) by (simp add: unat_of_nat)
  have a: "checked_add32 (x_base st) (ucast offset) = Some ?a" "unat ?a = unat (x_base st) + unat offset"
    using checked_add32_Some [of "x_base st" "ucast offset"] True uo by auto
  let ?e = "?a + of_nat (length val)"
  have e: "checked_add32 ?a (of_nat (length val)) = Some ?e" "unat ?e = unat ?a + length val"
    using checked_add32_Some [of ?a "of_nat (length val)"] True ul a(2) by auto
  let ?s = "max ?a IMAGE_START" and ?t = "min ?e (IMAGE_START + of_nat IMAGE_SIZE)"
  have s: "unat ?s = max (unat ?a) 0xF4000" by (simp add: unat_max mota_const)
  have t: "unat ?t = min (unat ?a + length val) 0xFE000"
    using e(2) by (simp add: unat_min mota_const)
  have new: "new = copied val (unat ?s - unat ?a) (unat ?s - 0xF4000) [0..<unat ?t - unat ?s]"
    using region_cells [of "unat ?a" val] by (simp add: new_def s t a(2))
  have i: "unat IMAGE_START = 0xF4000" by (simp add: mota_const)
  have cond: "?s < ?t \<longleftrightarrow> unat ?s < unat ?t" by (simp add: word_less_nat_alt)
  show ?thesis
  proof (cases "?s < ?t")
    case False
    then have "unat ?t - unat ?s = 0" using cond by (metis diff_is_0_eq not_less)
    then have "new = []" using new copied_nil by metis
    then show ?thesis using True assms(1) False a e cell_state_functional
      by (auto simp: extract_data_def region_state_def Let_def)
  next
    case lt: True
    have d: "unat (?s - ?a) = unat ?s - unat ?a" "unat (?s - IMAGE_START) = unat ?s - 0xF4000" "unat (?t - ?s) = unat ?t - unat ?s"
      using unat_sub [OF max.cobounded1 [of ?a IMAGE_START]] unat_sub [OF max.cobounded2 [of IMAGE_START ?a]]
        unat_sub [OF less_imp_le [OF lt]] i by simp_all
    have ne: "new \<noteq> []" using new cond lt by (simp add: copied_def)
    have b: "\<forall>k \<in> set [0..<unat ?t - unat ?s]. unat ?s - unat ?a + k < length val \<and> unat ?s - 0xF4000 + k < IMAGE_SIZE"
      using s t by (auto simp: mota_const)
    have cs: "cell_state cs (x_image st) (x_written st)" using assms(1) by (simp add: region_state_def)
    note r = copy_region_ok [OF cs b, folded new]
    show ?thesis
    proof (cases "functional (cs @ new)")
      case f: True
      then obtain img' written' where c: "copy_region val (unat ?s - unat ?a) (unat ?s - 0xF4000) [0..<unat ?t - unat ?s]
          (x_image st) (x_written st) = Inr (img', written')" "cell_state (cs @ new) img' written'"
        using r by auto
      then show ?thesis using True f lt a(1) e(1) ne d
        by (simp add: extract_data_def region_state_def Let_def)
    next
      case False
      then show ?thesis using r lt a(1) e(1) d by (simp add: extract_data_def Let_def)
    qed
  qed
qed

lemma extract_records_ok:
  "region_state cs st \<Longrightarrow> short_records items \<Longrightarrow> \<not> x_saw_eof st \<Longrightarrow>
    if hex_wf (x_base st) items \<and> functional (cs @ region (hex_cells (x_base st) items))
    then \<exists>st'. extract_records st items = Inr st' \<and> x_saw_eof st' \<and> region_state (cs @ region (hex_cells (x_base st) items)) st'
    else (\<exists>msg. extract_records st items = Inl (Bail msg)) \<or> (\<exists>st'. extract_records st items = Inr st' \<and> \<not> x_saw_eof st')"
proof (induction items arbitrary: cs st)
  case (Cons item items)
  show ?case
  proof (cases item)
    case (Some r)
    show ?thesis
    proof (cases r)
      case (Data offset val)
      let ?new = "region (zip [unat (x_base st) + unat offset..<unat (x_base st) + unat offset + length val] val)"
      have l: "length val \<le> 255" using Cons.prems(2) Some Data by simp
      note x = extract_data_ok [OF Cons.prems(1) l, of offset]
      show ?thesis
      proof (cases "unat (x_base st) + unat offset + length val < 2 ^ 32 \<and> functional (cs @ ?new)")
        case True
        with x obtain st' where s: "extract_data st offset val = Inr st'" "region_state (cs @ ?new) st'"
            "x_base st' = x_base st" "x_saw_eof st' = x_saw_eof st" by auto
        from Cons.IH [OF s(2), unfolded append_assoc s(3)] s(1,4) Cons.prems True Some Data show ?thesis by simp
      next
        case False
        then have "\<not> (hex_wf (x_base st) (item # items) \<and> functional (cs @ region (hex_cells (x_base st) (item # items))))"
          using functional_append [of "cs @ ?new"] by (auto simp: Some Data)
        moreover obtain msg where "extract_data st offset val = Inl (Bail msg)" using x False by auto
        ultimately show ?thesis by (simp add: Some Data)
      qed
    next
      case (ExtendedSegmentAddress seg)
      from Cons.IH [of cs "st\<lparr>x_base := segment_base seg\<rparr>", unfolded region_state_base] Cons.prems show ?thesis
        by (simp add: Some ExtendedSegmentAddress)
    next
      case (ExtendedLinearAddress upper)
      from Cons.IH [of cs "st\<lparr>x_base := linear_base upper\<rparr>", unfolded region_state_base] Cons.prems show ?thesis
        by (simp add: Some ExtendedLinearAddress)
    next
      case EndOfFile
      then show ?thesis using Cons.prems cell_state_functional
        by (auto simp: Some region_state_def region_def)
    qed (use Cons.IH [of cs st] Cons.prems Some in simp_all)
  qed simp
qed simp

lemma start_state: "region_state [] extract_start"
  by (simp add: region_state_def extract_start_def cell_state_def)

lemma extract_exact:
  fixes h bs
  defines "items \<equiv> hex_reader h bs"
  defines "cells \<equiv> region (hex_cells 0 items)"
  assumes "short_records items"
  shows "extract_bootloader_region_from_hex h bs = Inr img \<longleftrightarrow>
    utf8_ok bs \<and> hex_wf 0 items \<and> functional cells \<and> cells \<noteq> [] \<and>
    img = map (\<lambda>i. case map_of cells i of Some b \<Rightarrow> b | None \<Rightarrow> 0xFF) [0..<IMAGE_SIZE]"
  and "extract_bootloader_region_from_hex h bs \<noteq> Inl Panic"
proof -
  have s: "x_base extract_start = 0" "\<not> x_saw_eof extract_start" by (simp_all add: extract_start_def)
  note r = extract_records_ok [OF start_state assms(3) s(2), unfolded s(1), folded cells_def, simplified]
  have "(extract_bootloader_region_from_hex h bs = Inr img \<longleftrightarrow>
    utf8_ok bs \<and> hex_wf 0 items \<and> functional cells \<and> cells \<noteq> [] \<and>
    img = map (\<lambda>i. case map_of cells i of Some b \<Rightarrow> b | None \<Rightarrow> 0xFF) [0..<IMAGE_SIZE]) \<and>
    extract_bootloader_region_from_hex h bs \<noteq> Inl Panic"
  proof (cases "hex_wf 0 items \<and> functional cells")
    case True
    with r obtain st' where e: "extract_records extract_start items = Inr st'" "x_saw_eof st'" "region_state cells st'"
      by auto
    have "x_image st' = map (\<lambda>i. case map_of cells i of Some b \<Rightarrow> b | None \<Rightarrow> 0xFF) [0..<IMAGE_SIZE]"
      using e(3) cell_state_image by (auto simp: region_state_def)
    then show ?thesis using True e
      by (auto simp: extract_bootloader_region_from_hex_def items_def region_state_def)
  next
    case False
    with r show ?thesis
      by (auto simp: extract_bootloader_region_from_hex_def items_def)
  qed
  then show "extract_bootloader_region_from_hex h bs = Inr img \<longleftrightarrow>
    utf8_ok bs \<and> hex_wf 0 items \<and> functional cells \<and> cells \<noteq> [] \<and>
    img = map (\<lambda>i. case map_of cells i of Some b \<Rightarrow> b | None \<Rightarrow> 0xFF) [0..<IMAGE_SIZE]"
    and "extract_bootloader_region_from_hex h bs \<noteq> Inl Panic" by simp_all
qed

lemma extract_length: "short_records (hex_reader h bs) \<Longrightarrow> extract_bootloader_region_from_hex h bs = Inr img \<Longrightarrow> length img = IMAGE_SIZE"
  by (simp add: extract_exact)

section \<open>The flat image\<close>

text \<open>The data records as segments; on a stream without overflow both build profiles agree.\<close>

fun hex_segments :: "u32 \<Rightarrow> ihex_record option list \<Rightarrow> (u32 \<times> bytes) list" where
  "hex_segments base [] = []"
| "hex_segments base (None # items) = []"
| "hex_segments base (Some (Data offset val) # items) = (base + ucast offset, val) # hex_segments base items"
| "hex_segments base (Some (ExtendedLinearAddress upper) # items) = hex_segments (linear_base upper) items"
| "hex_segments base (Some (ExtendedSegmentAddress seg) # items) = hex_segments (segment_base seg) items"
| "hex_segments base (Some EndOfFile # items) = []"
| "hex_segments base (Some (StartSegmentAddress _ _) # items) = hex_segments base items"
| "hex_segments base (Some (StartLinearAddress _) # items) = hex_segments base items"

definition seg_cells :: "(u32 \<times> bytes) list \<Rightarrow> (nat \<times> u8) list" where
  "seg_cells segs = concat (map (\<lambda>(a, v). zip [unat a..<unat a + length v] v) segs)"

definition seg_end :: "u32 \<times> bytes \<Rightarrow> u32" where
  "seg_end s = fst s + of_nat (length (snd s))"

definition segs_lo :: "(u32 \<times> bytes) list \<Rightarrow> u32" where
  "segs_lo segs = foldl min 0xFFFFFFFF (map fst segs)"

definition segs_hi :: "(u32 \<times> bytes) list \<Rightarrow> u32" where
  "segs_hi segs = foldl max 0 (map seg_end segs)"

lemma add32_ok: "unat a + unat b < 2 ^ 32 \<Longrightarrow> add32 checks a b = Inr (a + b)"
  by (simp add: add32_def)

lemma parse_data_ok:
  assumes b: "unat (i_base st) + unat offset + length val < 2 ^ 32"
  shows "parse_data checks st offset val =
    Inr (st\<lparr>i_lo := min (i_lo st) (i_base st + ucast offset),
      i_hi := max (i_hi st) (i_base st + ucast offset + of_nat (length val)),
      i_segments := i_segments st @ [(i_base st + ucast offset, val)]\<rparr>)"
proof -
  let ?a = "i_base st + ucast offset"
  have l: "unat (of_nat (length val) :: u32) = length val" using b by (simp add: unat_of_nat)
  have a: "add32 checks (i_base st) (ucast offset) = Inr ?a" using b by (intro add32_ok) (simp add: unat_offset)
  have ua: "unat ?a = unat (i_base st) + unat offset"
    using checked_add32_Some [of "i_base st" "ucast offset"] b by (simp add: unat_offset)
  have "add32 checks ?a (of_nat (length val)) = Inr (?a + of_nat (length val))"
    using b l ua by (intro add32_ok) simp
  then show ?thesis using a by (simp add: parse_data_def)
qed

lemma parse_records_ok:
  "hex_wf (i_base st) items \<Longrightarrow> short_records items \<Longrightarrow>
    \<exists>base. parse_records checks st items =
      Inr (st\<lparr>i_base := base, i_segments := i_segments st @ hex_segments (i_base st) items,
        i_lo := foldl min (i_lo st) (map fst (hex_segments (i_base st) items)),
        i_hi := foldl max (i_hi st) (map seg_end (hex_segments (i_base st) items)), i_saw_eof := True\<rparr>)"
proof (induction items arbitrary: st)
  case (Cons item items)
  show ?case
  proof (cases item)
    case (Some r)
    show ?thesis
    proof (cases r)
      case (Data offset val)
      let ?a = "i_base st + ucast offset"
      let ?st = "st\<lparr>i_lo := min (i_lo st) ?a, i_hi := max (i_hi st) (?a + of_nat (length val)),
        i_segments := i_segments st @ [(?a, val)]\<rparr>"
      have "unat (i_base st) + unat offset + length val < 2 ^ 32" using Cons.prems(1) by (simp add: Some Data)
      then have "parse_data checks st offset val = Inr ?st" by (rule parse_data_ok)
      moreover have "hex_wf (i_base ?st) items" "short_records items" using Cons.prems by (simp_all add: Some Data)
      note Cons.IH [OF this]
      ultimately show ?thesis by (simp add: Some Data seg_end_def)
    next
      case EndOfFile
      then show ?thesis by (intro exI [of _ "i_base st"]) (simp add: Some)
    next
      case (ExtendedSegmentAddress seg)
      from Cons.IH [of "st\<lparr>i_base := segment_base seg\<rparr>"] Cons.prems show ?thesis by (simp add: Some ExtendedSegmentAddress)
    next
      case (ExtendedLinearAddress upper)
      from Cons.IH [of "st\<lparr>i_base := linear_base upper\<rparr>"] Cons.prems show ?thesis by (simp add: Some ExtendedLinearAddress)
    qed (use Cons Some in simp_all)
  next
    case None
    then show ?thesis using Cons.prems by simp
  qed
qed simp

definition seg_fits :: "u32 \<Rightarrow> nat \<Rightarrow> u32 \<times> bytes \<Rightarrow> bool" where
  "seg_fits lo n s \<longleftrightarrow> lo \<le> fst s \<and> unat (fst s) - unat lo + length (snd s) \<le> n"

lemma fill_segments_ok:
  "\<forall>s \<in> set segs. seg_fits lo (length out) s \<Longrightarrow>
    \<exists>out'. fill_segments checks lo segs out = Inr out' \<and> length out' = length out \<and>
      (\<forall>k < length out. out' ! k = (case map_of (rev (seg_cells segs)) (unat lo + k) of Some b \<Rightarrow> b | None \<Rightarrow> out ! k))"
proof (induction segs arbitrary: out)
  case Nil
  then show ?case by (simp add: seg_cells_def)
next
  case (Cons s segs)
  obtain a v where s: "s = (a, v)" by (cases s)
  from Cons.prems have lo: "lo \<le> a" and fit: "unat a - unat lo + length v \<le> length out"
    by (simp_all add: s seg_fits_def)
  let ?p = "unat a - unat lo"
  have p: "sub32 checks a lo = Inr (a - lo)" "unat (a - lo) = ?p" using lo by (simp_all add: sub32_def unat_sub not_less)
  let ?out = "put ?p v out"
  have len: "length ?out = length out" using fit by simp
  from Cons.IH [of ?out] Cons.prems len obtain out' where
    r: "fill_segments checks lo segs ?out = Inr out'" "length out' = length out"
    "\<forall>k < length out. out' ! k = (case map_of (rev (seg_cells segs)) (unat lo + k) of Some b \<Rightarrow> b | None \<Rightarrow> ?out ! k)"
    by auto
  have la: "unat lo \<le> unat a" using lo by (simp add: word_le_nat_alt)
  have one: "?out ! k = (case map_of (rev (zip [unat a..<unat a + length v] v)) (unat lo + k) of Some b \<Rightarrow> b | None \<Rightarrow> out ! k)"
    if k: "k < length out" for k
  proof (cases "?p \<le> k \<and> k < ?p + length v")
    case True
    have d: "distinct (map fst (zip [unat a..<unat a + length v] v))" by simp
    have "(unat lo + k, v ! (k - ?p)) \<in> set (zip [unat a..<unat a + length v] v)"
      using True la by (auto simp: set_zip intro!: exI [of _ "k - ?p"])
    then have "map_of (rev (zip [unat a..<unat a + length v] v)) (unat lo + k) = Some (v ! (k - ?p))"
      using d by (simp add: rev_map [symmetric])
    then show ?thesis using True k fit by (simp add: nth_put)
  next
    case False
    then have "map_of (rev (zip [unat a..<unat a + length v] v)) (unat lo + k) = None"
      using la by (auto simp: map_of_eq_None_iff set_zip)
    then show ?thesis using False k fit by (auto simp: nth_put)
  qed
  have c: "rev (seg_cells (s # segs)) = rev (seg_cells segs) @ rev (zip [unat a..<unat a + length v] v)"
    by (simp add: seg_cells_def s)
  show ?case
  proof (intro exI [of _ out'] conjI allI impI)
    show "fill_segments checks lo (s # segs) out = Inr out'" using p fit r(1) by (simp add: s)
    show "length out' = length out" by (rule r(2))
    show "out' ! k = (case map_of (rev (seg_cells (s # segs))) (unat lo + k) of Some b \<Rightarrow> b | None \<Rightarrow> out ! k)"
      if "k < length out" for k
      using r(3) one [OF that] that by (auto simp: c map_add_def split: option.splits)
  qed
qed


lemma foldl_min_le: "foldl min (x :: u32) ys \<le> x" "y \<in> set ys \<Longrightarrow> foldl min x ys \<le> y"
proof (induction ys arbitrary: x)
  case (Cons z ys)
  { case 1 show ?case using Cons.IH(1) [of "min x z"] by simp }
  { case 2 then show ?case using Cons.IH(1) [of "min x z"] Cons.IH(2) [of "min x z"] by auto }
qed simp_all

lemma foldl_max_le: "(x :: u32) \<le> foldl max x ys" "y \<in> set ys \<Longrightarrow> y \<le> foldl max x ys"
proof (induction ys arbitrary: x)
  case (Cons z ys)
  { case 1 show ?case using Cons.IH(1) [of "max x z"] by simp }
  { case 2 then show ?case using Cons.IH(1) [of "max x z"] Cons.IH(2) [of "max x z"] by auto }
qed simp_all

lemma hex_segments_fit:
  "hex_fits base items \<Longrightarrow> \<forall>s \<in> set (hex_segments base items). unat (fst s) + length (snd s) < 2 ^ 32"
  "hex_fits base items \<Longrightarrow> seg_cells (hex_segments base items) = hex_cells base items"
proof (induction base items rule: hex_segments.induct)
  case (3 base offset val items)
  have a: "unat (base + ucast offset :: u32) = unat base + unat offset" if "hex_fits base (Some (Data offset val) # items)"
    using checked_add32_Some [of base "ucast offset"] that by (simp add: unat_offset)
  { case 1 then show ?case using 3 a by simp }
  { case 2 then show ?case using 3 a by (simp add: seg_cells_def) }
qed (simp_all add: seg_cells_def)

text \<open>The lowest and the highest address enclose every segment.\<close>

lemma segs_span:
  assumes "\<forall>s \<in> set segs. unat (fst s) + length (snd s) < 2 ^ 32" and "segs \<noteq> []"
  shows "sub32 checks (segs_hi segs) (segs_lo segs) = Inr (segs_hi segs - segs_lo segs)"
    and "unat (segs_hi segs - segs_lo segs) = unat (segs_hi segs) - unat (segs_lo segs)"
    and "\<forall>s \<in> set segs. seg_fits (segs_lo segs) (unat (segs_hi segs) - unat (segs_lo segs)) s"
proof -
  have e: "unat (seg_end s) = unat (fst s) + length (snd s)" if "s \<in> set segs" for s
  proof -
    have "unat (fst s) + length (snd s) < 2 ^ 32" using assms(1) that by blast
    then show ?thesis by (simp add: seg_end_def unat_word_ariths unat_of_nat)
  qed
  have b: "segs_lo segs \<le> fst s" "seg_end s \<le> segs_hi segs" if "s \<in> set segs" for s
    using that by (auto simp: segs_lo_def segs_hi_def intro!: foldl_min_le foldl_max_le)
  obtain s where s: "s \<in> set segs" using assms(2) by (cases segs) auto
  have le: "segs_lo segs \<le> segs_hi segs" using b [OF s] e [OF s] by (simp add: word_le_nat_alt)
  then show "sub32 checks (segs_hi segs) (segs_lo segs) = Inr (segs_hi segs - segs_lo segs)"
    and "unat (segs_hi segs - segs_lo segs) = unat (segs_hi segs) - unat (segs_lo segs)"
    by (simp_all add: sub32_def unat_sub not_less)
  show "\<forall>s \<in> set segs. seg_fits (segs_lo segs) (unat (segs_hi segs) - unat (segs_lo segs)) s"
    using b e by (fastforce simp: seg_fits_def word_le_nat_alt)
qed

lemma parse_exact:
  fixes h bs
  defines "items \<equiv> hex_reader h bs"
  defines "segs \<equiv> hex_segments 0 items"
  assumes "short_records items" and "hex_wf 0 items" and "utf8_ok bs" and "segs \<noteq> []"
  shows "parse_intel_hex checks h bs =
    Inr (map (\<lambda>k. case map_of (rev (hex_cells 0 items)) (unat (segs_lo segs) + k) of Some b \<Rightarrow> b | None \<Rightarrow> 0xFF)
      [0..<unat (segs_hi segs) - unat (segs_lo segs)])"
proof -
  let ?lo = "segs_lo segs" and ?hi = "segs_hi segs"
  note fits = hex_segments_fit [OF hex_wf_fits [OF assms(4)], folded segs_def]
  note span = segs_span [OF fits(1) assms(6)]
  have "\<forall>s \<in> set segs. seg_fits ?lo (length (replicate (unat ?hi - unat ?lo) (0xFF :: u8))) s"
    using span(3) by simp
  from fill_segments_ok [OF this, of checks] obtain out where
    f: "fill_segments checks ?lo segs (replicate (unat ?hi - unat ?lo) 0xFF) = Inr out"
    and l: "length out = unat ?hi - unat ?lo"
    and k: "\<forall>k < unat ?hi - unat ?lo. out ! k =
      (case map_of (rev (seg_cells segs)) (unat ?lo + k) of Some b \<Rightarrow> b | None \<Rightarrow> 0xFF)"
    by (auto cong: option.case_cong)
  have "hex_wf (i_base parse_start) items" using assms(4) by (simp add: parse_start_def)
  from parse_records_ok [OF this assms(3), of checks] obtain base where
    p: "parse_records checks parse_start items =
      Inr \<lparr>i_base = base, i_segments = segs, i_lo = ?lo, i_hi = ?hi, i_saw_eof = True\<rparr>"
    by (auto simp: parse_start_def segs_def segs_lo_def segs_hi_def)
  have "out = map (\<lambda>k. case map_of (rev (hex_cells 0 items)) (unat ?lo + k) of Some b \<Rightarrow> b | None \<Rightarrow> 0xFF)
      [0..<unat ?hi - unat ?lo]"
    using l k fits(2) by (intro nth_equalityI) simp_all
  then show ?thesis using p span f assms(5,6) by (simp add: parse_intel_hex_def items_def [symmetric])
qed

section \<open>Panics of the flat reader\<close>

text \<open>
  The two unchecked additions of the record loop are the one source of panics: with overflow checks the reader
  panics exactly when a data record reaches the end of the address space, and without such a record it does not
  panic in either build profile - a file without data records bails before the span is subtracted.
\<close>

lemma parse_records_fits:
  "hex_fits (i_base st) items \<Longrightarrow> short_records items \<Longrightarrow>
    (\<exists>msg. parse_records checks st items = Inl (Bail msg)) \<or>
    (\<exists>base eof. parse_records checks st items =
      Inr (st\<lparr>i_base := base, i_segments := i_segments st @ hex_segments (i_base st) items,
        i_lo := foldl min (i_lo st) (map fst (hex_segments (i_base st) items)),
        i_hi := foldl max (i_hi st) (map seg_end (hex_segments (i_base st) items)), i_saw_eof := eof\<rparr>))"
proof (induction items arbitrary: st)
  case Nil
  show ?case by (intro disjI2 exI [of _ "i_base st"] exI [of _ "i_saw_eof st"]) simp
next
  case (Cons item items)
  show ?case
  proof (cases item)
    case (Some r)
    show ?thesis
    proof (cases r)
      case (Data offset val)
      let ?a = "i_base st + ucast offset"
      let ?st = "st\<lparr>i_lo := min (i_lo st) ?a, i_hi := max (i_hi st) (?a + of_nat (length val)),
        i_segments := i_segments st @ [(?a, val)]\<rparr>"
      have "unat (i_base st) + unat offset + length val < 2 ^ 32" using Cons.prems(1) by (simp add: Some Data)
      then have "parse_data checks st offset val = Inr ?st" by (rule parse_data_ok)
      moreover have "hex_fits (i_base ?st) items" "short_records items" using Cons.prems by (simp_all add: Some Data)
      note Cons.IH [OF this]
      ultimately show ?thesis by (simp add: Some Data seg_end_def)
    next
      case EndOfFile
      then show ?thesis by (intro disjI2 exI [of _ "i_base st"] exI [of _ True]) (simp add: Some)
    next
      case (ExtendedSegmentAddress seg)
      from Cons.IH [of "st\<lparr>i_base := segment_base seg\<rparr>"] Cons.prems show ?thesis by (simp add: Some ExtendedSegmentAddress)
    next
      case (ExtendedLinearAddress upper)
      from Cons.IH [of "st\<lparr>i_base := linear_base upper\<rparr>"] Cons.prems show ?thesis by (simp add: Some ExtendedLinearAddress)
    qed (use Cons Some in simp_all)
  qed simp
qed

lemma parse_data_overflow:
  assumes "2 ^ 32 \<le> unat (i_base st) + unat offset + length val" and "length val \<le> 255"
  shows "parse_data True st offset val = Inl Panic"
proof (cases "2 ^ 32 \<le> unat (i_base st) + unat offset")
  case True
  then show ?thesis by (simp add: parse_data_def add32_def unat_offset)
next
  case False
  have a: "unat (i_base st + ucast offset) = unat (i_base st) + unat offset"
    using checked_add32_Some [of "i_base st" "ucast offset"] False by (simp add: unat_offset)
  have "unat (of_nat (length val) :: u32) = length val" using assms(2) by (simp add: unat_of_nat)
  then show ?thesis using a False assms(1) by (simp add: parse_data_def add32_def unat_offset)
qed

lemma parse_records_overflow:
  "\<not> hex_fits (i_base st) items \<Longrightarrow> short_records items \<Longrightarrow> parse_records True st items = Inl Panic"
proof (induction items arbitrary: st)
  case (Cons item items)
  show ?case
  proof (cases item)
    case (Some r)
    show ?thesis
    proof (cases r)
      case (Data offset val)
      show ?thesis
      proof (cases "unat (i_base st) + unat offset + length val < 2 ^ 32")
        case True
        let ?a = "i_base st + ucast offset"
        let ?st = "st\<lparr>i_lo := min (i_lo st) ?a, i_hi := max (i_hi st) (?a + of_nat (length val)),
          i_segments := i_segments st @ [(?a, val)]\<rparr>"
        have "parse_records True ?st items = Inl Panic"
          using Cons.IH [of ?st] Cons.prems True by (simp add: Some Data)
        then show ?thesis using parse_data_ok [OF True, of True] by (simp add: Some Data)
      next
        case False
        then show ?thesis using parse_data_overflow [of st offset val] Cons.prems(2) by (simp add: Some Data)
      qed
    qed (use Cons Some in simp_all)
  qed (use Cons.prems in simp)
qed simp

lemma parse_intel_hex_total:
  assumes "short_records (hex_reader h bs)" and "hex_fits 0 (hex_reader h bs)"
  shows "parse_intel_hex checks h bs \<noteq> Inl Panic"
proof -
  let ?items = "hex_reader h bs"
  let ?segs = "hex_segments 0 ?items"
  have fits: "hex_fits (i_base parse_start) ?items" using assms(2) by (simp add: parse_start_def)
  from parse_records_fits [OF this assms(1), of checks] consider
    msg where "parse_records checks parse_start ?items = Inl (Bail msg)"
  | base eof where "parse_records checks parse_start ?items =
      Inr \<lparr>i_base = base, i_segments = ?segs, i_lo = segs_lo ?segs, i_hi = segs_hi ?segs, i_saw_eof = eof\<rparr>"
    by (auto simp: parse_start_def segs_lo_def segs_hi_def)
  then show ?thesis
  proof cases
    case 1
    then show ?thesis by (simp add: parse_intel_hex_def)
  next
    case 2
    show ?thesis
    proof (cases "?segs = []")
      case False
      note span = segs_span [OF hex_segments_fit(1) [OF assms(2)] False]
      have "\<forall>s \<in> set ?segs. seg_fits (segs_lo ?segs) (length (replicate (unat (segs_hi ?segs - segs_lo ?segs)) (0xFF :: u8))) s"
        using span(2,3) by simp
      from fill_segments_ok [OF this, of checks] 2 span(1) show ?thesis by (auto simp: parse_intel_hex_def)
    qed (simp add: parse_intel_hex_def 2)
  qed
qed

lemma parse_intel_hex_panic:
  assumes "short_records (hex_reader h bs)"
  shows "parse_intel_hex True h bs = Inl Panic \<longleftrightarrow> utf8_ok bs \<and> \<not> hex_fits 0 (hex_reader h bs)"
proof (cases "hex_fits 0 (hex_reader h bs)")
  case False
  then have "parse_records True parse_start (hex_reader h bs) = Inl Panic"
    using assms by (intro parse_records_overflow) (simp_all add: parse_start_def)
  then show ?thesis using False by (simp add: parse_intel_hex_def)
qed (simp add: parse_intel_hex_total assms)

text \<open>A source named \<open>.hex\<close> in any case, byte by byte.\<close>

definition hex_name :: "bytes \<Rightarrow> bool" where
  "hex_name src \<longleftrightarrow> (\<exists>stem h e x. src = stem @ [46, h, e, x] \<and> h \<in> {72, 104} \<and> e \<in> {69, 101} \<and> x \<in> {88, 120})"

lemma four_cells: "length xs = 4 \<Longrightarrow> \<exists>p h e x. xs = [p, h, e, x]"
  by (auto simp: numeral_eq_Suc length_Suc_conv)

lemma dot_hex: "ascii ''.hex'' = [46, 104, 101, 120]"
  by (simp add: ascii_def)

text \<open>The letters whose lower case is a given lower-case letter.\<close>

lemma lower_case_letter:
  "(if 65 \<le> b \<and> b \<le> 90 then b + 32 else b) = (46 :: u8) \<longleftrightarrow> b = 46"
  "(if 65 \<le> b \<and> b \<le> 90 then b + 32 else b) = (104 :: u8) \<longleftrightarrow> b = 72 \<or> b = 104"
  "(if 65 \<le> b \<and> b \<le> 90 then b + 32 else b) = (101 :: u8) \<longleftrightarrow> b = 69 \<or> b = 101"
  "(if 65 \<le> b \<and> b \<le> 90 then b + 32 else b) = (120 :: u8) \<longleftrightarrow> b = 88 \<or> b = 120"
proof -
  have s: "b + 32 = k \<longleftrightarrow> b = k - 32" for b k :: u8 by (auto simp: algebra_simps)
  show "(if 65 \<le> b \<and> b \<le> 90 then b + 32 else b) = (46 :: u8) \<longleftrightarrow> b = 46"
    "(if 65 \<le> b \<and> b \<le> 90 then b + 32 else b) = (104 :: u8) \<longleftrightarrow> b = 72 \<or> b = 104"
    "(if 65 \<le> b \<and> b \<le> 90 then b + 32 else b) = (101 :: u8) \<longleftrightarrow> b = 69 \<or> b = 101"
    "(if 65 \<le> b \<and> b \<le> 90 then b + 32 else b) = (120 :: u8) \<longleftrightarrow> b = 88 \<or> b = 120"
    by (auto simp: s split: if_splits)
qed

lemma ends_with_hex: "ends_with (to_ascii_lowercase src) (ascii ''.hex'') \<longleftrightarrow> hex_name src"
proof
  have n: "length [46, 104, 101, 120 :: u8] = 4" by simp
  assume "ends_with (to_ascii_lowercase src) (ascii ''.hex'')"
  then have l: "4 \<le> length src" and d: "to_ascii_lowercase (drop (length src - 4) src) = [46, 104, 101, 120]"
    unfolding ends_with_def dot_hex n by (simp_all add: to_ascii_lowercase_def drop_map)
  have "length (drop (length src - 4) src) = 4" using l by simp
  then obtain p h e x where q: "drop (length src - 4) src = [p, h, e, x]" using four_cells by metis
  have "src = take (length src - 4) src @ [p, h, e, x]" using append_take_drop_id [of "length src - 4" src] q by simp
  moreover have "p = 46" "h = 72 \<or> h = 104" "e = 69 \<or> e = 101" "x = 88 \<or> x = 120"
    using d by (simp_all add: q to_ascii_lowercase_def lower_case_letter)
  ultimately show "hex_name src" unfolding hex_name_def by blast
next
  assume "hex_name src"
  then show "ends_with (to_ascii_lowercase src) (ascii ''.hex'')"
    by (auto simp: hex_name_def ends_with_def to_ascii_lowercase_def dot_hex)
qed

lemma read_raw_input_no_panic [simp]: "read_raw_input h src \<noteq> Inl Panic"
  by (simp add: read_raw_input_def bindr_Panic)

lemma read_input_panic:
  assumes "\<forall>bs. short_records (hex_reader h bs)"
  shows "read_input True h src = Inl Panic \<longleftrightarrow>
    hex_name src \<and> (\<exists>raw. read_raw_input h src = Inr raw \<and> utf8_ok raw \<and> \<not> hex_fits 0 (hex_reader h raw))"
  using parse_intel_hex_panic assms
  by (cases "read_raw_input h src") (auto simp: read_input_def ends_with_hex bindr_Panic)

lemma read_bootloader_no_panic: "\<forall>bs. short_records (hex_reader h bs) \<Longrightarrow> read_bootloader_hex h src \<noteq> Inl Panic"
  using extract_exact(2) [of h] by (auto simp: read_bootloader_hex_def bindr_Panic)

text \<open>The inputs of a command: every record is short and no \<open>.hex\<close> source reaches the end of the address space.\<close>

definition hex_sources_fit :: "input_host \<Rightarrow> bool" where
  "hex_sources_fit h \<longleftrightarrow> (\<forall>src raw. hex_name src \<longrightarrow> fetch_url h src = Some raw \<or> read_file h src = Some raw \<longrightarrow>
    utf8_ok raw \<longrightarrow> hex_fits 0 (hex_reader h raw))"

lemma read_input_no_panic:
  assumes "\<forall>bs. short_records (hex_reader h bs)" and "hex_sources_fit h"
  shows "read_input checks h src \<noteq> Inl Panic"
proof -
  have "parse_intel_hex checks h raw \<noteq> Inl Panic" if "read_raw_input h src = Inr raw" and "hex_name src" for raw
  proof (cases "utf8_ok raw")
    case True
    have "fetch_url h src = Some raw \<or> read_file h src = Some raw"
      using that(1) by (auto simp: read_raw_input_def bindr_Inr split: if_splits)
    then show ?thesis
      using assms that(2) True unfolding hex_sources_fit_def by (intro parse_intel_hex_total) blast+
  qed (simp add: parse_intel_hex_def)
  then show ?thesis by (auto simp: read_input_def ends_with_hex bindr_Panic)
qed

section \<open>A finding\<close>

text \<open>
  \<open>parse_intel_hex\<close> adds record lengths to addresses without a check: a record that ends at the end of the
  address space makes it panic, with overflow checks at the addition and without them at the copy.
\<close>

lemma parse_intel_hex_panics:
  assumes "utf8_ok bs"
    and "hex_reader h bs = [Some (Data 0 [1]), Some (ExtendedLinearAddress 0xFFFF), Some (Data 0xFFFF [2]), Some EndOfFile]"
  shows "parse_intel_hex checks h bs = Inl Panic"
proof -
  have "(ucast (0xFFFF :: u16) :: u32) = 0xFFFF" by simp
  then have b: "linear_base 0xFFFF = 0xFFFF0000" by (simp only: linear_base_def push_bit_eq_mult) simp
  show ?thesis
    using assms(1) by (cases checks)
      (simp_all add: parse_intel_hex_def assms(2) parse_start_def parse_data_def add32_def sub32_def b)
qed

end
