(* ===== verification/Mota_Cli.thy ===== *)
theory Mota_Cli
  imports Mota_Session Mota_Hex Mota_Targets Mota_Verify
begin

text \<open>
  The command line of \<open>src/main.rs\<close> below its commands: the board names and the profiles they select, the
  reading of numbers (\<open>parse_u32_auto\<close>, with \<open>str::trim\<close> and \<open>from_str_radix\<close> of the standard library), and
  the labels printed for a package. Arguments and file texts are UTF-8 byte strings.
\<close>

section \<open>Boards on the command line\<close>

datatype cli_bootloader_board =
    CliXiaoNrf52840Ble | CliXiaoNrf52840BleSense | CliGat562 | CliHeltecMeshTowerV2
  | CliHeltecMeshTowerV2Sdcard | CliHeltecMeshPocket | CliHeltecT096 | CliHeltecT1 | CliHeltecT114
  | CliKeepteenLt1 | CliMinewsemiMx25le01 | CliPromicroNrf52840 | CliT1000E | CliThinknodeM3
  | CliWiscoreRak3401 | CliWiscoreRak4631Board | CliWiscoreRak3401Auto | CliWiscoreRak4631Auto
  | CliWismeshTag | CliLilygoTecho | CliLilygoTechoLite | CliPca10056 | CliSensecapSolarP1
  | CliThinknodeM1 | CliThinknodeM6 | CliWioTrackerL1 | CliWiscoreRak3401Rak13302W25q16
  | CliWiscoreRak4631BoardRak15001SlotC | CliWiscoreRak4631W25q16

text \<open>The first name of each value; the two XIAO boards have aliases as well.\<close>

fun value_name :: "cli_bootloader_board \<Rightarrow> string" where
  "value_name CliXiaoNrf52840Ble = ''xiao_nrf52840_ble''"
| "value_name CliXiaoNrf52840BleSense = ''xiao_nrf52840_ble_sense''"
| "value_name CliGat562 = ''gat562''"
| "value_name CliHeltecMeshTowerV2 = ''heltec_mesh_tower_v2''"
| "value_name CliHeltecMeshTowerV2Sdcard = ''heltec_mesh_tower_v2_sdcard''"
| "value_name CliHeltecMeshPocket = ''heltec_mesh_pocket''"
| "value_name CliHeltecT096 = ''heltec_t096''"
| "value_name CliHeltecT1 = ''heltec_t1''"
| "value_name CliHeltecT114 = ''heltec_t114''"
| "value_name CliKeepteenLt1 = ''keepteen_lt1''"
| "value_name CliMinewsemiMx25le01 = ''minewsemi_mx25le01''"
| "value_name CliPromicroNrf52840 = ''promicro_nrf52840''"
| "value_name CliT1000E = ''t1000_e''"
| "value_name CliThinknodeM3 = ''thinknode_m3''"
| "value_name CliWiscoreRak3401 = ''wiscore_rak3401''"
| "value_name CliWiscoreRak4631Board = ''wiscore_rak4631_board''"
| "value_name CliWiscoreRak3401Auto = ''wiscore_rak3401_auto''"
| "value_name CliWiscoreRak4631Auto = ''wiscore_rak4631_auto''"
| "value_name CliWismeshTag = ''wismesh_tag''"
| "value_name CliLilygoTecho = ''lilygo_techo''"
| "value_name CliLilygoTechoLite = ''lilygo_techo_lite''"
| "value_name CliPca10056 = ''pca10056''"
| "value_name CliSensecapSolarP1 = ''sensecap_solar_p1''"
| "value_name CliThinknodeM1 = ''thinknode_m1''"
| "value_name CliThinknodeM6 = ''thinknode_m6''"
| "value_name CliWioTrackerL1 = ''wio_tracker_l1''"
| "value_name CliWiscoreRak3401Rak13302W25q16 = ''wiscore_rak3401_rak13302_w25q16''"
| "value_name CliWiscoreRak4631BoardRak15001SlotC = ''wiscore_rak4631_board_rak15001_slot_c''"
| "value_name CliWiscoreRak4631W25q16 = ''wiscore_rak4631_w25q16''"

fun cli_board :: "cli_bootloader_board \<Rightarrow> bootloader_board" where
  "cli_board CliXiaoNrf52840Ble = XiaoNrf52840Ble"
| "cli_board CliXiaoNrf52840BleSense = XiaoNrf52840BleSense"
| "cli_board CliGat562 = Gat562"
| "cli_board CliHeltecMeshTowerV2 = HeltecMeshTowerV2"
| "cli_board CliHeltecMeshTowerV2Sdcard = HeltecMeshTowerV2"
| "cli_board CliHeltecMeshPocket = HeltecMeshPocket"
| "cli_board CliHeltecT096 = HeltecT096"
| "cli_board CliHeltecT1 = HeltecT1"
| "cli_board CliHeltecT114 = HeltecT114"
| "cli_board CliKeepteenLt1 = KeepteenLt1"
| "cli_board CliMinewsemiMx25le01 = MinewsemiMx25le01"
| "cli_board CliPromicroNrf52840 = PromicroNrf52840"
| "cli_board CliT1000E = T1000E"
| "cli_board CliThinknodeM3 = ThinknodeM3"
| "cli_board CliWiscoreRak3401 = WiscoreRak3401"
| "cli_board CliWiscoreRak4631Board = WiscoreRak4631Board"
| "cli_board CliWiscoreRak3401Auto = WiscoreRak3401Auto"
| "cli_board CliWiscoreRak4631Auto = WiscoreRak4631Auto"
| "cli_board CliWismeshTag = WismeshTag"
| "cli_board CliLilygoTecho = LilygoTecho"
| "cli_board CliLilygoTechoLite = LilygoTechoLite"
| "cli_board CliPca10056 = Pca10056"
| "cli_board CliSensecapSolarP1 = SensecapSolarP1"
| "cli_board CliThinknodeM1 = ThinknodeM1"
| "cli_board CliThinknodeM6 = ThinknodeM6"
| "cli_board CliWioTrackerL1 = WioTrackerL1"
| "cli_board CliWiscoreRak3401Rak13302W25q16 = WiscoreRak3401Rak13302W25q16"
| "cli_board CliWiscoreRak4631BoardRak15001SlotC = WiscoreRak4631BoardRak15001SlotC"
| "cli_board CliWiscoreRak4631W25q16 = WiscoreRak4631W25q16"

definition cli_profile :: "cli_bootloader_board \<Rightarrow> bootloader_board \<times> u8" where
  "cli_profile b =
    (cli_board b, if b = CliHeltecMeshTowerV2Sdcard then STORAGE_SD_UPDATE else board_storage_profile (cli_board b))"

section \<open>Numbers and text\<close>

text \<open>The UTF-8 encodings of the characters with the property \<open>White_Space\<close>.\<close>

definition WHITE_SPACE :: "bytes list" where
  "WHITE_SPACE = [[9], [10], [11], [12], [13], [32], [0xC2, 0x85], [0xC2, 0xA0], [0xE1, 0x9A, 0x80],
     [0xE2, 0x80, 0x80], [0xE2, 0x80, 0x81], [0xE2, 0x80, 0x82], [0xE2, 0x80, 0x83], [0xE2, 0x80, 0x84],
     [0xE2, 0x80, 0x85], [0xE2, 0x80, 0x86], [0xE2, 0x80, 0x87], [0xE2, 0x80, 0x88], [0xE2, 0x80, 0x89],
     [0xE2, 0x80, 0x8A], [0xE2, 0x80, 0xA8], [0xE2, 0x80, 0xA9], [0xE2, 0x80, 0xAF], [0xE2, 0x81, 0x9F],
     [0xE3, 0x80, 0x80]]"

function strip_all :: "bytes list \<Rightarrow> bytes \<Rightarrow> bytes" where
  "strip_all ws s =
    (case find (\<lambda>w. w \<noteq> [] \<and> starts_with s w) ws of None \<Rightarrow> s | Some w \<Rightarrow> strip_all ws (drop (length w) s))"
  by pat_completeness auto
termination
proof (relation "measure (\<lambda>(ws, s). length s)")
  fix ws :: "bytes list" and s w :: bytes
  assume "find (\<lambda>w. w \<noteq> [] \<and> starts_with s w) ws = Some w"
  then have "w \<noteq> []" "starts_with s w" by (auto simp: find_Some_iff)
  then have "0 < length w" "s \<noteq> []" by (auto simp: starts_with_def)
  then show "((ws, drop (length w) s), (ws, s)) \<in> measure (\<lambda>(ws, s). length s)" by simp
qed simp

declare strip_all.simps [simp del]

text \<open>\<open>str::trim\<close> on valid UTF-8: characters are recognised from either end.\<close>

definition trim :: "bytes \<Rightarrow> bytes" where
  "trim s = rev (strip_all (map rev WHITE_SPACE) (rev (strip_all WHITE_SPACE s)))"

definition digit_value :: "nat \<Rightarrow> u8 \<Rightarrow> nat option" where
  "digit_value radix b =
    (let v = (if 48 \<le> b \<and> b \<le> 57 then Some (unat b - 48)
              else if 97 \<le> b \<and> b \<le> 122 then Some (unat b - 97 + 10)
              else if 65 \<le> b \<and> b \<le> 90 then Some (unat b - 65 + 10) else None)
     in case v of None \<Rightarrow> None | Some d \<Rightarrow> if d < radix then Some d else None)"

text \<open>\<open>from_str_radix\<close> of an unsigned type below \<open>limit\<close>.\<close>

fun radix_loop :: "nat \<Rightarrow> nat \<Rightarrow> bytes \<Rightarrow> nat \<Rightarrow> nat option" where
  "radix_loop limit radix [] acc = Some acc"
| "radix_loop limit radix (b # bs) acc =
    (case digit_value radix b of None \<Rightarrow> None
     | Some d \<Rightarrow> if acc * radix + d < limit then radix_loop limit radix bs (acc * radix + d) else None)"

definition from_str_radix :: "nat \<Rightarrow> nat \<Rightarrow> bytes \<Rightarrow> nat option" where
  "from_str_radix limit radix s =
    (case s of
       [] \<Rightarrow> None
     | b # bs \<Rightarrow>
         if (b = 43 \<or> b = 45) \<and> bs = [] then None
         else if b = 43 then radix_loop limit radix bs 0 else radix_loop limit radix s 0)"

definition parse_u32_auto :: "bytes \<Rightarrow> u32 result" where
  "parse_u32_auto text =
    (let s = trim text;
         v = (case (case strip_prefix (ascii ''0x'') s of None \<Rightarrow> strip_prefix (ascii ''0X'') s | Some hex \<Rightarrow> Some hex) of
                Some hex \<Rightarrow> from_str_radix (2 ^ 32) 16 hex
              | None \<Rightarrow> from_str_radix (2 ^ 32) 10 s)
     in of_opt ''not a valid number'' (map_option of_nat v))"

section \<open>Labels\<close>

definition kind_label :: "manifest \<Rightarrow> string" where
  "kind_label m =
    (if is_bootloader m then ''bootloader''
     else case manifest_codec m of
       None \<Rightarrow> if is_full m then ''full'' else ''sequential delta''
     | Some Full \<Rightarrow> if is_full m then ''full'' else ''sequential delta''
     | Some DetoolsInplace \<Rightarrow> ''in-place delta''
     | Some DetoolsSequential \<Rightarrow> ''sequential delta'')"

definition package_version_str :: "manifest \<Rightarrow> bytes" where
  "package_version_str m = (if is_bootloader m then bootloader_version_str (m_fw_version m) else version_str (m_fw_version m))"

definition identity_label :: "string \<Rightarrow> bootloader_identity \<Rightarrow> string" where
  "identity_label unknown i =
    (case Option.bind (board_from_identity (b_board_id i) (b_device_name i))
            (\<lambda>b. board_profile_name b (storage_flags i)) of
       None \<Rightarrow> unknown | Some name \<Rightarrow> name)"

definition package_target_label :: "crypto \<Rightarrow> manifest \<Rightarrow> bytes \<Rightarrow> string result" where
  "package_target_label c m blob =
    (if \<not> is_bootloader m then Inr (label (m_target_id m))
     else case checked_add64 (payload_off m) (unat (m_payload_size m)) of
       None \<Rightarrow> Inr ''unsupported bootloader''
     | Some payload_end \<Rightarrow>
         if payload_end \<le> length blob then
           (case validate_bootloader_image c (slice (payload_off m) payload_end blob)
                   (m_target_id m) (m_hw_id m) (m_fw_version m) of
              Inl Panic \<Rightarrow> Inl Panic
            | Inl (Bail _) \<Rightarrow> Inr ''unsupported bootloader''
            | Inr i \<Rightarrow> Inr (identity_label ''unsupported bootloader'' i))
         else Inr ''unsupported bootloader'')"

section \<open>The board names\<close>

lemma value_name_profile: "board_profile_name (fst (cli_profile b)) (snd (cli_profile b)) = Some (value_name b)"
  by (induction b; code_simp)

lemma cli_accepted: "board_accepts_storage_profile (fst (cli_profile b)) (snd (cli_profile b))"
  by (induction b; code_simp)

definition all_names :: "cli_bootloader_board list" where
  "all_names = [CliXiaoNrf52840Ble, CliXiaoNrf52840BleSense, CliGat562, CliHeltecMeshTowerV2,
     CliHeltecMeshTowerV2Sdcard, CliHeltecMeshPocket, CliHeltecT096, CliHeltecT1, CliHeltecT114,
     CliKeepteenLt1, CliMinewsemiMx25le01, CliPromicroNrf52840, CliT1000E, CliThinknodeM3,
     CliWiscoreRak3401, CliWiscoreRak4631Board, CliWiscoreRak3401Auto, CliWiscoreRak4631Auto,
     CliWismeshTag, CliLilygoTecho, CliLilygoTechoLite, CliPca10056, CliSensecapSolarP1,
     CliThinknodeM1, CliThinknodeM6, CliWioTrackerL1, CliWiscoreRak3401Rak13302W25q16,
     CliWiscoreRak4631BoardRak15001SlotC, CliWiscoreRak4631W25q16]"

lemma board_is_cli: "\<exists>b. b \<noteq> CliHeltecMeshTowerV2Sdcard \<and> cli_board b = board"
proof -
  have "list_all (\<lambda>d. d \<in> set (map cli_board (filter (\<lambda>b. b \<noteq> CliHeltecMeshTowerV2Sdcard) all_names))) BOOTLOADER_BOARDS"
    by code_simp
  then have "board \<in> set (map cli_board (filter (\<lambda>b. b \<noteq> CliHeltecMeshTowerV2Sdcard) all_names))"
    using boards_complete [of board] by (auto simp only: list_all_iff)
  then show ?thesis by auto
qed

lemma accepted_is_cli:
  assumes "board_accepts_storage_profile board p"
  shows "\<exists>b. cli_profile b = (board, p)"
proof (cases "p = board_storage_profile board")
  case True
  obtain b where "b \<noteq> CliHeltecMeshTowerV2Sdcard" "cli_board b = board" using board_is_cli by blast
  then show ?thesis using True by (intro exI [of _ b]) (simp add: cli_profile_def)
next
  case False
  then have "board = HeltecMeshTowerV2" "p = STORAGE_SD_UPDATE"
    using assms by (auto simp: board_accepts_storage_profile_def split: if_splits)
  then show ?thesis by (intro exI [of _ CliHeltecMeshTowerV2Sdcard]) (simp add: cli_profile_def)
qed

lemma all_names_complete: "b \<in> set all_names"
  by (cases b) (simp_all add: all_names_def)

lemma value_name_inject: "value_name b = value_name b' \<Longrightarrow> b = b'"
proof -
  have "distinct (map value_name all_names)" by code_simp
  then have "inj_on value_name (set all_names)" by (simp add: distinct_map)
  then show "value_name b = value_name b' \<Longrightarrow> b = b'" using all_names_complete by (auto dest: inj_onD)
qed

lemma cli_profile_inject: "cli_profile b = cli_profile b' \<Longrightarrow> b = b'"
  using value_name_profile [of b] value_name_profile [of b'] by (metis option.inject value_name_inject)

section \<open>Trimming and numbers\<close>

definition graphic :: "u8 \<Rightarrow> bool" where
  "graphic b \<longleftrightarrow> 0x21 \<le> b \<and> b \<le> 0x7E"

lemma white_space_heads: "w \<in> set WHITE_SPACE \<Longrightarrow> w \<noteq> [] \<and> \<not> graphic (hd w) \<and> \<not> graphic (last w)"
proof -
  have "list_all (\<lambda>w. w \<noteq> [] \<and> \<not> graphic (hd w) \<and> \<not> graphic (last w)) WHITE_SPACE" by code_simp
  then show "w \<in> set WHITE_SPACE \<Longrightarrow> w \<noteq> [] \<and> \<not> graphic (hd w) \<and> \<not> graphic (last w)" by (auto simp: list_all_iff)
qed

lemma starts_with_hd: "w \<noteq> [] \<Longrightarrow> starts_with s w \<Longrightarrow> s \<noteq> [] \<and> hd s = hd w"
  by (cases w; cases s) (auto simp: starts_with_def)

lemma strip_graphic:
  assumes "\<forall>w \<in> set ws. w \<noteq> [] \<longrightarrow> \<not> graphic (hd w)" and "s = [] \<or> graphic (hd s)"
  shows "strip_all ws s = s"
proof -
  have "find (\<lambda>w. w \<noteq> [] \<and> starts_with s w) ws = None"
    using assms starts_with_hd by (fastforce simp: find_None_iff)
  then show ?thesis by (subst strip_all.simps) simp
qed

lemma white_space_graphic:
  "\<forall>w \<in> set WHITE_SPACE. w \<noteq> [] \<longrightarrow> \<not> graphic (hd w)"
  "\<forall>w \<in> set (map rev WHITE_SPACE). w \<noteq> [] \<longrightarrow> \<not> graphic (hd w)"
  using white_space_heads by (auto simp: hd_rev)

lemma strip_newline: "strip_all (map rev WHITE_SPACE) (10 # s) = strip_all (map rev WHITE_SPACE) s"
proof -
  have "find (\<lambda>w. w \<noteq> [] \<and> starts_with (10 # s) w) (map rev WHITE_SPACE) = Some [10]"
    by (simp add: WHITE_SPACE_def starts_with_def)
  then show ?thesis by (subst strip_all.simps) simp
qed

lemma trim_graphic:
  assumes "list_all graphic s"
  shows "trim s = s" and "trim (s @ [10]) = s"
proof -
  have r: "strip_all (map rev WHITE_SPACE) (rev s) = rev s"
    using assms by (intro strip_graphic white_space_graphic) (cases s rule: rev_cases; simp)
  have h: "s = [] \<or> graphic (hd s)" using assms by (cases s) auto
  then have "strip_all WHITE_SPACE s = s" by (intro strip_graphic white_space_graphic)
  then show "trim s = s" by (simp add: trim_def r)
  show "trim (s @ [10]) = s"
  proof (cases "s = []")
    case True
    have "strip_all WHITE_SPACE [10] = []"
      by (subst strip_all.simps) (simp add: WHITE_SPACE_def starts_with_def strip_all.simps)
    then show ?thesis using r True by (simp add: trim_def)
  next
    case False
    with h have "strip_all WHITE_SPACE (s @ [10]) = s @ [10]" by (intro strip_graphic white_space_graphic) simp
    then show ?thesis by (simp add: trim_def strip_newline r)
  qed
qed

definition radix_value :: "nat \<Rightarrow> bytes \<Rightarrow> nat \<Rightarrow> nat" where
  "radix_value radix bs acc = foldl (\<lambda>a b. a * radix + the (digit_value radix b)) acc bs"

lemma radix_value_mono: "0 < radix \<Longrightarrow> acc \<le> radix_value radix bs acc"
proof (induction bs arbitrary: acc)
  case (Cons b bs)
  have "acc \<le> acc * radix + the (digit_value radix b)" using Cons.prems by (simp add: trans_le_add1)
  also have "\<dots> \<le> radix_value radix bs (acc * radix + the (digit_value radix b))" by (rule Cons.IH [OF Cons.prems])
  finally show ?case by (simp add: radix_value_def)
qed (simp add: radix_value_def)

lemma radix_loop_eq:
  "0 < radix \<Longrightarrow> list_all (\<lambda>b. digit_value radix b \<noteq> None) bs \<Longrightarrow> acc < limit \<Longrightarrow>
    radix_loop limit radix bs acc = (if radix_value radix bs acc < limit then Some (radix_value radix bs acc) else None)"
proof (induction bs arbitrary: acc)
  case (Cons b bs)
  then obtain d where d: "digit_value radix b = Some d" by auto
  show ?case
    using Cons d radix_value_mono [OF Cons.prems(1), of "acc * radix + d" bs] by (simp add: radix_value_def)
qed (simp add: radix_value_def)

lemma from_str_radix_eq:
  assumes "0 < radix" and "list_all (\<lambda>b. digit_value radix b \<noteq> None) s" and "s \<noteq> []" and "0 < limit"
  shows "from_str_radix limit radix s = (if radix_value radix s 0 < limit then Some (radix_value radix s 0) else None)"
proof -
  obtain b bs where s: "s = b # bs" using assms(3) by (cases s) auto
  have "b \<noteq> 43" "b \<noteq> 45" using assms(2) by (auto simp: s digit_value_def)
  then show ?thesis using radix_loop_eq [OF assms(1,2,4)] by (simp add: from_str_radix_def s)
qed

lemma decimal_digit: "is_ascii_digit b \<Longrightarrow> digit_value 10 b = Some (unat b - 48)"
  by (auto simp: is_ascii_digit_def digit_value_def Let_def word_le_nat_alt)

lemma radix_value_dec: "list_all is_ascii_digit bs \<Longrightarrow> radix_value 10 bs acc = foldl (\<lambda>a b. 10 * a + (unat b - 48)) acc bs"
  by (induction bs arbitrary: acc) (simp_all add: radix_value_def decimal_digit mult.commute)

lemma from_str_radix_dec: "0 < limit \<Longrightarrow> from_str_radix limit 10 (dec n) = (if n < limit then Some n else None)"
proof -
  have v: "radix_value 10 (dec n) 0 = n"
    using radix_value_dec [OF dec_digits] dec_value_dec [of n] by (simp add: dec_value_def)
  have "list_all (\<lambda>b. digit_value 10 b \<noteq> None) (dec n)"
    using dec_digits [of n] decimal_digit by (auto simp: list_all_iff)
  then show "0 < limit \<Longrightarrow> ?thesis" by (subst from_str_radix_eq) (simp_all add: v)
qed

lemma hex_digit_value: "d < 16 \<Longrightarrow> digit_value 16 (hex_digit d) = Some d"
  by (auto simp: digit_value_def word_le_nat_alt unat_hex_digit Let_def)

lemma nibble_value: "unat (drop_bit (4 * i) (v :: u32) AND 0xF) = unat v div 2 ^ (4 * i) mod 16"
proof -
  have u: "unat v < 2 ^ 32" using unsigned_less [of v] by simp
  have m: "(0xF :: u32) = mask 4" by (simp add: mask_eq_exp_minus_1)
  show ?thesis
    unfolding m take_bit_eq_mask [symmetric] unsigned_take_bit_eq unsigned_drop_bit_eq
    using u by (simp add: take_bit_eq_mod drop_bit_eq_div)
qed

lemma shift_nibble: "u div (k * 16) * 16 + u div k mod 16 = (u :: nat) div k"
  by (simp add: div_mult2_eq)

lemma radix_value_hex8: "radix_value 16 (hex8 v) 0 = unat v"
proof -
  let ?u = "unat v"
  have "?u < 2 ^ 32" using unsigned_less [of v] by simp
  then have top: "?u div 268435456 mod 16 = ?u div 268435456" by simp
  note s = shift_nibble [of ?u 16777216] shift_nibble [of ?u 1048576] shift_nibble [of ?u 65536]
    shift_nibble [of ?u 4096] shift_nibble [of ?u 256] shift_nibble [of ?u 16] shift_nibble [of ?u 1]
  have d: "digit_value 16 (hex_digit (unat (drop_bit (4 * i) v AND 0xF))) = Some (?u div 2 ^ (4 * i) mod 16)" for i
    by (subst hex_digit_value [OF nibble_bound]) (simp only: nibble_value)
  show ?thesis
    unfolding radix_value_def hex8_def list.map foldl.simps d option.sel
    using s top by simp
qed

lemma from_str_radix_hex8: "from_str_radix (2 ^ 32) 16 (hex8 v) = Some (unat v)"
proof -
  have "list_all (\<lambda>b. digit_value 16 b \<noteq> None) (hex8 v)"
    by (auto simp: hex8_def hex_digit_value [OF nibble_bound])
  moreover have "hex8 v \<noteq> []" by (simp add: hex8_def)
  moreover have "unat v < 2 ^ 32" using unsigned_less [of v] by simp
  ultimately show ?thesis by (subst from_str_radix_eq) (simp_all add: radix_value_hex8)
qed

lemma hex8_graphic: "list_all graphic (ascii ''0x'' @ hex8 v)"
  using hex8_range by (auto simp: list_all_iff graphic_def word_le_nat_alt ascii_def dest!: hex8_range)

lemma dec_graphic: "list_all graphic (dec n)"
  using dec_digits [of n] by (auto simp: list_all_iff is_ascii_digit_def graphic_def word_le_nat_alt)

lemma parse_u32_auto_round_trip:
  "parse_u32_auto (dec (unat v)) = Inr v" "parse_u32_auto (ascii ''0x'' @ hex8 v) = Inr v"
proof -
  have x: "strip_prefix (ascii ''0x'') (dec n) = None" "strip_prefix (ascii ''0X'') (dec n) = None" for n
  proof -
    have "b \<in> set (take 2 (dec n)) \<Longrightarrow> is_ascii_digit b" for b
      using dec_digits [of n] by (auto simp: list_all_iff dest: in_set_takeD)
    then have "120 \<notin> set (take 2 (dec n))" "88 \<notin> set (take 2 (dec n))" by (fastforce simp: is_ascii_digit_def)+
    then show "strip_prefix (ascii ''0x'') (dec n) = None" "strip_prefix (ascii ''0X'') (dec n) = None"
      by (auto simp: strip_prefix_def ascii_def numeral_2_eq_2)
  qed
  have "unat v < 2 ^ 32" using unsigned_less [of v] by simp
  then show "parse_u32_auto (dec (unat v)) = Inr v"
    by (simp add: parse_u32_auto_def trim_graphic(1) [OF dec_graphic] x from_str_radix_dec)
  have y: "strip_prefix (ascii ''0x'') (ascii ''0x'' @ hex8 v) = Some (hex8 v)"
    by (simp add: strip_prefix_def)
  show "parse_u32_auto (ascii ''0x'' @ hex8 v) = Inr v"
    by (simp add: parse_u32_auto_def trim_graphic(1) [OF hex8_graphic] y from_str_radix_hex8 [simplified])
qed

end
