(* ===== verification/Mota_Endf.thy ===== *)
theory Mota_Endf
  imports Mota_Crypto
begin

text \<open>
  \<open>src/endf.rs\<close>: the 56-byte EndF identity trailer (\<open>has_endf\<close>, \<open>parse_ident\<close>, \<open>ensure_endf\<close>), the
  24-byte nRF52 layout record in front of it (\<open>Nrf52Layout\<close>, its validation, builder and parser).
  The lemmas: the recognised images by their bytes, the trailer round trip and its idempotence, the exact set of accepted layouts, and the
  layout round trip through a trailed image.
\<close>

section \<open>The EndF trailer\<close>

definition endf_body :: "bytes \<Rightarrow> bytes" where
  "endf_body img = take (length img - ENDF_LEN) img"

definition endf_trailer :: "bytes \<Rightarrow> bytes" where
  "endf_trailer img = drop (length img - ENDF_LEN) img"

definition has_endf :: "crypto \<Rightarrow> bytes \<Rightarrow> bool" where
  "has_endf c img =
    (if length img < ENDF_LEN then False
     else let body = endf_body img; t = endf_trailer img
          in take 4 t = ENDF_MAGIC \<and>
             unat (u32_le (slice 4 8 t)) = length body \<and>
             mh c 8 body = slice 8 16 t)"

definition parse_ident :: "crypto \<Rightarrow> bytes \<Rightarrow> fw_ident" where
  "parse_ident c img =
    (if \<not> has_endf c img then fw_ident_default
     else let t = endf_trailer img
          in \<lparr>fw_version = u32_le (slice ENDF_OFF_FWVER (ENDF_OFF_FWVER + 4) t),
              target_id = u32_le (slice ENDF_OFF_TARGET (ENDF_OFF_TARGET + 4) t),
              hw_id = cstr (slice ENDF_OFF_HWID (ENDF_OFF_HWID + HW_ID_LEN) t)\<rparr>)"

text \<open>\<open>hw_field[..n].copy_from_slice(&hw[..n])\<close> over 32 zero bytes.\<close>

definition hw_field :: "bytes \<Rightarrow> bytes" where
  "hw_field hw = (let n = min (length hw) HW_ID_LEN in put 0 (take n hw) (replicate HW_ID_LEN 0))"

definition ensure_endf :: "crypto \<Rightarrow> bytes \<Rightarrow> fw_ident \<Rightarrow> bytes \<times> bytes" where
  "ensure_endf c img ident =
    (if has_endf c img then (img, slice 8 16 (endf_trailer img))
     else let body_hash = mh c 8 img
          in (img @ ENDF_MAGIC @ le_u32 (of_nat (length img)) @ body_hash @
                le_u32 (fw_version ident) @ le_u32 (target_id ident) @ hw_field (hw_id ident),
              body_hash))"

definition target_id_for_env :: "crypto \<Rightarrow> bytes \<Rightarrow> u32" where
  "target_id_for_env c env = u32_le (mh c 4 env)"

lemma length_hw_field [mota_len, simp]: "length (hw_field hw) = 32"
  by (simp add: hw_field_def put_def mota_const Let_def)

lemma hw_field_short:
  "length hw \<le> 32 \<Longrightarrow> hw_field hw = hw @ replicate (32 - length hw) 0"
  by (simp add: hw_field_def put_def mota_const)

lemma cstr_hw_field:
  "length hw \<le> 32 \<Longrightarrow> is_ascii hw \<Longrightarrow> 0 \<notin> set hw \<Longrightarrow> cstr (hw_field hw) = hw"
  by (simp add: hw_field_short cstr_padded)

text \<open>The trailer that \<open>ensure_endf\<close> appends, by fields.\<close>

definition endf_fields :: "crypto \<Rightarrow> bytes \<Rightarrow> fw_ident \<Rightarrow> bytes" where
  "endf_fields c img ident =
     ENDF_MAGIC @ le_u32 (of_nat (length img)) @ mh c 8 img @
     le_u32 (fw_version ident) @ le_u32 (target_id ident) @ hw_field (hw_id ident)"

lemma length_endf_fields [mota_len]: "sha_ok c \<Longrightarrow> length (endf_fields c img ident) = 56"
  by (simp add: endf_fields_def length_mh)

lemma ensure_endf_fst:
  "fst (ensure_endf c img ident) =
    (if has_endf c img then img else img @ endf_fields c img ident)"
  by (simp add: ensure_endf_def endf_fields_def Let_def)

lemma ensure_endf_hash:
  "sha_ok c \<Longrightarrow> length img < 2 ^ 32 \<Longrightarrow>
    snd (ensure_endf c img ident) = mh c 8 (endf_body (fst (ensure_endf c img ident)))"
  by (auto simp: ensure_endf_def Let_def has_endf_def endf_body_def length_mh mota_const
      split: if_splits)

lemma endf_split:
  "length t = 56 \<Longrightarrow> endf_body (body @ t) = body"
  "length t = 56 \<Longrightarrow> endf_trailer (body @ t) = t"
  by (simp_all add: endf_body_def endf_trailer_def mota_const)

lemma endf_fields_slices:
  assumes "sha_ok c"
  shows "take 4 (endf_fields c img ident) = ENDF_MAGIC"
    and "slice 4 8 (endf_fields c img ident) = le_u32 (of_nat (length img))"
    and "slice 8 16 (endf_fields c img ident) = mh c 8 img"
    and "slice 16 20 (endf_fields c img ident) = le_u32 (fw_version ident)"
    and "slice 20 24 (endf_fields c img ident) = le_u32 (target_id ident)"
    and "slice 24 56 (endf_fields c img ident) = hw_field (hw_id ident)"
  using assms by (simp_all add: endf_fields_def slice_def length_mh)

lemma has_endf_appended:
  "sha_ok c \<Longrightarrow> length img < 2 ^ 32 \<Longrightarrow> has_endf c (img @ endf_fields c img ident)"
  by (simp add: has_endf_def Let_def endf_split length_endf_fields endf_fields_slices
      unat_of_nat mota_const)

lemma has_endf_ensure_endf:
  "sha_ok c \<Longrightarrow> length img < 2 ^ 32 \<Longrightarrow> has_endf c (fst (ensure_endf c img ident))"
  by (simp add: ensure_endf_fst has_endf_appended)

lemma has_endf_length: "has_endf c img \<Longrightarrow> 56 \<le> length img"
  by (auto simp: has_endf_def mota_const split: if_splits)

lemma ensure_endf_idem: "has_endf c img \<Longrightarrow> fst (ensure_endf c img ident) = img"
  by (simp add: ensure_endf_fst)

lemma parse_ident_ensure_endf:
  assumes "sha_ok c" and "length img < 2 ^ 32" and "\<not> has_endf c img"
    and "length (hw_id ident) \<le> 32" and "is_ascii (hw_id ident)" and "0 \<notin> set (hw_id ident)"
  shows "parse_ident c (fst (ensure_endf c img ident)) = ident"
  using assms
  by (simp add: ensure_endf_fst parse_ident_def has_endf_appended Let_def endf_split
      length_endf_fields endf_fields_slices cstr_hw_field mota_const)

text \<open>
  The recognised images, byte by byte: a body, the magic, the body's length, the first eight bytes of its SHA-256,
  then version, target and hardware id.
\<close>

definition trailed :: "crypto \<Rightarrow> bytes \<Rightarrow> u32 \<Rightarrow> u32 \<Rightarrow> bytes \<Rightarrow> bytes" where
  "trailed c body v t hw = body @ [69, 110, 100, 70] @ le_u32 (of_nat (length body)) @ take 8 (sha256 c body) @
     le_u32 v @ le_u32 t @ hw"

lemma endf_magic_bytes: "ENDF_MAGIC = [69, 110, 100, 70]"
  by (simp add: ENDF_MAGIC_def ascii_def)

lemma trailed_slices:
  fixes v t :: u32 and body hw :: bytes
  assumes "sha_ok c" and "length hw = 32"
  defines "tr \<equiv> drop (length body) (trailed c body v t hw)"
  shows "length (trailed c body v t hw) = length body + 56"
    and "endf_body (trailed c body v t hw) = body" and "endf_trailer (trailed c body v t hw) = tr"
    and "take 4 tr = ENDF_MAGIC" and "slice 4 8 tr = le_u32 (of_nat (length body))" and "slice 8 16 tr = mh c 8 body"
    and "slice 16 20 tr = le_u32 v" and "slice 20 24 tr = le_u32 t" and "slice 24 56 tr = hw"
  using assms(2) length_sha256 [OF assms(1)]
  by (simp_all add: tr_def trailed_def slice_def mh_def endf_magic_bytes endf_body_def endf_trailer_def mota_const)

lemma has_endf_trailed:
  assumes "sha_ok c" and "length hw = 32" and "length body < 2 ^ 32"
  shows "has_endf c (trailed c body v t hw)"
    and "parse_ident c (trailed c body v t hw) = \<lparr>fw_version = v, target_id = t, hw_id = cstr hw\<rparr>"
    and "ensure_endf c (trailed c body v t hw) ident = (trailed c body v t hw, take 8 (sha256 c body))"
proof -
  note s = trailed_slices [OF assms(1,2)]
  show e: "has_endf c (trailed c body v t hw)"
    using assms(3) by (simp add: has_endf_def s Let_def unat_of_nat mota_const)
  show "parse_ident c (trailed c body v t hw) = \<lparr>fw_version = v, target_id = t, hw_id = cstr hw\<rparr>"
    by (simp add: parse_ident_def e s mota_const)
  show "ensure_endf c (trailed c body v t hw) ident = (trailed c body v t hw, take 8 (sha256 c body))"
    by (simp add: ensure_endf_def e s mh_def)
qed

lemma has_endf_split:
  assumes "has_endf c img"
  obtains body v t hw where "img = trailed c body v t hw" and "length hw = 32" and "length body < 2 ^ 32"
proof
  let ?b = "endf_body img" and ?t = "endf_trailer img"
  have l: "length ?t = 56" and i: "img = ?b @ ?t"
    using has_endf_length [OF assms] by (simp_all add: endf_body_def endf_trailer_def mota_const)
  have h: "take 4 ?t = ENDF_MAGIC" "unat (u32_le (slice 4 8 ?t)) = length ?b" "slice 8 16 ?t = mh c 8 ?b"
    using assms by (auto simp: has_endf_def Let_def split: if_splits)
  have "?t = take 4 ?t @ slice 4 8 ?t @ slice 8 16 ?t @ slice 16 20 ?t @ slice 20 24 ?t @ slice 24 56 ?t"
    using l by (simp add: slice_join slice_drop_split [of 4 8, symmetric]) (simp add: slice_def)
  also have "slice 4 8 ?t = le_u32 (of_nat (length ?b))"
    using l u32f.enc_dec [of "slice 4 8 ?t"] by (simp flip: h(2))
  finally show "img = trailed c ?b (u32_le (slice 16 20 ?t)) (u32_le (slice 20 24 ?t)) (slice 24 56 ?t)"
    using i l h(1,3) u32f.enc_dec [of "slice 16 20 ?t"] u32f.enc_dec [of "slice 20 24 ?t"]
    by (simp add: trailed_def mh_def endf_magic_bytes)
  show "length (slice 24 56 ?t) = 32" using l by simp
  show "length ?b < 2 ^ 32" using unat_u32_bound [of "u32_le (slice 4 8 ?t)"] by (simp add: h(2))
qed

lemma has_endf_iff:
  assumes "sha_ok c"
  shows "has_endf c img \<longleftrightarrow> (\<exists>body v t hw. img = trailed c body v t hw \<and> length hw = 32 \<and> length body < 2 ^ 32)"
  using has_endf_trailed(1) [OF assms] has_endf_split by metis

text \<open>A change of a trailed body that keeps the trailer valid is a collision of the 8-byte hash.\<close>

lemma has_endf_binding:
  assumes "has_endf c (body1 @ t)" and "has_endf c (body2 @ t)" and "length t = 56"
  shows "length body1 = length body2 \<and> mh c 8 body1 = mh c 8 body2"
  using assms by (auto simp: has_endf_def Let_def endf_split mota_const split: if_splits)

section \<open>The nRF52 layout record\<close>

record nrf52_layout =
  l_app_base :: u32
  l_linked_app_end :: u32
  l_stage_ceiling :: u32
  l_flags :: u8

definition sd_backed :: "nrf52_layout \<Rightarrow> bool" where
  "sd_backed l \<longleftrightarrow> l_flags l AND NRF52_LAYOUT_FLAG_SD \<noteq> 0"

definition qspi_backed :: "nrf52_layout \<Rightarrow> bool" where
  "qspi_backed l \<longleftrightarrow> l_flags l AND NRF52_LAYOUT_FLAG_QSPI \<noteq> 0"

definition external_backed :: "nrf52_layout \<Rightarrow> bool" where
  "external_backed l \<longleftrightarrow> sd_backed l \<or> qspi_backed l"

definition uses_internal_extrafs :: "nrf52_layout \<Rightarrow> bool" where
  "uses_internal_extrafs l \<longleftrightarrow> l_flags l AND NRF52_LAYOUT_FLAG_INTERNAL_EXTRAFS \<noteq> 0"

definition bootloader_scratch :: "nrf52_layout \<Rightarrow> bool" where
  "bootloader_scratch l \<longleftrightarrow> l_flags l AND NRF52_LAYOUT_FLAG_BOOTLOADER_SCRATCH \<noteq> 0"

definition hybrid_ram :: "nrf52_layout \<Rightarrow> bool" where
  "hybrid_ram l \<longleftrightarrow> l_flags l AND NRF52_LAYOUT_FLAG_HYBRID_RAM \<noteq> 0"

definition auto_store :: "nrf52_layout \<Rightarrow> bool" where
  "auto_store l \<longleftrightarrow> l_flags l AND NRF52_LAYOUT_FLAG_AUTO_STORE \<noteq> 0"

definition application_ceiling :: "nrf52_layout \<Rightarrow> u32" where
  "application_ceiling l = (if bootloader_scratch l then l_linked_app_end l else NRF52_APP_END)"

definition expected_ceiling :: "nrf52_layout \<Rightarrow> u32" where
  "expected_ceiling l =
    (if external_backed l then NRF52_APP_END
     else if uses_internal_extrafs l then NRF52_EXTRAFS_START
     else NRF52_APP_END)"

definition layout_validate :: "nrf52_layout \<Rightarrow> unit result" where
  "layout_validate l =
    ensure (l_app_base l = NRF52_APP_BASE_S140_V6 \<or> l_app_base l = NRF52_APP_BASE_S140_V7)
      ''unsupported nRF52 app base'' (
    ensure (l_linked_app_end l = NRF52_EXTRAFS_START \<or> l_linked_app_end l = NRF52_BOOT_SCRATCH_START \<or>
        l_linked_app_end l = NRF52_APP_END)
      ''unsupported nRF52 linked app end'' (
    ensure (l_stage_ceiling l = NRF52_EXTRAFS_START \<or> l_stage_ceiling l = NRF52_APP_END)
      ''unsupported nRF52 staging ceiling'' (
    ensure (l_app_base l < l_linked_app_end l \<and> l_linked_app_end l \<le> NRF52_APP_END)
      ''invalid nRF52 app region'' (
    ensure (l_flags l AND NOT NRF52_LAYOUT_FLAGS_KNOWN = 0)
      ''unsupported nRF52 layout flags'' (
    ensure (\<not> (sd_backed l \<and> qspi_backed l))
      ''nRF52 layout cannot use both SD and QSPI staging'' (
    ensure (\<not> (external_backed l \<and> uses_internal_extrafs l))
      ''nRF52 external staging cannot also reserve internal ExtraFS'' (
    ensure (\<not> auto_store l \<or> (\<not> external_backed l \<and> \<not> uses_internal_extrafs l))
      ''nRF52 adaptive staging requires an exclusive internal layout'' (
    ensure (hybrid_ram l \<longrightarrow> \<not> external_backed l \<and> \<not> uses_internal_extrafs l \<and>
        l_linked_app_end l = NRF52_APP_END \<and> l_stage_ceiling l = NRF52_APP_END)
      ''nRF52 hybrid RAM staging requires the exact 0xED000 internal-only profile'' (
    (if bootloader_scratch l then
       ensure (qspi_backed l \<and> \<not> sd_backed l \<and> l_linked_app_end l = NRF52_BOOT_SCRATCH_START)
         ''nRF52 bootloader scratch requires the QSPI scratch layout''
     else
       ensure (l_linked_app_end l \<noteq> NRF52_BOOT_SCRATCH_START)
         ''reserved bootloader geometry requires the bootloader-scratch flag'') (
    ensure (l_stage_ceiling l = expected_ceiling l)
      ''nRF52 staging ceiling is inconsistent with layout flags'' (
    Inr ())))))))))))"

definition build_nrf52_layout :: "nrf52_layout \<Rightarrow> bytes result" where
  "build_nrf52_layout l =
    bindr (layout_validate l) (\<lambda>_.
      let out0 = replicate NRF52_LAYOUT_LEN 0;
          out1 = put 0 NRF52_LAYOUT_MAGIC out0;
          out2 = out1[8 := NRF52_LAYOUT_VERSION];
          out3 = out2[9 := l_flags l];
          out4 = put 10 (le_u16 (of_nat NRF52_LAYOUT_LEN)) out3;
          out5 = put 12 (le_u32 (l_app_base l)) out4;
          out6 = put 16 (le_u32 (l_linked_app_end l)) out5;
          out7 = put 20 (le_u32 (l_stage_ceiling l)) out6
      in Inr out7)"

definition parse_nrf52_layout :: "crypto \<Rightarrow> bytes \<Rightarrow> nrf52_layout option result" where
  "parse_nrf52_layout c img =
    (if \<not> has_endf c img \<or> length img < ENDF_LEN + NRF52_LAYOUT_LEN then Inr None
     else let start = length img - ENDF_LEN - NRF52_LAYOUT_LEN in
       bindr (rng img start (start + NRF52_LAYOUT_LEN)) (\<lambda>record.
       if take 8 record \<noteq> NRF52_LAYOUT_MAGIC then Inr None
       else ensure (record ! 8 = NRF52_LAYOUT_VERSION) ''unsupported nRF52 layout version'' (
            ensure (unat (u16_le [record ! 10, record ! 11]) = NRF52_LAYOUT_LEN)
              ''invalid nRF52 layout record length'' (
            bindr (rd_u32 record 12) (\<lambda>ab.
            bindr (rd_u32 record 16) (\<lambda>le.
            bindr (rd_u32 record 20) (\<lambda>sc.
            let l = \<lparr>l_app_base = ab, l_linked_app_end = le, l_stage_ceiling = sc,
                     l_flags = record ! 9\<rparr>
            in bindr (layout_validate l) (\<lambda>_. Inr (Some l)))))))))"

text \<open>Specification: the three families of supported layouts.\<close>

definition external_profile :: "nrf52_layout \<Rightarrow> bool" where
  "external_profile l \<longleftrightarrow>
     l_stage_ceiling l = NRF52_APP_END \<and>
     (l_flags l = NRF52_LAYOUT_FLAG_SD \<and> l_linked_app_end l \<in> {NRF52_EXTRAFS_START, NRF52_APP_END} \<or>
      l_flags l = NRF52_LAYOUT_FLAG_QSPI \<and> l_linked_app_end l \<in> {NRF52_EXTRAFS_START, NRF52_APP_END} \<or>
      l_flags l = (NRF52_LAYOUT_FLAG_QSPI OR NRF52_LAYOUT_FLAG_BOOTLOADER_SCRATCH) \<and>
        l_linked_app_end l = NRF52_BOOT_SCRATCH_START)"

definition extrafs_profile :: "nrf52_layout \<Rightarrow> bool" where
  "extrafs_profile l \<longleftrightarrow>
     l_flags l = NRF52_LAYOUT_FLAG_INTERNAL_EXTRAFS \<and> l_stage_ceiling l = NRF52_EXTRAFS_START \<and>
     l_linked_app_end l \<in> {NRF52_EXTRAFS_START, NRF52_APP_END}"

definition internal_profile :: "nrf52_layout \<Rightarrow> bool" where
  "internal_profile l \<longleftrightarrow>
     l_stage_ceiling l = NRF52_APP_END \<and>
     (l_flags l \<in> {0, NRF52_LAYOUT_FLAG_AUTO_STORE} \<and>
        l_linked_app_end l \<in> {NRF52_EXTRAFS_START, NRF52_APP_END} \<or>
      l_flags l \<in> {NRF52_LAYOUT_FLAG_HYBRID_RAM,
          NRF52_LAYOUT_FLAG_HYBRID_RAM OR NRF52_LAYOUT_FLAG_AUTO_STORE} \<and>
        l_linked_app_end l = NRF52_APP_END)"

definition supported_layout :: "nrf52_layout \<Rightarrow> bool" where
  "supported_layout l \<longleftrightarrow>
     l_app_base l \<in> {NRF52_APP_BASE_S140_V6, NRF52_APP_BASE_S140_V7} \<and>
     (external_profile l \<or> extrafs_profile l \<or> internal_profile l)"

subsection \<open>Validation accepts exactly the supported layouts\<close>

lemma known_flags_bound: "l_flags l AND NOT NRF52_LAYOUT_FLAGS_KNOWN = 0 \<Longrightarrow> unat (l_flags l) < 64"
proof -
  assume a: "l_flags l AND NOT NRF52_LAYOUT_FLAGS_KNOWN = 0"
  have "l_flags l = (l_flags l AND NRF52_LAYOUT_FLAGS_KNOWN) OR (l_flags l AND NOT NRF52_LAYOUT_FLAGS_KNOWN)"
    by (rule bit_word_eqI) (auto simp: bit_simps)
  with a have "l_flags l = l_flags l AND 0x3F" by (simp add: mota_const)
  then have "l_flags l \<le> 0x3F" by (metis word_and_le1)
  then show ?thesis by (simp add: word_le_nat_alt)
qed

lemmas flag_predicates = sd_backed_def qspi_backed_def external_backed_def uses_internal_extrafs_def
  bootloader_scratch_def hybrid_ram_def auto_store_def

text \<open>The conditions that bear on the flag byte alone, as a computable test.\<close>

definition flags_consistent :: "u8 \<Rightarrow> bool" where
  "flags_consistent f \<longleftrightarrow>
     (let sd = f AND 1 \<noteq> 0; extrafs = f AND 2 \<noteq> 0; qspi = f AND 4 \<noteq> 0; scratch = f AND 8 \<noteq> 0;
          hybrid = f AND 16 \<noteq> 0; auto = f AND 32 \<noteq> 0
      in \<not> (sd \<and> qspi) \<and> \<not> ((sd \<or> qspi) \<and> extrafs) \<and>
         (auto \<longrightarrow> \<not> sd \<and> \<not> qspi \<and> \<not> extrafs) \<and>
         (hybrid \<longrightarrow> \<not> sd \<and> \<not> qspi \<and> \<not> extrafs) \<and> (scratch \<longrightarrow> qspi))"

lemma flags_consistent_all:
  "list_all (\<lambda>f. flags_consistent f \<longrightarrow> List.member [0, 1, 2, 4, 12, 16, 32, 48] f) (map of_nat [0..<64])"
  by code_simp

lemma layout_flag_cases:
  assumes "l_flags l AND NOT NRF52_LAYOUT_FLAGS_KNOWN = 0"
    and "\<not> (sd_backed l \<and> qspi_backed l)"
    and "\<not> (external_backed l \<and> uses_internal_extrafs l)"
    and "\<not> auto_store l \<or> (\<not> external_backed l \<and> \<not> uses_internal_extrafs l)"
    and "hybrid_ram l \<Longrightarrow> \<not> external_backed l \<and> \<not> uses_internal_extrafs l"
    and "bootloader_scratch l \<Longrightarrow> qspi_backed l"
  shows "l_flags l \<in> {0, 1, 2, 4, 12, 16, 32, 48}"
proof -
  have "unat (l_flags l) \<in> set [0..<64]"
    using known_flags_bound [OF assms(1)] by simp
  then have "l_flags l \<in> set (map of_nat [0..<64])"
    by (metis image_eqI list.set_map word_unat_eq_iff unat_of_nat_u8 unat_mod_256)
  moreover have "flags_consistent (l_flags l)"
    using assms(2-) by (auto simp: flags_consistent_def Let_def flag_predicates mota_const)
  ultimately have "List.member [0, 1, 2, 4, 12, 16, 32, 48] (l_flags l)"
    using flags_consistent_all unfolding list_all_iff by blast
  then show ?thesis by simp
qed

lemma layout_validate_conds:
  "layout_validate l = Inr () \<longleftrightarrow>
     (l_app_base l = NRF52_APP_BASE_S140_V6 \<or> l_app_base l = NRF52_APP_BASE_S140_V7) \<and>
     (l_linked_app_end l = NRF52_EXTRAFS_START \<or> l_linked_app_end l = NRF52_BOOT_SCRATCH_START \<or>
        l_linked_app_end l = NRF52_APP_END) \<and>
     l_flags l AND NOT NRF52_LAYOUT_FLAGS_KNOWN = 0 \<and>
     \<not> (sd_backed l \<and> qspi_backed l) \<and>
     \<not> (external_backed l \<and> uses_internal_extrafs l) \<and>
     (\<not> auto_store l \<or> (\<not> external_backed l \<and> \<not> uses_internal_extrafs l)) \<and>
     (hybrid_ram l \<longrightarrow> \<not> external_backed l \<and> \<not> uses_internal_extrafs l \<and>
        l_linked_app_end l = NRF52_APP_END \<and> l_stage_ceiling l = NRF52_APP_END) \<and>
     (if bootloader_scratch l
      then qspi_backed l \<and> \<not> sd_backed l \<and> l_linked_app_end l = NRF52_BOOT_SCRATCH_START
      else l_linked_app_end l \<noteq> NRF52_BOOT_SCRATCH_START) \<and>
     l_stage_ceiling l = expected_ceiling l"
  (is "?lhs \<longleftrightarrow> ?rhs")
proof
  assume ?lhs
  then show ?rhs by (simp add: layout_validate_def split: if_splits)
next
  assume r: ?rhs
  then have "l_app_base l < l_linked_app_end l \<and> l_linked_app_end l \<le> NRF52_APP_END"
    by (elim conjE disjE) (simp_all add: mota_const)
  moreover have "l_stage_ceiling l = NRF52_EXTRAFS_START \<or> l_stage_ceiling l = NRF52_APP_END"
    using r by (simp add: expected_ceiling_def split: if_splits)
  ultimately show ?lhs using r
    unfolding layout_validate_def by (cases "bootloader_scratch l") (auto simp del: bindr_Inr)
qed

lemmas layout_profile_defs = supported_layout_def external_profile_def extrafs_profile_def
  internal_profile_def

lemma nrf52_ends_distinct:
  "NRF52_EXTRAFS_START \<noteq> NRF52_APP_END" "NRF52_APP_END \<noteq> NRF52_EXTRAFS_START"
  "NRF52_EXTRAFS_START \<noteq> NRF52_BOOT_SCRATCH_START" "NRF52_BOOT_SCRATCH_START \<noteq> NRF52_EXTRAFS_START"
  "NRF52_APP_END \<noteq> NRF52_BOOT_SCRATCH_START" "NRF52_BOOT_SCRATCH_START \<noteq> NRF52_APP_END"
  by (simp_all add: mota_const)

lemma layout_validate_flags:
  "layout_validate l = Inr () \<Longrightarrow> l_flags l \<in> {0, 1, 2, 4, 12, 16, 32, 48}"
  by (intro layout_flag_cases) (simp_all add: layout_validate_conds split: if_splits)

lemma layout_validate_supported: "layout_validate l = Inr () \<Longrightarrow> supported_layout l"
proof -
  assume v: "layout_validate l = Inr ()"
  have lk: "l_linked_app_end l \<in> {NRF52_EXTRAFS_START, NRF52_BOOT_SCRATCH_START, NRF52_APP_END}"
    using v by (simp add: layout_validate_conds)
  from layout_validate_flags [OF v] lk v show "supported_layout l"
    unfolding layout_validate_conds layout_profile_defs
    by (elim insertE emptyE)
      (simp_all add: flag_predicates expected_ceiling_def mota_const)
qed

lemma supported_layout_validate: "supported_layout l \<Longrightarrow> layout_validate l = Inr ()"
proof -
  assume "supported_layout l"
  then have b: "l_app_base l = NRF52_APP_BASE_S140_V6 \<or> l_app_base l = NRF52_APP_BASE_S140_V7"
    and p: "external_profile l \<or> extrafs_profile l \<or> internal_profile l"
    by (simp_all add: supported_layout_def)
  from p show "layout_validate l = Inr ()"
    unfolding external_profile_def extrafs_profile_def internal_profile_def
    by (elim insertE emptyE conjE disjE)
      (use b in \<open>simp_all add: layout_validate_conds flag_predicates expected_ceiling_def mota_const\<close>)
qed

lemma layout_validate_Inr: "layout_validate l = Inr u \<longleftrightarrow> supported_layout l"
  using layout_validate_supported supported_layout_validate by (cases u) blast

definition layout_record :: "nrf52_layout \<Rightarrow> bytes" where
  "layout_record l = NRF52_LAYOUT_MAGIC @ [NRF52_LAYOUT_VERSION, l_flags l] @ le_u16 24 @
     le_u32 (l_app_base l) @ le_u32 (l_linked_app_end l) @ le_u32 (l_stage_ceiling l)"

lemma le_u16_list: "le_u16 v = [of_nat (unat v), of_nat (unat v div 256)]"
  by (simp add: le_u16_def numeral_2_eq_2)

lemma length_layout_record [simp]: "length (layout_record l) = 24"
  by (simp add: layout_record_def)

lemma take_2_updates: "take 2 ((replicate 16 0)[0 := a, Suc 0 := b]) = [a, b]"
  by (simp add: numeral_eq_Suc)

lemma build_nrf52_layout_eq:
  "build_nrf52_layout l = bindr (layout_validate l) (\<lambda>_. Inr (layout_record l))"
  by (simp add: build_nrf52_layout_def layout_record_def Let_def put_def mota_const le_u16_list
     list_update_append take_2_updates)

lemma layout_record_slices:
  "take 8 (layout_record l) = NRF52_LAYOUT_MAGIC"
  "layout_record l ! 8 = NRF52_LAYOUT_VERSION"
  "layout_record l ! 9 = l_flags l"
  "[layout_record l ! 10, layout_record l ! 11] = le_u16 24"
  "slice 12 16 (layout_record l) = le_u32 (l_app_base l)"
  "slice 16 20 (layout_record l) = le_u32 (l_linked_app_end l)"
  "slice 20 24 (layout_record l) = le_u32 (l_stage_ceiling l)"
  by (simp_all add: layout_record_def slice_def nth_append le_u16_list)

subsection \<open>The record round trip\<close>

lemma layout_eta:
  "\<lparr>l_app_base = l_app_base l, l_linked_app_end = l_linked_app_end l,
    l_stage_ceiling = l_stage_ceiling l, l_flags = l_flags l\<rparr> = l"
  by simp

lemma parse_nrf52_layout_record:
  assumes "sha_ok c" and "length (body @ layout_record l) < 2 ^ 32" and "supported_layout l"
  shows "parse_nrf52_layout c (body @ layout_record l @ endf_fields c (body @ layout_record l) ident) =
    Inr (Some l)"
proof -
  let ?t = "endf_fields c (body @ layout_record l) ident"
  let ?img = "body @ layout_record l @ ?t"
  have t: "length ?t = 56" using assms(1) by (rule length_endf_fields)
  have e: "has_endf c ?img" using has_endf_appended [OF assms(1,2), of ident] by simp
  have st: "length ?img - ENDF_LEN - NRF52_LAYOUT_LEN = length body"
    using t by (simp add: mota_const)
  have r: "rng ?img (length body) (length body + NRF52_LAYOUT_LEN) = Inr (layout_record l)"
    using slice_append_exact [of body "layout_record l" ?t] t by (simp add: rng_def mota_const)
  have len: "\<not> length ?img < ENDF_LEN + NRF52_LAYOUT_LEN" using t by (simp add: mota_const)
  have v: "layout_validate l = Inr ()" using assms(3) by (rule supported_layout_validate)
  show ?thesis
    unfolding parse_nrf52_layout_def st Let_def
    using e len r v by (simp add: layout_record_slices rd_u32_ok mota_const layout_eta)
qed

lemma parse_nrf52_layout_Some:
  assumes "parse_nrf52_layout c img = Inr (Some l)"
  shows "supported_layout l" and "has_endf c img" and "80 \<le> length img"
    and "slice (length img - 80) (length img - 56) img = layout_record l"
proof -
  have h: "has_endf c img" "80 \<le> length img"
    using assms by (auto simp: parse_nrf52_layout_def mota_const split: if_splits)
  define r where "r = slice (length img - 80) (length img - 56) img"
  have lr: "length r = 24" using h by (simp add: r_def)
  have rg: "rng img (length img - ENDF_LEN - NRF52_LAYOUT_LEN)
      (length img - ENDF_LEN - NRF52_LAYOUT_LEN + NRF52_LAYOUT_LEN) = Inr r"
    using h by (simp add: rng_def r_def mota_const)
  have *: "take 8 r = NRF52_LAYOUT_MAGIC" "r ! 8 = NRF52_LAYOUT_VERSION"
    "unat (u16_le [r ! 10, r ! 11]) = 24"
    "l_app_base l = u32_le (slice 12 16 r)" "l_linked_app_end l = u32_le (slice 16 20 r)"
    "l_stage_ceiling l = u32_le (slice 20 24 r)" "l_flags l = r ! 9" "supported_layout l"
    using assms h lr unfolding parse_nrf52_layout_def Let_def rg
    by (auto simp: rd_u32_ok layout_validate_Inr mota_const split: if_splits)
  show "supported_layout l" "has_endf c img" "80 \<le> length img" using * h by simp_all
  have b: "[r ! 10, r ! 11] = le_u16 24"
  proof -
    have "u16_le [r ! 10, r ! 11] = 24" using *(3) by (simp add: word_unat_eq_iff)
    then show ?thesis using u16f.enc_dec [of "[r ! 10, r ! 11]"] by simp
  qed
  have "r = take 8 r @ [r ! 8, r ! 9] @ [r ! 10, r ! 11] @ slice 12 16 r @ slice 16 20 r @ slice 20 24 r"
    by (rule nth_equalityI) (auto simp: lr slice_def nth_append nth_Cons' less_Suc_eq numeral_eq_Suc)
  also have "\<dots> = layout_record l"
    using * lr b u32f.enc_dec by (simp add: layout_record_def)
  finally show "slice (length img - 80) (length img - 56) img = layout_record l"
    by (simp add: r_def)
qed

end
