(* ===== verification/Mota_Crle.thy ===== *)
theory Mota_Crle
  imports Mota_Prelude
begin

text \<open>
  The lower layers of \<open>src/encode.rs\<close>: the signed varint \<open>pack_size\<close>, the unsigned varint of the
  conditional run-length compressor, and \<open>crle_compress\<close>. The decoders are specifications: the
  inverse readings the comments of the source describe (the decoder proper is detools, a third-party
  program). An \<open>i64\<close> or \<open>u64\<close> that holds a length or a distance between buffer positions is an
  \<open>int\<close> or a \<open>nat\<close>: its magnitude is below \<open>2 ^ 63\<close> for every buffer that fits in memory.
\<close>

section \<open>The code\<close>

definition CRLE_SCATTERED :: u8 where [mota_const]: "CRLE_SCATTERED = 0"
definition CRLE_REPEATED :: u8 where [mota_const]: "CRLE_REPEATED = 1"
definition CRLE_MIN_REPEAT :: nat where [mota_const]: "CRLE_MIN_REPEAT = 6"

text \<open>The loop of \<open>pack_size\<close>: \<open>byte\<close> is pending, \<open>v\<close> is what is left.\<close>

fun pack_rest :: "u8 \<Rightarrow> nat \<Rightarrow> bytes" where
  "pack_rest byte v =
    (if 0 < v then (byte OR 0x80) # pack_rest (of_nat v AND 0x7f) (v div 128) else [byte])"

declare pack_rest.simps [simp del]

definition pack_size :: "int \<Rightarrow> bytes" where
  "pack_size value =
    (let (sign, v) = (if value < 0 then (0x40, nat (- value)) else (0 :: u8, nat value))
     in pack_rest (sign OR (of_nat v AND 0x3f)) (v div 64))"

fun crle_groups :: "nat \<Rightarrow> bytes" where
  "crle_groups value =
    (0x80 OR (of_nat value AND 0x7f)) # (if 0 < value div 128 then crle_groups (value div 128) else [])"

declare crle_groups.simps [simp del]

definition crle_pack_size :: "nat \<Rightarrow> bytes" where
  "crle_pack_size value =
    (let out = crle_groups value; last_i = length out - 1
     in out[last_i := out ! last_i AND 0x7f])"

text \<open>\<open>run_length data o\<close> is the inner loop of \<open>first_run\<close>.\<close>

definition run_length :: "bytes \<Rightarrow> nat \<Rightarrow> nat" where
  "run_length data i = length (takeWhile (\<lambda>x. x = data ! i) (drop i data))"

lemma run_length_pos: "i < length data \<Longrightarrow> 0 < run_length data i"
  by (cases "drop i data") (auto simp: run_length_def hd_drop_conv_nth [symmetric])

lemma run_length_dec: "i < length data \<Longrightarrow> length data - (i + run_length data i) < length data - i"
  using run_length_pos [of i data] by linarith

lemma run_length_le: "run_length data i \<le> length data - i"
  using length_takeWhile_le [of _ "drop i data"] by (simp add: run_length_def)

function first_run :: "bytes \<Rightarrow> nat \<Rightarrow> (nat \<times> nat) option" where
  "first_run data i =
    (if i < length data then
       (let l = run_length data i in
        if CRLE_MIN_REPEAT \<le> l then Some (i, l) else first_run data (i + l))
     else None)"
  by pat_completeness auto
termination
  by (relation "measure (\<lambda>(data, i). length data - i)") (auto simp: run_length_dec)

declare first_run.simps [simp del]

definition emit_scattered :: "bytes \<Rightarrow> bytes \<Rightarrow> bytes" where
  "emit_scattered out bs = out @ [CRLE_SCATTERED] @ crle_pack_size (length bs) @ bs"

lemma first_run_bounds: "first_run data i = Some (j, l) \<Longrightarrow>
    i \<le> j \<and> j < length data \<and> l = run_length data j \<and> CRLE_MIN_REPEAT \<le> l"
proof (induction data i rule: first_run.induct)
  case (1 data i)
  have "first_run data (i + run_length data i) = Some (j, l) \<or> i = j \<and> l = run_length data j \<and> CRLE_MIN_REPEAT \<le> l"
    and "i < length data"
    using "1.prems" by (subst (asm) first_run.simps, auto simp: Let_def split: if_splits)+
  then show ?case using "1.IH" "1.prems" by (subst (asm) (3) first_run.simps) (auto simp: Let_def split: if_splits)
qed

function crle_loop :: "bytes \<Rightarrow> nat \<Rightarrow> bytes \<Rightarrow> bytes" where
  "crle_loop data i out =
    (if i < length data then
       (case first_run data i of
          None \<Rightarrow> crle_loop data (length data) (emit_scattered out (drop i data))
        | Some (j, rlen) \<Rightarrow>
            if i < j then crle_loop data j (emit_scattered out (slice i j data))
            else crle_loop data (i + rlen)
                   (out @ [CRLE_REPEATED] @ crle_pack_size rlen @ [data ! i]))
     else out)"
  by pat_completeness auto
termination
  by (relation "measure (\<lambda>(data, i, out). length data - i)")
    (auto dest!: first_run_bounds simp: run_length_dec)

declare crle_loop.simps [simp del]

definition crle_compress :: "bytes \<Rightarrow> bytes" where
  "crle_compress data =
    (if data = [] then [CRLE_SCATTERED] @ crle_pack_size 0 else crle_loop data 0 [])"

section \<open>Interface: self-delimiting encodings\<close>

locale byte_codec =
  fixes enc :: "'a \<Rightarrow> bytes"
    and dec :: "bytes \<Rightarrow> ('a \<times> bytes) option"
  assumes dec_enc: "dec (enc x @ rest) = Some (x, rest)"
begin

lemma enc_prefix_free: "enc x @ r = enc y @ s \<Longrightarrow> x = y \<and> r = s"
  by (metis Pair_inject dec_enc option.inject)

lemma enc_inject: "enc x = enc y \<longleftrightarrow> x = y"
  using enc_prefix_free [of x "[]" y "[]"] by auto

end

section \<open>Readings\<close>

text \<open>
  The inverse of \<open>pack_size\<close>: bit 7 continues, bit 6 of the first byte is the sign, then six bits and
  seven bits per further byte, least significant first.
\<close>

fun unpack_more :: "bytes \<Rightarrow> (nat \<times> bytes) option" where
  "unpack_more [] = None"
| "unpack_more (b # bs) =
    (if 128 \<le> unat b
     then map_option (\<lambda>(v, rest). (unat b mod 128 + 128 * v, rest)) (unpack_more bs)
     else Some (unat b mod 128, bs))"

fun unpack_size :: "bytes \<Rightarrow> (int \<times> bytes) option" where
  "unpack_size [] = None"
| "unpack_size (b # bs) =
    map_option (\<lambda>(v, rest). (if 64 \<le> unat b mod 128 then - int v else int v, rest))
      (if 128 \<le> unat b
       then map_option (\<lambda>(v, rest). (unat b mod 64 + 64 * v, rest)) (unpack_more bs)
       else Some (unat b mod 64, bs))"

lemma unpack_more_length: "unpack_more bs = Some (v, rest) \<Longrightarrow> length rest < length bs"
  by (induction bs arbitrary: v) (fastforce split: if_splits)+

text \<open>The inverse of the compressor: a kind byte, a length, and the bytes or the repeated byte.\<close>

function crle_expand :: "bytes \<Rightarrow> bytes option" where
  "crle_expand [] = Some []"
| "crle_expand (kind # bs) =
    (case unpack_more bs of
       None \<Rightarrow> None
     | Some (n, rest) \<Rightarrow>
         if kind = CRLE_SCATTERED then
           (if length rest < n then None
            else map_option (\<lambda>t. take n rest @ t) (crle_expand (drop n rest)))
         else if kind = CRLE_REPEATED then
           (case rest of [] \<Rightarrow> None | b # rest' \<Rightarrow> map_option (\<lambda>t. replicate n b @ t) (crle_expand rest'))
         else None)"
  by pat_completeness auto
termination
  by (relation "measure length") (auto dest!: unpack_more_length)

declare crle_expand.simps(2) [simp del]

section \<open>Round trips\<close>

lemma unat_and_mask7: "unat ((of_nat v :: u8) AND 0x7f) = v mod 128"
proof -
  have "(0x7f :: u8) = mask 7" by (simp add: mask_eq_exp_minus_1)
  then have "unat ((of_nat v :: u8) AND 0x7f) = take_bit 7 (unat (of_nat v :: u8))"
    by (simp only: take_bit_eq_mask [symmetric] unsigned_take_bit_eq)
  also have "\<dots> = v mod 128" by (simp add: take_bit_eq_mod mod_mod_cancel)
  finally show ?thesis .
qed

lemma unat_and_mask6: "unat ((of_nat v :: u8) AND 0x3f) = v mod 64"
proof -
  have "(0x3f :: u8) = mask 6" by (simp add: mask_eq_exp_minus_1)
  then have "unat ((of_nat v :: u8) AND 0x3f) = take_bit 6 (unat (of_nat v :: u8))"
    by (simp only: take_bit_eq_mask [symmetric] unsigned_take_bit_eq)
  also have "\<dots> = v mod 64" by (simp add: take_bit_eq_mod mod_mod_cancel)
  finally show ?thesis .
qed

lemma unat_or_disjoint:
  assumes "(a :: u8) AND b = 0"
  shows "unat (a OR b) = unat a + unat b"
proof -
  have "unat a AND unat b = unat (a AND b)" by (simp add: unsigned_and_eq)
  with assms have "unat a AND unat b = 0" by simp
  then show ?thesis by (simp add: unsigned_or_eq disjunctive_add_eq_or)
qed

lemma unat_cont7: "unat ((of_nat v AND 0x7f) OR (0x80 :: u8)) = v mod 128 + 128"
  by (subst unat_or_disjoint) (simp_all add: unat_and_mask7 and.assoc)

lemma unat_first:
  assumes "s \<in> {0, 0x40 :: u8}"
  shows "unat (s OR (of_nat v AND 0x3f)) = unat s + v mod 64"
    and "unat ((s OR (of_nat v AND 0x3f)) OR 0x80) = unat s + v mod 64 + 128"
proof -
  have d: "s AND (of_nat v AND 0x3f) = 0" using assms by (auto simp: and.left_commute [of _ "of_nat v"])
  have e: "(s OR (of_nat v AND 0x3f)) AND 0x80 = 0"
    using assms by (auto simp: bit.conj_disj_distrib2 and.assoc)
  show "unat (s OR (of_nat v AND 0x3f)) = unat s + v mod 64"
    by (simp only: unat_or_disjoint [OF d] unat_and_mask6)
  then show "unat ((s OR (of_nat v AND 0x3f)) OR 0x80) = unat s + v mod 64 + 128"
    by (simp only: unat_or_disjoint [OF e]) simp
qed

lemma unpack_more_pack_rest:
  "unpack_more (pack_rest (of_nat k AND 0x7f) v @ rest) = Some (k mod 128 + 128 * v, rest)"
proof (induction v arbitrary: k rule: less_induct)
  case (less v)
  show ?case
  proof (cases "0 < v")
    case True
    then have "v div 128 < v" by simp
    then have "unpack_more (pack_rest (of_nat v AND 0x7f) (v div 128) @ rest) = Some (v, rest)"
      using less.IH [of "v div 128" v] by (simp add: mult.commute)
    then show ?thesis using True
      by (subst pack_rest.simps) (simp add: unat_cont7 del: push_bit_of_1)
  next
    case False
    moreover have "\<not> 128 \<le> k mod 128" by (simp add: not_le)
    ultimately show ?thesis by (subst pack_rest.simps) (simp add: unat_and_mask7)
  qed
qed

lemma unpack_size_pack_size: "unpack_size (pack_size x @ rest) = Some (x, rest)"
proof -
  define s :: u8 where "s = (if x < 0 then 0x40 else 0)"
  define v where "v = nat \<bar>x\<bar>"
  have p: "pack_size x = pack_rest (s OR (of_nat v AND 0x3f)) (v div 64)"
    by (simp add: pack_size_def s_def v_def)
  have s: "s \<in> {0, 0x40}" by (simp add: s_def)
  have v: "(if 64 \<le> unat s + v mod 64 then - int v else int v) = x"
    by (auto simp: s_def v_def not_le)
  have m: "(unat s + v mod 64) mod 64 = v mod 64" "(unat s + v mod 64 + 128) mod 128 = unat s + v mod 64"
    "(unat s + v mod 64 + 128) mod 64 = v mod 64"
  proof -
    have "(t + r) mod 64 = r \<and> (t + r + 128) mod 128 = t + r \<and> (t + r + 128) mod 64 = r"
      if "r < 64" "t = 0 \<or> t = 64" for r t :: nat
      using that by (auto simp: le_mod_geq)
    from this [of "v mod 64" "unat s"]
    have "(unat s + v mod 64) mod 64 = v mod 64 \<and> (unat s + v mod 64 + 128) mod 128 = unat s + v mod 64 \<and>
        (unat s + v mod 64 + 128) mod 64 = v mod 64"
      using mod_less_divisor [of 64 v] by (cases "x < 0") (simp_all add: s_def)
    then show "(unat s + v mod 64) mod 64 = v mod 64"
      "(unat s + v mod 64 + 128) mod 128 = unat s + v mod 64" "(unat s + v mod 64 + 128) mod 64 = v mod 64"
      by blast+
  qed
  have l: "unat s + v mod 64 < 128" by (auto simp: s_def)
  show ?thesis
  proof (cases "0 < v div 64")
    case True
    have q: "v div 64 mod 128 + 128 * (v div 64 div 128) = v div 64" by simp
    from True show ?thesis
      unfolding p using v l
      by (subst pack_rest.simps) (simp add: unat_first [OF s] unpack_more_pack_rest q m)
  next
    case False
    then show ?thesis
      unfolding p using l v m by (subst pack_rest.simps) (simp add: unat_first [OF s])
  qed
qed

interpretation size_codec: byte_codec pack_size unpack_size
  by unfold_locales (rule unpack_size_pack_size)

lemma crle_groups_nonempty: "crle_groups v \<noteq> []"
  by (subst crle_groups.simps) simp

lemma crle_pack_size_pack_rest: "crle_pack_size v = pack_rest (of_nat v AND 0x7f) (v div 128)"
proof (induction v rule: less_induct)
  case (less v)
  show ?case
  proof (cases "0 < v div 128")
    case True
    let ?g = "crle_groups (v div 128)"
    have "crle_pack_size v = (0x80 OR (of_nat v AND 0x7f)) # crle_pack_size (v div 128)"
      using True crle_groups_nonempty [of "v div 128"]
      by (subst crle_pack_size_def, subst crle_groups.simps)
        (simp add: crle_pack_size_def Let_def list_update.simps nth_Cons' split: nat.splits)
    also have "crle_pack_size (v div 128) = pack_rest (of_nat (v div 128) AND 0x7f) (v div 128 div 128)"
      using True by (intro less.IH) simp
    finally show ?thesis using True by (subst pack_rest.simps) (simp add: or.commute)
  next
    case False
    then show ?thesis
      by (subst crle_pack_size_def, subst crle_groups.simps, subst pack_rest.simps)
        (simp add: bit.conj_disj_distrib2 and.assoc)
  qed
qed

lemma unpack_more_crle_pack_size: "unpack_more (crle_pack_size n @ rest) = Some (n, rest)"
  by (simp add: crle_pack_size_pack_rest unpack_more_pack_rest)

interpretation crle_codec: byte_codec crle_pack_size unpack_more
  by unfold_locales (rule unpack_more_crle_pack_size)

lemma crle_expand_scattered:
  "crle_expand (CRLE_SCATTERED # crle_pack_size (length bs) @ bs @ e) = map_option (\<lambda>t. bs @ t) (crle_expand e)"
  by (simp add: crle_expand.simps(2) crle_codec.dec_enc)

lemma crle_expand_repeated:
  "crle_expand (CRLE_REPEATED # crle_pack_size n @ b # e) = map_option (\<lambda>t. replicate n b @ t) (crle_expand e)"
  by (simp add: crle_expand.simps(2) crle_codec.dec_enc mota_const)

lemma run_length_split:
  "drop i data = replicate (run_length data i) (data ! i) @ drop (i + run_length data i) data"
proof -
  let ?p = "\<lambda>x. x = data ! i" and ?d = "drop i data"
  have "takeWhile ?p ?d = replicate (length (takeWhile ?p ?d)) (data ! i)"
    by (rule replicate_eqI) (auto dest: set_takeWhileD)
  moreover have "?d = takeWhile ?p ?d @ dropWhile ?p ?d" by simp
  moreover have "dropWhile ?p ?d = drop (length (takeWhile ?p ?d)) ?d" by (rule dropWhile_eq_drop)
  ultimately show ?thesis
    by (metis run_length_def drop_drop add.commute)
qed

lemma crle_loop_expand:
  "\<exists>e. crle_loop data i out = out @ e \<and> crle_expand e = Some (drop i data)"
proof (induction data i out rule: crle_loop.induct)
  case (1 data i out)
  show ?case
  proof (cases "i < length data")
    case False
    then show ?thesis by (simp add: crle_loop.simps [of data i])
  next
    case True
    show ?thesis
    proof (cases "first_run data i")
      case None
      with "1.IH"(1) [OF True None] obtain e where
        "crle_loop data (length data) (emit_scattered out (drop i data)) = emit_scattered out (drop i data) @ e"
        "crle_expand e = Some []" by auto
      then show ?thesis using True None
        by (subst crle_loop.simps) (simp add: emit_scattered_def crle_expand_scattered [of "drop i data", simplified])
    next
      case (Some a)
      obtain j l where a: "a = (j, l)" by (cases a)
      note b = first_run_bounds [OF Some [unfolded a]]
      show ?thesis
      proof (cases "i < j")
        case ij: True
        with "1.IH"(2) [OF True Some a [symmetric]] obtain e where
          "crle_loop data j (emit_scattered out (slice i j data)) = emit_scattered out (slice i j data) @ e"
          "crle_expand e = Some (drop j data)" by auto
        then show ?thesis using True Some a ij
          by (subst crle_loop.simps)
            (simp add: emit_scattered_def crle_expand_scattered slice_drop_split [of i j data] del: length_slice)
      next
        case False
        with b have ji: "j = i" by simp
        from "1.IH"(3) [OF True Some a [symmetric]] False obtain e where
          "crle_loop data (i + l) (out @ [CRLE_REPEATED] @ crle_pack_size l @ [data ! i]) =
            (out @ [CRLE_REPEATED] @ crle_pack_size l @ [data ! i]) @ e"
          "crle_expand e = Some (drop (i + l) data)" by auto
        then show ?thesis using True Some a False b ji run_length_split [of i data]
          by (subst crle_loop.simps) (simp add: crle_expand_repeated)
      qed
    qed
  qed
qed

lemma crle_expand_compress: "crle_expand (crle_compress data) = Some data"
proof (cases "data = []")
  case True
  then show ?thesis
    using crle_expand_scattered [of "[]" "[]"] by (simp add: crle_compress_def)
next
  case False
  then show ?thesis
    using crle_loop_expand [of data 0 "[]"] by (auto simp: crle_compress_def)
qed

end
