(* ===== verification/Mota_Bsdiff.thy ===== *)
theory Mota_Bsdiff
  imports Mota_Crle "HOL-Library.Product_Lexorder" "HOL-Library.Multiset"
begin

text \<open>
  The delta core of \<open>src/encode.rs\<close>: suffix array, \<open>search\<close>, and \<open>bsdiff\<close>. The loops of \<open>bsdiff\<close> are one
  function each, over the same \<open>i64\<close> variables (integers here), and every byte access goes through
  \<open>get\<close>, which panics outside the buffer. The match finder is a parameter of the loops
  (\<open>match_finder\<close>: it answers, and with positions inside the buffers), interpreted on \<open>search\<close> over
  the suffix array. \<open>apply_stream\<close> reads the control stream as the module comment documents it.
\<close>

section \<open>Suffix array and search\<close>

fun matchlen :: "bytes \<Rightarrow> bytes \<Rightarrow> nat" where
  "matchlen (a # as) (b # bs) = (if a = b then Suc (matchlen as bs) else 0)"
| "matchlen _ _ = 0"

text \<open>The slice comparison \<open><\<close> of Rust: lexicographic on unsigned bytes.\<close>

fun bytes_less :: "bytes \<Rightarrow> bytes \<Rightarrow> bool" where
  "bytes_less (a # as) (b # bs) = (a < b \<or> a = b \<and> bytes_less as bs)"
| "bytes_less [] (b # bs) = True"
| "bytes_less _ [] = False"

definition sa_key :: "int list \<Rightarrow> nat \<Rightarrow> nat \<Rightarrow> int \<times> int" where
  "sa_key rank k i = (rank ! i, if i + k < length rank then rank ! (i + k) else - 1)"

text \<open>The ranks of one round: \<open>tmp[sa[0]] = 0\<close>, then along the sorted order.\<close>

definition sa_ranks :: "int list \<Rightarrow> nat \<Rightarrow> nat list \<Rightarrow> int list \<Rightarrow> int list" where
  "sa_ranks rank k sa tmp =
    foldl (\<lambda>t w. t[sa ! w := t ! (sa ! (w - 1)) +
             (if sa_key rank k (sa ! w) \<noteq> sa_key rank k (sa ! (w - 1)) then 1 else 0)])
      (tmp[sa ! 0 := 0]) [1..<length sa]"

text \<open>Round \<open>e\<close> of the doubling loop works with \<open>k = 1 << e\<close>.\<close>

function sa_loop :: "nat list \<Rightarrow> int list \<Rightarrow> int list \<Rightarrow> nat \<Rightarrow> nat list" where
  "sa_loop sa rank tmp e =
    (let n = length sa;
         k = 2 ^ e;
         sa' = sort_key (sa_key rank k) sa;
         rank' = sa_ranks rank k sa' tmp
     in if nat (rank' ! (sa' ! (n - 1))) = n - 1 then sa'
        else if n \<le> 2 * k then sa'
        else sa_loop sa' rank' rank' (Suc e))"
  by pat_completeness auto
termination
proof (relation "measure (\<lambda>(sa, rank, tmp, e). length sa - 2 ^ e)", goal_cases)
  case (2 sa rank tmp e n k sa' rank')
  have "length sa - 2 * x < length sa - x" if "0 < x" "\<not> length sa \<le> 2 * x" for x
    using that by linarith
  from this [of "2 ^ e"] 2 show ?case by simp
qed simp

declare sa_loop.simps [simp del]

definition suffix_array :: "bytes \<Rightarrow> nat list" where
  "suffix_array s =
    (if s = [] then []
     else sa_loop [0..<length s] (map (\<lambda>b. int (unat b)) s) (replicate (length s) 0) 0)"

definition suffix_array_with_sentinel :: "bytes \<Rightarrow> nat list" where
  "suffix_array_with_sentinel s = length s # suffix_array s"

function search :: "nat list \<Rightarrow> bytes \<Rightarrow> bytes \<Rightarrow> nat \<Rightarrow> nat \<Rightarrow> (nat \<times> nat) result" where
  "search sa from new st en =
    (if en < st + 2 then
       bindr (idx sa st) (\<lambda>p.
       bindr (rng from p (length from)) (\<lambda>at_p.
       bindr (idx sa en) (\<lambda>q.
       bindr (rng from q (length from)) (\<lambda>at_q.
       let x = matchlen at_p new; y = matchlen at_q new in
       Inr (if y < x then (x, p) else (y, q))))))
     else
       (let x = st + (en - st) div 2 in
        case idx sa x of
          Inl e \<Rightarrow> Inl e
        | Inr oi \<Rightarrow>
            if length from < oi then Inl Panic
            else let n = min (length from - oi) (length new) in
              if bytes_less (slice oi (oi + n) from) (slice 0 n new)
              then search sa from new x en
              else search sa from new st x))"
  by pat_completeness auto
termination
  by (relation "measure (\<lambda>(sa, from, new, st, en). en - st)") auto

declare search.simps [simp del]

section \<open>The scanning loops\<close>

definition get :: "bytes \<Rightarrow> int \<Rightarrow> u8 result" where
  "get v i = (if 0 \<le> i \<and> i < int (length v) then Inr (v ! nat i) else Inl Panic)"

definition same :: "bytes \<Rightarrow> int \<Rightarrow> bytes \<Rightarrow> int \<Rightarrow> bool result" where
  "same from i to j = bindr (get from i) (\<lambda>a. bindr (get to j) (\<lambda>b. Inr (a = b)))"

text \<open>\<open>while scsc < scan + len\<close>: count the positions that also match at the last offset.\<close>

function count_loop :: "bytes \<Rightarrow> bytes \<Rightarrow> int \<Rightarrow> int \<Rightarrow> int \<Rightarrow> int \<Rightarrow> (int \<times> int) result" where
  "count_loop from to lastoffset lim scsc oldscore =
    (if scsc < lim then
       (if scsc + lastoffset < int (length from) then
          (case same from (scsc + lastoffset) to scsc of
             Inl e \<Rightarrow> Inl e
           | Inr eq \<Rightarrow> count_loop from to lastoffset lim (scsc + 1) (if eq then oldscore + 1 else oldscore))
        else count_loop from to lastoffset lim (scsc + 1) oldscore)
     else Inr (scsc, oldscore))"
  by pat_completeness auto
termination
  by (relation "measure (\<lambda>(from, to, lo, lim, scsc, os). nat (lim - scsc))") auto

declare count_loop.simps [simp del]

text \<open>The inner \<open>while scan < newsize\<close>; \<open>ms\<close> is the search from a position of \<open>to\<close>.\<close>

function scan_loop ::
  "(nat \<Rightarrow> (nat \<times> nat) result) \<Rightarrow> bytes \<Rightarrow> bytes \<Rightarrow> int \<Rightarrow> int \<Rightarrow> int \<Rightarrow> int \<Rightarrow> int \<Rightarrow> int \<Rightarrow>
    (int \<times> int \<times> int \<times> int) result"
where
  "scan_loop ms from to lastoffset scan scsc oldscore len pos =
    (if scan < int (length to) then
       (case ms (nat scan) of
          Inl e \<Rightarrow> Inl e
        | Inr (l, p) \<Rightarrow>
            (case count_loop from to lastoffset (scan + int l) scsc oldscore of
               Inl e \<Rightarrow> Inl e
             | Inr (scsc', os) \<Rightarrow>
                 if (int l = os \<and> int l \<noteq> 0) \<or> int l > os + 8 then Inr (scan, os, int l, int p)
                 else (case (if scan + lastoffset < int (length from) then same from (scan + lastoffset) to scan
                             else Inr False) of
                         Inl e \<Rightarrow> Inl e
                       | Inr eq \<Rightarrow>
                           scan_loop ms from to lastoffset (scan + 1) scsc' (if eq then os - 1 else os)
                             (int l) (int p))))
     else Inr (scan, oldscore, len, pos))"
  by pat_completeness auto
termination
  by (relation "measure (\<lambda>(ms, from, to, lo, scan, scsc, os, len, pos). nat (int (length to) - scan))") auto

declare scan_loop.simps [simp del]

text \<open>Forward extension of the match at \<open>(lastscan, lastpos)\<close>; the result is \<open>lenf\<close>.\<close>

function forward_loop ::
  "bytes \<Rightarrow> bytes \<Rightarrow> int \<Rightarrow> int \<Rightarrow> int \<Rightarrow> int \<Rightarrow> int \<Rightarrow> int \<Rightarrow> int \<Rightarrow> int result"
where
  "forward_loop from to lastscan lastpos scan i s sf lenf =
    (if lastscan + i < scan \<and> lastpos + i < int (length from) then
       (case same from (lastpos + i) to (lastscan + i) of
          Inl e \<Rightarrow> Inl e
        | Inr eq \<Rightarrow>
            (let s' = (if eq then s + 1 else s); i' = i + 1 in
             if s' * 2 - i' > sf * 2 - lenf
             then forward_loop from to lastscan lastpos scan i' s' s' i'
             else forward_loop from to lastscan lastpos scan i' s' sf lenf))
     else Inr lenf)"
  by pat_completeness auto
termination
  by (relation "measure (\<lambda>(from, to, ls, lp, scan, i, s, sf, lenf). nat (scan - ls - i))") auto

declare forward_loop.simps [simp del]

text \<open>Backward extension from the next match at \<open>(scan, pos)\<close>; the result is \<open>lenb\<close>.\<close>

function backward_loop ::
  "bytes \<Rightarrow> bytes \<Rightarrow> int \<Rightarrow> int \<Rightarrow> int \<Rightarrow> int \<Rightarrow> int \<Rightarrow> int \<Rightarrow> int \<Rightarrow> int result"
where
  "backward_loop from to lastscan scan pos i s sb lenb =
    (if lastscan + i \<le> scan \<and> i \<le> pos then
       (case same from (pos - i) to (scan - i) of
          Inl e \<Rightarrow> Inl e
        | Inr eq \<Rightarrow>
            (let s' = (if eq then s + 1 else s) in
             if s' * 2 - i > sb * 2 - lenb
             then backward_loop from to lastscan scan pos (i + 1) s' s' i
             else backward_loop from to lastscan scan pos (i + 1) s' sb lenb))
     else Inr lenb)"
  by pat_completeness auto
termination
  by (relation "measure (\<lambda>(from, to, ls, scan, pos, i, s, sb, lenb). nat (scan - ls + 1 - i))") auto

declare backward_loop.simps [simp del]

text \<open>The split of the overlap; \<open>fs\<close>, \<open>fp\<close> and \<open>bs\<close>, \<open>bp\<close> are where the overlap starts in the two regions.\<close>

function overlap_loop ::
  "bytes \<Rightarrow> bytes \<Rightarrow> int \<Rightarrow> int \<Rightarrow> int \<Rightarrow> int \<Rightarrow> int \<Rightarrow> int \<Rightarrow> int \<Rightarrow> int \<Rightarrow> int \<Rightarrow> int result"
where
  "overlap_loop from to fs fp bs bp overlap i s ss lens =
    (if i < overlap then
       (case same from (fp + i) to (fs + i) of
          Inl e \<Rightarrow> Inl e
        | Inr eq1 \<Rightarrow>
            (case same from (bp + i) to (bs + i) of
               Inl e \<Rightarrow> Inl e
             | Inr eq2 \<Rightarrow>
                 (let s1 = (if eq1 then s + 1 else s); s2 = (if eq2 then s1 - 1 else s1) in
                  if s2 > ss then overlap_loop from to fs fp bs bp overlap (i + 1) s2 s2 (i + 1)
                  else overlap_loop from to fs fp bs bp overlap (i + 1) s2 ss lens)))
     else Inr lens)"
  by pat_completeness auto
termination
  by (relation "measure (\<lambda>(from, to, fs, fp, bs, bp, overlap, i, s, ss, lens). nat (overlap - i))") auto

declare overlap_loop.simps [simp del]

text \<open>\<open>for i in 0..diff_len\<close>.\<close>

function diff_loop :: "bytes \<Rightarrow> bytes \<Rightarrow> int \<Rightarrow> int \<Rightarrow> int \<Rightarrow> int \<Rightarrow> bytes result" where
  "diff_loop from to lastscan lastpos diff_len i =
    (if i < diff_len then
       (case get to (lastscan + i) of
          Inl e \<Rightarrow> Inl e
        | Inr b \<Rightarrow>
            (case get from (lastpos + i) of
               Inl e \<Rightarrow> Inl e
             | Inr a \<Rightarrow>
                 (case diff_loop from to lastscan lastpos diff_len (i + 1) of
                    Inl e \<Rightarrow> Inl e
                  | Inr diff \<Rightarrow> Inr ((b - a) # diff))))
     else Inr [])"
  by pat_completeness auto
termination
  by (relation "measure (\<lambda>(from, to, ls, lp, diff_len, i). nat (diff_len - i))") auto

declare diff_loop.simps [simp del]

section \<open>One control triple, and the outer loop\<close>

definition region_lengths :: "bytes \<Rightarrow> bytes \<Rightarrow> int \<Rightarrow> int \<Rightarrow> int \<Rightarrow> int \<Rightarrow> (int \<times> int) result" where
  "region_lengths from to scan pos lastscan lastpos =
    bindr (forward_loop from to lastscan lastpos scan 0 0 0 0) (\<lambda>lenf.
    bindr (if scan < int (length to) then backward_loop from to lastscan scan pos 1 0 0 0 else Inr 0) (\<lambda>lenb.
    if lastscan + lenf > scan - lenb then
      (let overlap = (lastscan + lenf) - (scan - lenb) in
       bindr (overlap_loop from to (lastscan + lenf - overlap) (lastpos + lenf - overlap)
                (scan - lenb) (pos - lenb) overlap 0 0 0 0) (\<lambda>lens.
       Inr (lenf + (lens - overlap), lenb - lens)))
    else Inr (lenf, lenb)))"

definition emit_region :: "bytes \<Rightarrow> bytes \<Rightarrow> int \<Rightarrow> int \<Rightarrow> int \<Rightarrow> int \<Rightarrow> bytes \<Rightarrow> (int \<times> bytes) result" where
  "emit_region from to scan pos lastscan lastpos body =
    bindr (region_lengths from to scan pos lastscan lastpos) (\<lambda>(lenf, lenb).
    bindr (diff_loop from to lastscan lastpos lenf 0) (\<lambda>diff.
    let extra_len = (scan - lenb) - (lastscan + lenf) in
    bindr (if lastscan + lenf < 0 \<or> scan - lenb < 0 then Inl Panic
           else rng to (nat (lastscan + lenf)) (nat (scan - lenb))) (\<lambda>extra.
    let seek = (pos - lenb) - (lastpos + lenf) in
    Inr (lenb, body @ pack_size lenf @ diff @ pack_size extra_len @ extra @ pack_size seek))))"

text \<open>Where the scan of an outer iteration stops is beyond where it starts.\<close>

lemma count_loop_mono: "count_loop from to lo lim scsc os = Inr (scsc', os') \<Longrightarrow> os \<le> os'"
proof (induction "from" to lo lim scsc os rule: count_loop.induct)
  case (1 "from" to lo lim scsc os)
  from "1.prems" "1.IH" show ?case
    by (subst (asm) count_loop.simps) (fastforce split: if_splits sum.splits)
qed

lemma scan_loop_ge:
  "scan_loop ms from to lo scan scsc os len pos = Inr (scan', os', len', pos') \<Longrightarrow>
    scan \<le> scan' \<and> (scan < int (length to) \<longrightarrow> 0 \<le> len')"
proof (induction ms "from" to lo scan scsc os len pos rule: scan_loop.induct)
  case (1 ms "from" to lo scan scsc os len pos)
  show ?case
  proof (cases "scan + 1 < int (length to)")
    case True
    from "1.prems" "1.IH" True show ?thesis
      by (subst (asm) scan_loop.simps) (fastforce split: if_splits sum.splits prod.splits)
  next
    case False
    then have stop: "scan_loop ms from to lo (scan + 1) a b c d = Inr (scan + 1, b, c, d)" for a b c d
      by (subst scan_loop.simps) simp
    from "1.prems" show ?thesis
      by (subst (asm) scan_loop.simps) (auto simp: stop split: if_splits sum.splits prod.splits)
  qed
qed

lemma scan_loop_step:
  assumes "scan < int (length to)" and "ms (nat scan) = Inr (l, p)"
    and "count_loop from to lo (scan + int l) scsc os = Inr (scsc', os')"
  shows "scan_loop ms from to lo scan scsc os len pos =
    (if (int l = os' \<and> int l \<noteq> 0) \<or> int l > os' + 8 then Inr (scan, os', int l, int p)
     else (case (if scan + lo < int (length from) then same from (scan + lo) to scan else Inr False) of
             Inl e \<Rightarrow> Inl e
           | Inr eq \<Rightarrow> scan_loop ms from to lo (scan + 1) scsc' (if eq then os' - 1 else os') (int l) (int p)))"
  using assms by (subst scan_loop.simps) simp

lemma scan_loop_cases:
  assumes "scan_loop ms from to lo scan scsc os len pos = Inr r" and "scan < int (length to)"
  obtains l p scsc' os' where "ms (nat scan) = Inr (l, p)"
    and "count_loop from to lo (scan + int l) scsc os = Inr (scsc', os')"
proof (cases "ms (nat scan)")
  case (Inl e)
  then show ?thesis using assms by (subst (asm) scan_loop.simps) simp
next
  case (Inr lp)
  obtain l p where lp: "lp = (l, p)" by (cases lp)
  show ?thesis
  proof (cases "count_loop from to lo (scan + int l) scsc os")
    case (Inl e)
    then show ?thesis using assms Inr lp by (subst (asm) scan_loop.simps) simp
  next
    case (Inr so)
    then show ?thesis using that \<open>ms (nat scan) = Inr lp\<close> lp by (cases so) simp
  qed
qed

lemma scan_loop_progress:
  assumes r: "scan_loop ms from to lo scan scan 0 len pos = Inr (scan', os', len', pos')"
    and lt: "scan < int (length to)"
  shows "0 \<le> len' \<and> scan < scan' + len'"
proof -
  obtain l p scsc os where m: "ms (nat scan) = Inr (l, p)"
    and c: "count_loop from to lo (scan + int l) scan 0 = Inr (scsc, os)"
    using scan_loop_cases [OF r lt] .
  have os: "0 \<le> os" using count_loop_mono [OF c] .
  note step = scan_loop_step [of scan to ms l p "from" lo scan 0 scsc os len pos, OF lt m c]
  show ?thesis
  proof (cases "(int l = os \<and> int l \<noteq> 0) \<or> int l > os + 8")
    case True
    then show ?thesis using r os unfolding step by auto
  next
    case False
    then obtain eq where
      "scan_loop ms from to lo (scan + 1) scsc (if eq then os - 1 else os) (int l) (int p) =
        Inr (scan', os', len', pos')"
      using r unfolding step if_not_P [OF False]
      by (cases "if scan + lo < int (length from) then same from (scan + lo) to scan else Inr False")
        (simp_all split del: if_split)
    from scan_loop_ge [OF this] scan_loop_ge [OF r] lt show ?thesis by linarith
  qed
qed

lemma bsdiff_measure:
  assumes "scan_loop ms from to lo (scan + len) (scan + len) 0 len pos = Inr (scan', os', len', pos')"
    and "scan < int (length to)"
  shows "nat (int (length to) - scan' - len') + (if scan' < int (length to) then 1 else 0)
    < nat (int (length to) - scan - len) + 1"
proof (cases "scan + len < int (length to)")
  case True
  from scan_loop_progress [OF assms(1) True] True show ?thesis by simp
next
  case False
  then have "scan' = scan + len \<and> len' = len" using assms(1) by (subst (asm) scan_loop.simps) simp
  with False assms(2) show ?thesis by simp
qed

function bsdiff_loop ::
  "(nat \<Rightarrow> (nat \<times> nat) result) \<Rightarrow> bytes \<Rightarrow> bytes \<Rightarrow> int \<Rightarrow> int \<Rightarrow> int \<Rightarrow> int \<Rightarrow> int \<Rightarrow> int \<Rightarrow> bytes \<Rightarrow> bytes result"
where
  "bsdiff_loop ms from to scan len pos lastscan lastpos lastoffset body =
    (if scan < int (length to) then
       (case scan_loop ms from to lastoffset (scan + len) (scan + len) 0 len pos of
          Inl e \<Rightarrow> Inl e
        | Inr (scan', oldscore, len', pos') \<Rightarrow>
            if len' \<noteq> oldscore \<or> scan' = int (length to) then
              (case emit_region from to scan' pos' lastscan lastpos body of
                 Inl e \<Rightarrow> Inl e
               | Inr (lenb, body') \<Rightarrow>
                   bsdiff_loop ms from to scan' len' pos' (scan' - lenb) (pos' - lenb) (pos' - scan') body')
            else bsdiff_loop ms from to scan' len' pos' lastscan lastpos lastoffset body)
     else Inr body)"
  by pat_completeness auto
termination
proof (relation "measure (\<lambda>(ms, from, to, scan, len, pos, ls, lp, lo, body).
    nat (int (length to) - scan - len) + (if scan < int (length to) then 1 else 0))", goal_cases)
  case 1
  then show ?case by simp
next
  case 2
  then show ?case by (auto dest!: bsdiff_measure)
next
  case 3
  then show ?case by (auto dest!: bsdiff_measure)
qed

declare bsdiff_loop.simps [simp del]

text \<open>The code appends to \<open>body\<close>.\<close>

definition bsdiff :: "bytes \<Rightarrow> bytes \<Rightarrow> bytes \<Rightarrow> bytes result" where
  "bsdiff from to body =
    (let sa = suffix_array_with_sentinel from in
     bsdiff_loop (\<lambda>scan. search sa from (drop scan to) 0 (length from)) from to 0 0 0 0 0 0 body)"

section \<open>Reading the control stream\<close>

lemma unpack_size_length: "unpack_size bs = Some (v, rest) \<Longrightarrow> length rest < length bs"
  by (cases bs) (auto split: if_splits dest!: unpack_more_length)

function apply_stream :: "bytes \<Rightarrow> int \<Rightarrow> nat \<Rightarrow> bytes \<Rightarrow> (bytes \<times> bytes) option" where
  "apply_stream from fp need st =
    (if need = 0 then Some ([], st)
     else case unpack_size st of
       None \<Rightarrow> None
     | Some (d, st1) \<Rightarrow>
         if d < 0 \<or> int need < d \<or> int (length st1) < d \<or> fp < 0 \<or> int (length from) < fp + d then None
         else case unpack_size (drop (nat d) st1) of
           None \<Rightarrow> None
         | Some (x, st2) \<Rightarrow>
             if x < 0 \<or> int need < d + x \<or> int (length st2) < x then None
             else case unpack_size (drop (nat x) st2) of
               None \<Rightarrow> None
             | Some (seek, st3) \<Rightarrow>
                 map_option (\<lambda>(out, rest).
                     (map2 (+) (slice (nat fp) (nat (fp + d)) from) (take (nat d) st1) @ take (nat x) st2 @ out, rest))
                   (apply_stream from (fp + d + seek) (need - nat d - nat x) st3))"
  by pat_completeness auto
termination
  by (relation "measure (\<lambda>(from, fp, need, st). length st)") (auto dest!: unpack_size_length)

declare apply_stream.simps [simp del]

definition triple :: "bytes \<Rightarrow> bytes \<Rightarrow> int \<Rightarrow> bytes" where
  "triple diff extra seek =
    pack_size (int (length diff)) @ diff @ pack_size (int (length extra)) @ extra @ pack_size seek"

lemma apply_stream_triple:
  assumes "0 < need" and "length diff + length extra \<le> need"
    and "0 \<le> fp" and "fp + int (length diff) \<le> int (length from)"
  shows "apply_stream from fp need (triple diff extra seek @ st) =
    map_option (\<lambda>(out, rest).
        (map2 (+) (slice (nat fp) (nat fp + length diff) from) diff @ extra @ out, rest))
      (apply_stream from (fp + int (length diff) + seek) (need - length diff - length extra) st)"
  using assms
  by (subst apply_stream.simps) (simp add: triple_def size_codec.dec_enc nat_add_distrib)

section \<open>Interface: match finders\<close>

locale match_finder =
  fixes "from" to :: bytes
    and ms :: "nat \<Rightarrow> (nat \<times> nat) result"
  assumes ms_total: "scan < length to \<Longrightarrow>
    \<exists>l p. ms scan = Inr (l, p) \<and> l \<le> length to - scan \<and> p \<le> length from"
begin

abbreviation oldsize :: int where "oldsize \<equiv> int (length from)"
abbreviation newsize :: int where "newsize \<equiv> int (length to)"

lemma same_ok: "0 \<le> i \<Longrightarrow> i < oldsize \<Longrightarrow> 0 \<le> j \<Longrightarrow> j < newsize \<Longrightarrow> \<exists>b. same from i to j = Inr b"
  by (simp add: same_def get_def)

lemma count_loop_ok:
  "0 \<le> scsc \<Longrightarrow> 0 \<le> scsc + lo \<Longrightarrow> lim \<le> newsize \<Longrightarrow>
    \<exists>os'. count_loop from to lo lim scsc os = Inr (max scsc lim, os')"
proof (induction "nat (lim - scsc)" arbitrary: scsc os rule: less_induct)
  case less
  show ?case
  proof (cases "scsc < lim")
    case True
    have ih: "\<exists>os'. count_loop from to lo lim (scsc + 1) os2 = Inr (max (scsc + 1) lim, os')" for os2
      by (rule less.hyps) (use True less.prems in auto)
    have m: "max (scsc + 1) lim = max scsc lim" using True by simp
    show ?thesis
    proof (cases "scsc + lo < oldsize")
      case in_old: True
      obtain b where "same from (scsc + lo) to scsc = Inr b"
        using same_ok [of "scsc + lo" scsc] less.prems in_old True by auto
      then show ?thesis using True in_old ih m by (subst count_loop.simps) simp
    next
      case False
      then show ?thesis using True ih m by (subst count_loop.simps) simp
    qed
  next
    case False
    then show ?thesis by (subst count_loop.simps) simp
  qed
qed

definition scan_post :: "int \<Rightarrow> int \<Rightarrow> int \<Rightarrow> bool" where
  "scan_post scan' len' pos' \<longleftrightarrow>
    scan' \<le> newsize \<and> (scan' < newsize \<longrightarrow> scan' + len' \<le> newsize) \<and> 0 \<le> pos' \<and> pos' \<le> oldsize"

lemma scan_loop_ok:
  "0 \<le> scan \<Longrightarrow> 0 \<le> scan + lo \<Longrightarrow> scan \<le> newsize \<Longrightarrow> 0 \<le> scsc \<Longrightarrow> 0 \<le> scsc + lo \<Longrightarrow>
    0 \<le> pos \<Longrightarrow> pos \<le> oldsize \<Longrightarrow>
    \<exists>scan' os' len' pos'. scan_loop ms from to lo scan scsc os len pos = Inr (scan', os', len', pos') \<and>
      scan_post scan' len' pos'"
proof (induction "nat (newsize - scan)" arbitrary: scan scsc os len pos rule: less_induct)
  case less
  show ?case
  proof (cases "scan < newsize")
    case True
    obtain l p where m: "ms (nat scan) = Inr (l, p)" and l: "l \<le> length to - nat scan" and p: "p \<le> length from"
    proof -
      have "nat scan < length to" using True less.prems by linarith
      then show ?thesis using ms_total that by blast
    qed
    have li: "scan + int l \<le> newsize" using l less.prems True by linarith
    obtain os' where c: "count_loop from to lo (scan + int l) scsc os = Inr (max scsc (scan + int l), os')"
      using count_loop_ok [of scsc lo "scan + int l" os] less.prems li by blast
    note step = scan_loop_step [of scan to ms l p "from" lo scsc os "max scsc (scan + int l)" os' len pos, OF True m c]
    have q: "scan_post scan (int l) (int p)"
      using less.prems li p by (simp add: scan_post_def)
    obtain b where b: "(if scan + lo < oldsize then same from (scan + lo) to scan else Inr False) = Inr b"
      using same_ok [of "scan + lo" scan] less.prems True by (cases "scan + lo < oldsize") auto
    have "\<exists>s o' l' p'. scan_loop ms from to lo (scan + 1) (max scsc (scan + int l)) os2 (int l) (int p) =
        Inr (s, o', l', p') \<and> scan_post s l' p'" for os2
      by (rule less.hyps) (use True less.prems p in auto)
    then show ?thesis unfolding step b using q by auto
  next
    case False
    then show ?thesis using less.prems by (subst scan_loop.simps) (simp add: scan_post_def)
  qed
qed

lemma forward_loop_ok:
  "0 \<le> lastscan \<Longrightarrow> 0 \<le> lastpos \<Longrightarrow> scan \<le> newsize \<Longrightarrow> 0 \<le> i \<Longrightarrow> 0 \<le> lenf \<Longrightarrow>
    lastscan + lenf \<le> scan \<Longrightarrow> lastpos + lenf \<le> oldsize \<Longrightarrow>
    \<exists>lenf'. forward_loop from to lastscan lastpos scan i s sf lenf = Inr lenf' \<and>
      0 \<le> lenf' \<and> lastscan + lenf' \<le> scan \<and> lastpos + lenf' \<le> oldsize"
proof (induction "nat (scan - lastscan - i)" arbitrary: i s sf lenf rule: less_induct)
  case less
  show ?case
  proof (cases "lastscan + i < scan \<and> lastpos + i < oldsize")
    case True
    obtain b where b: "same from (lastpos + i) to (lastscan + i) = Inr b"
      using same_ok [of "lastpos + i" "lastscan + i"] less.prems True by auto
    have ih: "\<exists>lenf'. forward_loop from to lastscan lastpos scan (i + 1) s2 sf2 lenf2 = Inr lenf' \<and>
        0 \<le> lenf' \<and> lastscan + lenf' \<le> scan \<and> lastpos + lenf' \<le> oldsize"
      if "lenf2 = lenf \<or> lenf2 = i + 1" for s2 sf2 lenf2
      by (rule less.hyps) (use True less.prems that in auto)
    show ?thesis
      using True b ih by (subst forward_loop.simps) (simp add: Let_def)
  next
    case False
    then show ?thesis using less.prems by (subst forward_loop.simps) auto
  qed
qed

lemma backward_loop_ok:
  "0 \<le> lastscan \<Longrightarrow> scan \<le> newsize \<Longrightarrow> pos \<le> oldsize \<Longrightarrow> 1 \<le> i \<Longrightarrow> 0 \<le> lenb \<Longrightarrow>
    lenb \<le> scan - lastscan \<Longrightarrow> lenb \<le> pos \<Longrightarrow>
    \<exists>lenb'. backward_loop from to lastscan scan pos i s sb lenb = Inr lenb' \<and>
      0 \<le> lenb' \<and> lenb' \<le> scan - lastscan \<and> lenb' \<le> pos"
proof (induction "nat (scan - lastscan + 1 - i)" arbitrary: i s sb lenb rule: less_induct)
  case less
  show ?case
  proof (cases "lastscan + i \<le> scan \<and> i \<le> pos")
    case True
    obtain b where b: "same from (pos - i) to (scan - i) = Inr b"
      using same_ok [of "pos - i" "scan - i"] less.prems True by auto
    have ih: "\<exists>lenb'. backward_loop from to lastscan scan pos (i + 1) s2 sb2 lenb2 = Inr lenb' \<and>
        0 \<le> lenb' \<and> lenb' \<le> scan - lastscan \<and> lenb' \<le> pos"
      if "lenb2 = lenb \<or> lenb2 = i" for s2 sb2 lenb2
      by (rule less.hyps) (use True less.prems that in auto)
    show ?thesis
      using True b ih by (subst backward_loop.simps) (simp add: Let_def)
  next
    case False
    then show ?thesis using less.prems by (subst backward_loop.simps) auto
  qed
qed

lemma overlap_loop_ok:
  "0 \<le> fs \<Longrightarrow> 0 \<le> fp \<Longrightarrow> 0 \<le> bs \<Longrightarrow> 0 \<le> bp \<Longrightarrow> fs + overlap \<le> newsize \<Longrightarrow> fp + overlap \<le> oldsize \<Longrightarrow>
    bs + overlap \<le> newsize \<Longrightarrow> bp + overlap \<le> oldsize \<Longrightarrow> 0 \<le> i \<Longrightarrow> 0 \<le> lens \<Longrightarrow> lens \<le> overlap \<Longrightarrow>
    \<exists>lens'. overlap_loop from to fs fp bs bp overlap i s ss lens = Inr lens' \<and> 0 \<le> lens' \<and> lens' \<le> overlap"
proof (induction "nat (overlap - i)" arbitrary: i s ss lens rule: less_induct)
  case less
  show ?case
  proof (cases "i < overlap")
    case True
    obtain b1 where b1: "same from (fp + i) to (fs + i) = Inr b1"
      using same_ok [of "fp + i" "fs + i"] less.prems True by auto
    obtain b2 where b2: "same from (bp + i) to (bs + i) = Inr b2"
      using same_ok [of "bp + i" "bs + i"] less.prems True by auto
    have ih: "\<exists>lens'. overlap_loop from to fs fp bs bp overlap (i + 1) s2 ss2 lens2 = Inr lens' \<and>
        0 \<le> lens' \<and> lens' \<le> overlap"
      if "lens2 = lens \<or> lens2 = i + 1" for s2 ss2 lens2
      by (rule less.hyps) (use True less.prems that in auto)
    show ?thesis
      using True b1 b2 ih by (subst overlap_loop.simps) (simp add: Let_def)
  next
    case False
    then show ?thesis using less.prems by (subst overlap_loop.simps) auto
  qed
qed

lemma diff_loop_ok:
  "0 \<le> lastscan \<Longrightarrow> 0 \<le> lastpos \<Longrightarrow> lastscan + int n \<le> newsize \<Longrightarrow> lastpos + int n \<le> oldsize \<Longrightarrow> k \<le> n \<Longrightarrow>
    diff_loop from to lastscan lastpos (int n) (int k) =
      Inr (map2 (-) (slice (nat lastscan + k) (nat lastscan + n) to) (slice (nat lastpos + k) (nat lastpos + n) from))"
proof (induction "n - k" arbitrary: k rule: less_induct)
  case less
  show ?case
  proof (cases "k < n")
    case True
    have ih: "diff_loop from to lastscan lastpos (int n) (int k + 1) =
      Inr (map2 (-) (slice (nat lastscan + Suc k) (nat lastscan + n) to) (slice (nat lastpos + Suc k) (nat lastpos + n) from))"
      using less.hyps [of "Suc k"] less.prems True by (simp add: add.commute)
    have sl: "slice (nat x + k) (nat x + n) v = v ! (nat x + k) # slice (nat x + Suc k) (nat x + n) v"
      if "0 \<le> x" "x + int n \<le> int (length v)" for x and v :: bytes
    proof -
      have "nat x + k < length v" using that True by linarith
      moreover have "nat x + n - (nat x + k) = Suc (nat x + n - (nat x + Suc k))" using True by simp
      ultimately show ?thesis unfolding slice_def by (simp only: Cons_nth_drop_Suc [symmetric] take_Suc_Cons add_Suc_right)
    qed
    have g: "get v (x + int k) = Inr (v ! (nat x + k))" if "0 \<le> x" "x + int n \<le> int (length v)" for x v
      using that True by (simp add: get_def nat_add_distrib)
    show ?thesis
      using True less.prems by (subst diff_loop.simps) (simp add: g ih sl)
  next
    case False
    then show ?thesis using less.prems by (subst diff_loop.simps) simp
  qed
qed

lemma region_lengths_ok:
  assumes "0 \<le> lastscan" "lastscan \<le> scan" "scan \<le> newsize" "0 \<le> lastpos" "lastpos \<le> oldsize"
    "0 \<le> pos" "pos \<le> oldsize"
  shows "\<exists>lenf lenb. region_lengths from to scan pos lastscan lastpos = Inr (lenf, lenb) \<and> 0 \<le> lenf \<and> 0 \<le> lenb \<and>
    lenb \<le> pos \<and> lastscan + lenf \<le> scan - lenb \<and> lastpos + lenf \<le> oldsize \<and> (scan = newsize \<longrightarrow> lenb = 0)"
proof -
  obtain lenf where f: "forward_loop from to lastscan lastpos scan 0 0 0 0 = Inr lenf"
    and lf: "0 \<le> lenf" "lastscan + lenf \<le> scan" "lastpos + lenf \<le> oldsize"
    using forward_loop_ok [of lastscan lastpos scan 0 0 0 0] assms by auto
  obtain lenb where b: "(if scan < newsize then backward_loop from to lastscan scan pos 1 0 0 0 else Inr 0) = Inr lenb"
    and lb: "0 \<le> lenb" "lenb \<le> scan - lastscan" "lenb \<le> pos" "scan = newsize \<longrightarrow> lenb = 0"
    using backward_loop_ok [of lastscan scan pos 1 0 0 0] assms by (cases "scan < newsize") auto
  show ?thesis
  proof (cases "lastscan + lenf > scan - lenb")
    case True
    define overlap where "overlap = lastscan + lenf - (scan - lenb)"
    obtain lens where o: "overlap_loop from to (lastscan + lenf - overlap) (lastpos + lenf - overlap)
        (scan - lenb) (pos - lenb) overlap 0 0 0 0 = Inr lens" and "0 \<le> lens" "lens \<le> overlap"
      using overlap_loop_ok [of "lastscan + lenf - overlap" "lastpos + lenf - overlap" "scan - lenb" "pos - lenb" overlap 0 0 0 0]
        assms lf lb True by (auto simp: overlap_def)
    then have "region_lengths from to scan pos lastscan lastpos = Inr (lenf + (lens - overlap), lenb - lens)"
      and "0 \<le> lenf + (lens - overlap)" "0 \<le> lenb - lens" "lenb - lens \<le> pos"
      "lastscan + (lenf + (lens - overlap)) \<le> scan - (lenb - lens)" "lastpos + (lenf + (lens - overlap)) \<le> oldsize"
      "scan = newsize \<longrightarrow> lenb - lens = 0"
      using f b lf lb assms True unfolding region_lengths_def overlap_def by auto
    then show ?thesis by blast
  next
    case False
    then show ?thesis using f b lf lb by (auto simp: region_lengths_def)
  qed
qed

lemma emit_region_ok:
  assumes "0 \<le> lastscan" "lastscan \<le> scan" "scan \<le> newsize" "0 \<le> lastpos" "lastpos \<le> oldsize"
    "0 \<le> pos" "pos \<le> oldsize"
  shows "\<exists>lenb diff extra. emit_region from to scan pos lastscan lastpos body =
      Inr (lenb, body @ triple diff extra (pos - lenb - (lastpos + int (length diff)))) \<and>
    0 \<le> lenb \<and> lenb \<le> pos \<and> (scan = newsize \<longrightarrow> lenb = 0) \<and>
    lastscan + int (length diff) + int (length extra) = scan - lenb \<and> lastpos + int (length diff) \<le> oldsize \<and>
    map2 (+) (slice (nat lastpos) (nat lastpos + length diff) from) diff @ extra =
      slice (nat lastscan) (nat (scan - lenb)) to"
proof -
  obtain lenf lenb where r: "region_lengths from to scan pos lastscan lastpos = Inr (lenf, lenb)"
    and l: "0 \<le> lenf" "0 \<le> lenb" "lenb \<le> pos" "lastscan + lenf \<le> scan - lenb" "lastpos + lenf \<le> oldsize"
      "scan = newsize \<longrightarrow> lenb = 0"
    using region_lengths_ok [OF assms] by blast
  define n where "n = nat lenf"
  have n: "lenf = int n" using l by (simp add: n_def)
  let ?old = "slice (nat lastpos) (nat lastpos + n) from" and ?new = "slice (nat lastscan) (nat lastscan + n) to"
  let ?extra = "slice (nat (lastscan + lenf)) (nat (scan - lenb)) to"
  have d: "diff_loop from to lastscan lastpos lenf 0 = Inr (map2 (-) ?new ?old)"
    using diff_loop_ok [of lastscan lastpos n 0] assms l n by simp
  have lo: "length ?old = n" and ln: "length ?new = n" using assms l n by auto
  have lx: "int (length ?extra) = scan - lenb - (lastscan + lenf)" using assms l by simp
  have rx: "rng to (nat (lastscan + lenf)) (nat (scan - lenb)) = Inr ?extra"
    using assms l by (simp add: rng_def nat_le_eq_zle)
  have e: "emit_region from to scan pos lastscan lastpos body =
      Inr (lenb, body @ triple (map2 (-) ?new ?old) ?extra (pos - lenb - (lastpos + int n)))"
    using assms l by (simp add: emit_region_def r [unfolded n] d [unfolded n] rx [unfolded n] triple_def lo ln lx [unfolded n] n del: length_slice)
  have u: "map2 (+) xs (map2 (-) ys xs) = ys" if "length xs = length ys" for xs ys :: bytes
    using that by (induction xs ys rule: list_induct2) simp_all
  have j: "nat (lastscan + lenf) = nat lastscan + n" using assms n by simp
  have "?new @ ?extra = slice (nat lastscan) (nat (scan - lenb)) to"
    unfolding j using assms l n by (intro slice_join) auto
  then have m: "map2 (+) ?old (map2 (-) ?new ?old) @ ?extra = slice (nat lastscan) (nat (scan - lenb)) to"
    by (simp only: u lo ln)
  have len: "length (map2 (-) ?new ?old) = n" by (simp add: lo ln del: length_slice)
  show ?thesis
    by (intro exI [of _ lenb] exI [of _ "map2 (-) ?new ?old"] exI [of _ ?extra])
      (use e m l lx n in \<open>simp add: len del: length_slice length_map length_zip\<close>)
qed

lemma bsdiff_loop_ok:
  "0 \<le> lastscan \<Longrightarrow> 0 \<le> lastpos \<Longrightarrow> lastpos \<le> oldsize \<Longrightarrow> 0 \<le> len \<Longrightarrow> 0 \<le> pos \<Longrightarrow> pos \<le> oldsize \<Longrightarrow>
    lastscan \<le> scan \<Longrightarrow> scan \<le> newsize \<Longrightarrow> (scan < newsize \<Longrightarrow> scan + len \<le> newsize) \<Longrightarrow>
    (scan = newsize \<Longrightarrow> lastscan = newsize) \<Longrightarrow> 0 \<le> scan + lastoffset \<Longrightarrow>
    \<exists>st. bsdiff_loop ms from to scan len pos lastscan lastpos lastoffset body = Inr (body @ st) \<and>
      (\<forall>rest. apply_stream from lastpos (nat (newsize - lastscan)) (st @ rest) = Some (drop (nat lastscan) to, rest))"
proof (induction "nat (newsize - scan - len) + (if scan < newsize then 1 else 0)"
    arbitrary: scan len pos lastscan lastpos lastoffset body rule: less_induct)
  case less
  show ?case
  proof (cases "scan < newsize")
    case False
    then show ?thesis using less.prems
      by (subst bsdiff_loop.simps) (auto simp: apply_stream.simps)
  next
    case True
    obtain scan' os' len' pos' where
      r: "scan_loop ms from to lastoffset (scan + len) (scan + len) 0 len pos = Inr (scan', os', len', pos')"
      and q: "scan_post scan' len' pos'"
      using scan_loop_ok [of "scan + len" lastoffset "scan + len" pos 0 len] less.prems True by auto
    note ge = scan_loop_ge [OF r]
    have len': "0 \<le> len'"
    proof (cases "scan + len < newsize")
      case False
      then show ?thesis using r less.prems by (subst (asm) scan_loop.simps) auto
    qed (use ge in simp)
    have dec: "nat (newsize - scan' - len') + (if scan' < newsize then 1 else 0)
        < nat (newsize - scan - len) + (if scan < newsize then 1 else 0)"
      using bsdiff_measure [OF r True] True by simp
    show ?thesis
    proof (cases "len' \<noteq> os' \<or> scan' = newsize")
      case False
      have "\<exists>st. bsdiff_loop ms from to scan' len' pos' lastscan lastpos lastoffset body = Inr (body @ st) \<and>
        (\<forall>rest. apply_stream from lastpos (nat (newsize - lastscan)) (st @ rest) = Some (drop (nat lastscan) to, rest))"
        by (rule less.hyps [OF dec]) (use less.prems q ge len' False in \<open>auto simp: scan_post_def\<close>)
      then show ?thesis using True r False by (subst bsdiff_loop.simps) simp
    next
      case emit: True
      obtain lenb diff extra where e: "emit_region from to scan' pos' lastscan lastpos body =
          Inr (lenb, body @ triple diff extra (pos' - lenb - (lastpos + int (length diff))))"
        and b: "0 \<le> lenb" "lenb \<le> pos'" "scan' = newsize \<longrightarrow> lenb = 0"
          "lastscan + int (length diff) + int (length extra) = scan' - lenb"
          "lastpos + int (length diff) \<le> oldsize"
        and m: "map2 (+) (slice (nat lastpos) (nat lastpos + length diff) from) diff @ extra =
          slice (nat lastscan) (nat (scan' - lenb)) to"
      proof -
        have pre: "lastscan \<le> scan'" "scan' \<le> newsize" "0 \<le> pos'" "pos' \<le> oldsize"
          using less.prems q ge by (simp_all add: scan_post_def)
        from emit_region_ok [of lastscan scan' lastpos pos' body, OF less.prems(1) pre(1,2) less.prems(2,3) pre(3,4)]
        show ?thesis using that by blast
      qed
      obtain st where st: "bsdiff_loop ms from to scan' len' pos' (scan' - lenb) (pos' - lenb) (pos' - scan')
          (body @ triple diff extra (pos' - lenb - (lastpos + int (length diff)))) =
          Inr ((body @ triple diff extra (pos' - lenb - (lastpos + int (length diff)))) @ st)"
        and ap: "\<forall>rest. apply_stream from (pos' - lenb) (nat (newsize - (scan' - lenb))) (st @ rest) =
          Some (drop (nat (scan' - lenb)) to, rest)"
      proof -
        have "\<exists>st. bsdiff_loop ms from to scan' len' pos' (scan' - lenb) (pos' - lenb) (pos' - scan') (body @ t) =
            Inr ((body @ t) @ st) \<and>
          (\<forall>rest. apply_stream from (pos' - lenb) (nat (newsize - (scan' - lenb))) (st @ rest) =
            Some (drop (nat (scan' - lenb)) to, rest))" for t
          by (rule less.hyps [OF dec]) (use less.prems q ge len' b in \<open>simp_all add: scan_post_def\<close>)
        then show ?thesis using that by blast
      qed
      let ?st = "triple diff extra (pos' - lenb - (lastpos + int (length diff))) @ st"
      have need: "nat (newsize - lastscan) - length diff - length extra = nat (newsize - (scan' - lenb))"
        using b(4) by linarith
      have fits: "length diff + length extra \<le> nat (newsize - lastscan)"
        using b(1,4) q unfolding scan_post_def by linarith
      have "apply_stream from lastpos (nat (newsize - lastscan)) (?st @ rest) = Some (drop (nat lastscan) to, rest)" for rest
      proof -
        have "apply_stream from lastpos (nat (newsize - lastscan)) (?st @ rest) =
            Some (slice (nat lastscan) (nat (scan' - lenb)) to @ drop (nat (scan' - lenb)) to, rest)"
          using apply_stream_triple [of "nat (newsize - lastscan)" diff extra lastpos "from"
              "pos' - lenb - (lastpos + int (length diff))" "st @ rest"]
            less.prems True b q ap need fits unfolding m [symmetric] by (simp add: scan_post_def)
        also have "slice (nat lastscan) (nat (scan' - lenb)) to @ drop (nat (scan' - lenb)) to = drop (nat lastscan) to"
          using b(4) less.prems by (intro slice_drop_split [symmetric]) linarith
        finally show ?thesis .
      qed
      then show ?thesis
        using True r emit e st by (subst bsdiff_loop.simps) (simp add: exI [of _ ?st])
    qed
  qed
qed

end

section \<open>The suffix array as a match finder\<close>

lemma matchlen_le: "matchlen a b \<le> length a \<and> matchlen a b \<le> length b"
  by (induction a b rule: matchlen.induct) simp_all

lemma matchlen_take: "take (matchlen a b) a = take (matchlen a b) b"
  by (induction a b rule: matchlen.induct) simp_all

lemma mset_sa_loop: "mset (sa_loop sa rank tmp e) = mset sa"
proof (induction sa rank tmp e rule: sa_loop.induct)
  case (1 sa rank tmp e)
  then show ?case by (subst sa_loop.simps) (simp add: Let_def)
qed

lemma mset_suffix_array: "mset (suffix_array s) = mset [0..<length s]"
  by (simp add: suffix_array_def mset_sa_loop)

lemma suffix_array_perm: "length (suffix_array s) = length s \<and> set (suffix_array s) = {..<length s} \<and> distinct (suffix_array s)"
  using mset_suffix_array [of s] mset_eq_setD [OF mset_suffix_array [of s]]
    mset_eq_length [OF mset_suffix_array [of s]] mset_eq_imp_distinct_iff [OF mset_suffix_array [of s]]
  by (auto simp: atLeast0LessThan)

lemma search_ok:
  "st \<le> en \<Longrightarrow> en < length sa \<Longrightarrow> \<forall>x \<in> set sa. x \<le> length from \<Longrightarrow>
    \<exists>l p. search sa from new st en = Inr (l, p) \<and> p \<le> length from \<and> l = matchlen (drop p from) new"
proof (induction sa "from" new st en rule: search.induct)
  case (1 sa "from" new st en)
  show ?case
  proof (cases "en < st + 2")
    case True
    have "sa ! st \<le> length from" "sa ! en \<le> length from" using "1.prems" by simp_all
    then show ?thesis using True "1.prems"
      by (subst search.simps) (auto simp: idx_ok rng_def slice_def Let_def)
  next
    case False
    define x where "x = st + (en - st) div 2"
    have x: "st \<le> x" "x \<le> en" "x < length sa" using False "1.prems" by (auto simp: x_def)
    have oi: "idx sa x = Inr (sa ! x)" "\<not> length from < sa ! x" using x "1.prems" by (auto simp: idx_ok not_less)
    show ?thesis
      using "1.IH" [OF False x_def oi(1) oi(2) refl] "1.prems" x oi False
      by (subst search.simps) (auto simp: x_def [symmetric] Let_def)
  qed
qed

lemma sentinel_ok: "length (suffix_array_with_sentinel s) = Suc (length s) \<and> (\<forall>x \<in> set (suffix_array_with_sentinel s). x \<le> length s)"
  using suffix_array_perm [of s] by (auto simp: suffix_array_with_sentinel_def)

interpretation sa_finder: match_finder "from" to
  "\<lambda>scan. search (suffix_array_with_sentinel from) from (drop scan to) 0 (length from)" for "from" to
proof
  fix scan assume "scan < length to"
  obtain l p where "search (suffix_array_with_sentinel from) from (drop scan to) 0 (length from) = Inr (l, p)"
    "p \<le> length from" "l = matchlen (drop p from) (drop scan to)"
    using search_ok [of 0 "length from" "suffix_array_with_sentinel from" "from" "drop scan to"] sentinel_ok [of "from"] by auto
  then show "\<exists>l p. search (suffix_array_with_sentinel from) from (drop scan to) 0 (length from) = Inr (l, p) \<and>
      l \<le> length to - scan \<and> p \<le> length from"
    using matchlen_le [of "drop p from" "drop scan to"] by auto
qed

lemma bsdiff_ok:
  "\<exists>st. bsdiff from to body = Inr (body @ st) \<and>
    (\<forall>rest. apply_stream from 0 (length to) (st @ rest) = Some (to, rest))"
  using sa_finder.bsdiff_loop_ok [of 0 0 "from" 0 0 0 to 0 body]
  by (cases "to = []") (simp_all add: bsdiff_def Let_def)

end
