(* ===== verification/Mota_Patch.thy ===== *)
theory Mota_Patch
  imports Mota_Bsdiff
begin

text \<open>
  The patch encoders of \<open>src/encode.rs\<close>. \<open>apply_sequential\<close> and \<open>apply_window\<close> read a patch the way the
  source documents the two formats; the second one works in the single memory window that starts
  with the running image, overwriting it segment by segment. The theorems are the correctness
  contract of the module: the encoders return, and the patch rebuilds the target byte for byte.
\<close>

section \<open>The encoders\<close>

datatype patch_type = Sequential | InPlace

definition PATCH_TYPE_SEQUENTIAL :: u8 where [mota_const]: "PATCH_TYPE_SEQUENTIAL = 0"
definition PATCH_TYPE_IN_PLACE :: u8 where [mota_const]: "PATCH_TYPE_IN_PLACE = 1"
definition COMPRESSION_CRLE :: u8 where [mota_const]: "COMPRESSION_CRLE = 2"

definition encode_sequential :: "bytes \<Rightarrow> bytes \<Rightarrow> bytes result" where
  "encode_sequential from to =
    bindr (if to \<noteq> [] then bsdiff from to (pack_size 0) else Inr (pack_size 0)) (\<lambda>body.
    Inr ([push_bit 4 PATCH_TYPE_SEQUENTIAL OR COMPRESSION_CRLE] @ pack_size (int (length to)) @
         crle_compress body))"

definition calc_shift :: "nat \<Rightarrow> nat \<Rightarrow> nat \<Rightarrow> nat \<Rightarrow> nat" where
  "calc_shift memory_size segment_size minimum_shift from_size =
    (let memory_segments = div_ceil memory_size segment_size;
         from_segments = div_ceil from_size segment_size;
         shift_segments = memory_segments - from_segments
     in max (shift_segments * segment_size) minimum_shift)"

text \<open>The loop \<open>for s in 0..n_seg\<close>. \<open>from_data.get(from_offset..).unwrap_or(&[])\<close> is \<open>drop\<close>.\<close>

fun segment_loop :: "bytes \<Rightarrow> bytes \<Rightarrow> nat \<Rightarrow> nat \<Rightarrow> nat list \<Rightarrow> bytes \<Rightarrow> bytes result" where
  "segment_loop from_data to seg shift_size [] segments = Inr segments"
| "segment_loop from_data to seg shift_size (s # ss) segments =
    (let to_offset = s * seg;
         from_offset = (to_offset + seg) - shift_size;
         seg_from = drop from_offset from_data
     in bindr (rng to to_offset (min (to_offset + seg) (length to))) (\<lambda>seg_to.
        bindr (bsdiff seg_from seg_to (segments @ pack_size 0)) (\<lambda>segments'.
        segment_loop from_data to seg shift_size ss segments')))"

text \<open>
  The assertion and the subtraction \<open>mem - shift_size\<close> are panics here. The subtraction underflows when the
  window is smaller than two segments; a build without overflow checks would wrap instead, but the container
  builder plans no such window (\<open>build_no_panic\<close> in \<open>Mota_Build\<close>).
\<close>

definition encode_in_place :: "bytes \<Rightarrow> bytes \<Rightarrow> u32 \<Rightarrow> u32 \<Rightarrow> bytes result" where
  "encode_in_place from to memory_size segment_size =
    (let mem = unat memory_size; seg = unat segment_size in
     if \<not> (0 < seg \<and> mem mod seg = 0) then Inl Panic
     else let shift_size = calc_shift mem seg (2 * seg) (length from) in
       if mem < shift_size then Inl Panic
       else let shifted_size = mem - shift_size;
                from_data = take (min (length from) shifted_size) from;
                n_seg = div_ceil (length to) seg
            in bindr (segment_loop from_data to seg shift_size [0..<n_seg] []) (\<lambda>segments.
               let patch = [push_bit 4 PATCH_TYPE_IN_PLACE OR COMPRESSION_CRLE] @ pack_size (int mem) @
                     pack_size (int seg) @ pack_size (int shift_size) @ pack_size (int (length from)) @
                     pack_size (int (length to))
               in Inr (if to = [] then patch else patch @ crle_compress segments)))"

section \<open>Reading a sequential patch\<close>

definition apply_sequential :: "bytes \<Rightarrow> bytes \<Rightarrow> bytes option" where
  "apply_sequential from patch =
    (case patch of
       [] \<Rightarrow> None
     | h # p1 \<Rightarrow>
         if h \<noteq> 0x02 then None
         else case unpack_size p1 of
           None \<Rightarrow> None
         | Some (to_size, p2) \<Rightarrow>
             case crle_expand p2 of
               None \<Rightarrow> None
             | Some body \<Rightarrow>
                 case unpack_size body of
                   None \<Rightarrow> None
                 | Some (fmt, st) \<Rightarrow>
                     if fmt \<noteq> 0 \<or> to_size < 0 then None
                     else case apply_stream from 0 (nat to_size) st of
                       None \<Rightarrow> None
                     | Some (out, rest) \<Rightarrow> if rest = [] then Some out else None)"

lemma apply_stream_0 [simp]: "apply_stream from fp 0 st = Some ([], st)"
  by (subst apply_stream.simps) simp

lemma encode_sequential_ok:
  "\<exists>patch. encode_sequential from to = Inr patch \<and> apply_sequential from patch = Some to"
proof -
  obtain st where st: "(if to \<noteq> [] then bsdiff from to (pack_size 0) else Inr (pack_size 0)) = Inr (pack_size 0 @ st)"
    and ap: "apply_stream from 0 (length to) st = Some (to, [])"
  proof (cases "to = []")
    case False
    obtain st where "bsdiff from to (pack_size 0) = Inr (pack_size 0 @ st)"
      "\<forall>rest. apply_stream from 0 (length to) (st @ rest) = Some (to, rest)"
      using bsdiff_ok [of "from" to "pack_size 0"] by blast
    from this(1) spec [OF this(2), of "[]"] show ?thesis using that False by simp
  qed (use that [of "[]"] in simp)
  have "encode_sequential from to =
      Inr (0x02 # pack_size (int (length to)) @ crle_compress (pack_size 0 @ st))"
    by (simp only: encode_sequential_def st bindr_simps) (simp add: mota_const)
  then show ?thesis
    using ap by (simp add: apply_sequential_def size_codec.dec_enc crle_expand_compress)
qed

section \<open>Reading an in-place patch in its window\<close>

text \<open>
  Segment \<open>s\<close> is decoded against the part of the shifted base at and above \<open>(s + 1) * seg\<close>, and then
  written at \<open>s * seg\<close>.
\<close>

fun window_segments :: "nat \<Rightarrow> nat \<Rightarrow> nat \<Rightarrow> nat \<Rightarrow> nat list \<Rightarrow> bytes \<Rightarrow> bytes \<Rightarrow> (bytes \<times> bytes) option" where
  "window_segments seg shift_size base_end to_size [] win st = Some (win, st)"
| "window_segments seg shift_size base_end to_size (s # ss) win st =
    (case unpack_size st of
       None \<Rightarrow> None
     | Some (fmt, st1) \<Rightarrow>
         if fmt \<noteq> 0 then None
         else case apply_stream (slice (max shift_size ((s + 1) * seg)) base_end win) 0
                     (min seg (to_size - s * seg)) st1 of
           None \<Rightarrow> None
         | Some (out, st2) \<Rightarrow> window_segments seg shift_size base_end to_size ss (put (s * seg) out win) st2)"

definition apply_window :: "bytes \<Rightarrow> bytes \<Rightarrow> bytes option" where
  "apply_window win patch =
    (case patch of
       [] \<Rightarrow> None
     | h # p0 \<Rightarrow>
         if h \<noteq> 0x12 then None
         else case unpack_size p0 of None \<Rightarrow> None | Some (mem, p1) \<Rightarrow>
           case unpack_size p1 of None \<Rightarrow> None | Some (seg, p2) \<Rightarrow>
           case unpack_size p2 of None \<Rightarrow> None | Some (shift_size, p3) \<Rightarrow>
           case unpack_size p3 of None \<Rightarrow> None | Some (from_size, p4) \<Rightarrow>
           case unpack_size p4 of None \<Rightarrow> None | Some (to_size, p5) \<Rightarrow>
             if mem \<noteq> int (length win) \<or> seg \<le> 0 \<or> shift_size < 0 \<or> mem < shift_size \<or> from_size < 0 \<or>
                mem < from_size \<or> to_size < 0 \<or> mem < to_size then None
             else if to_size = 0 then Some []
             else case crle_expand p5 of None \<Rightarrow> None | Some segments \<Rightarrow>
               let base = take (nat (min from_size (mem - shift_size))) win;
                   win1 = put (nat shift_size) base win
               in case window_segments (nat seg) (nat shift_size) (nat shift_size + length base) (nat to_size)
                         [0..<div_ceil (nat to_size) (nat seg)] win1 segments of
                 None \<Rightarrow> None
               | Some (win2, rest) \<Rightarrow> if rest = [] then Some (take (nat to_size) win2) else None)"

lemma unpack_pack_nil: "unpack_size (pack_size x) = Some (x, [])"
  using size_codec.dec_enc [of x "[]"] by simp

lemma div_ceil_exact: "a mod b = 0 \<Longrightarrow> div_ceil a b * b = (a :: nat)"
  by (metis add.right_neutral div_ceil_def mod_0_imp_dvd dvd_div_mult_self)

lemma slice_later: "a \<le> b \<Longrightarrow> slice b e w = drop (b - a) (slice a e w)"
  by (simp add: slice_def drop_take)

lemma calc_shift_bounds:
  assumes "0 < seg" and "mem mod seg = 0" and "2 * seg \<le> mem"
  shows "2 * seg \<le> calc_shift mem seg (2 * seg) n" and "calc_shift mem seg (2 * seg) n \<le> mem"
proof -
  have "(div_ceil mem seg - div_ceil n seg) * seg \<le> div_ceil mem seg * seg"
    by (intro mult_right_mono) simp_all
  then show "calc_shift mem seg (2 * seg) n \<le> mem"
    using assms(3) div_ceil_exact [OF assms(2)] by (simp add: calc_shift_def Let_def)
qed (simp add: calc_shift_def Let_def)

text \<open>Before segment \<open>s\<close>: what is written equals the target, what is still needed of the base is intact.\<close>

definition window_inv :: "bytes \<Rightarrow> bytes \<Rightarrow> nat \<Rightarrow> nat \<Rightarrow> nat \<Rightarrow> bytes \<Rightarrow> bool" where
  "window_inv from_data to shift_size mem a win \<longleftrightarrow>
    length win = mem \<and>
    slice (max shift_size a) (shift_size + length from_data) win = drop (a - shift_size) from_data \<and>
    take (min a (length to)) win = take (min a (length to)) to"

lemma window_inv_step:
  assumes inv: "window_inv fd to S mem a win" and a: "a < length to" and "0 < seg" and "length to \<le> mem"
  defines "seg_to \<equiv> slice a (min (a + seg) (length to)) to"
  shows "slice (max S (a + seg)) (S + length fd) win = drop (a + seg - S) fd"
    and "length seg_to = min seg (length to - a)"
    and "window_inv fd to S mem (a + seg) (put a seg_to win)"
proof -
  have "slice (max S (a + seg)) (S + length fd) win =
      drop (max S (a + seg) - max S a) (slice (max S a) (S + length fd) win)"
    by (rule slice_later) simp
  also have "\<dots> = drop (max S (a + seg) - max S a + (a - S)) fd"
    using inv by (simp add: window_inv_def)
  also have "max S (a + seg) - max S a + (a - S) = a + seg - S" by simp
  finally show s: "slice (max S (a + seg)) (S + length fd) win = drop (a + seg - S) fd" .
  show l: "length seg_to = min seg (length to - a)" using a by (simp add: seg_to_def min_def) linarith
  have fit: "a + length seg_to \<le> length win" using a assms(4) l inv by (simp add: window_inv_def)
  have "slice (max S (a + seg)) (S + length fd) (put a seg_to win) = drop (a + seg - S) fd"
    unfolding s [symmetric] using fit l by (intro slice_put_after) simp_all
  moreover have "take (min (a + seg) (length to)) (put a seg_to win) = take (min (a + seg) (length to)) to"
  proof -
    have e: "min (a + seg) (length to) = a + length seg_to" using a l by simp
    have "take (a + length seg_to) (put a seg_to win) = take a win @ seg_to"
      using fit by (simp add: put_def)
    also have "take a win = take a to" using inv a by (simp add: window_inv_def)
    also have "take a to @ seg_to = take (a + length seg_to) to"
    proof -
      have "take (a + length seg_to) to = take a to @ slice a (a + length seg_to) to"
        by (simp add: slice_def take_add)
      also have "slice a (a + length seg_to) to = seg_to"
        unfolding e [symmetric] by (rule seg_to_def [THEN meta_eq_to_obj_eq, symmetric])
      finally show ?thesis by (rule sym)
    qed
    finally show ?thesis by (simp add: e)
  qed
  moreover have "length (put a seg_to win) = mem" using fit inv by (simp add: window_inv_def)
  ultimately show "window_inv fd to S mem (a + seg) (put a seg_to win)"
    by (simp add: window_inv_def)
qed

lemma segment_loop_ok:
  assumes "0 < seg" and "length to \<le> mem"
  defines "n \<equiv> div_ceil (length to) seg"
  shows "s \<le> n \<Longrightarrow> \<exists>st. segment_loop fd to seg S [s..<n] segs = Inr (segs @ st) \<and>
    (\<forall>win rest. window_inv fd to S mem (s * seg) win \<longrightarrow>
      (\<exists>win'. window_segments seg S (S + length fd) (length to) [s..<n] win (st @ rest) = Some (win', rest) \<and>
        take (length to) win' = to))"
proof (induction "n - s" arbitrary: s segs)
  case 0
  then have s: "s = n" by simp
  have "length to \<le> n * seg" using div_ceil_bounds(1) [OF assms(1)] by (simp add: n_def)
  then have "min (n * seg) (length to) = length to" by simp
  then show ?case using s by (auto simp: window_inv_def)
next
  case (Suc d)
  then have lt: "s < n" by simp
  then have a: "s * seg < length to" using less_div_ceil [OF assms(1)] by (simp add: n_def)
  have u: "[s..<n] = s # [Suc s..<n]" using lt by (rule upt_conv_Cons)
  let ?to = "slice (s * seg) (min (s * seg + seg) (length to)) to"
  let ?old = "drop (s * seg + seg - S) fd"
  obtain st1 where b: "bsdiff ?old ?to (segs @ pack_size 0) = Inr ((segs @ pack_size 0) @ st1)"
    and ap: "\<forall>rest. apply_stream ?old 0 (length ?to) (st1 @ rest) = Some (?to, rest)"
    using bsdiff_ok by blast
  obtain st2 where l2: "segment_loop fd to seg S [Suc s..<n] (segs @ pack_size 0 @ st1) = Inr ((segs @ pack_size 0 @ st1) @ st2)"
    and w2: "\<And>win rest. window_inv fd to S mem (Suc s * seg) win \<Longrightarrow>
      \<exists>win'. window_segments seg S (S + length fd) (length to) [Suc s..<n] win (st2 @ rest) = Some (win', rest) \<and>
        take (length to) win' = to"
  proof -
    have "d = n - Suc s" "Suc s \<le> n" using Suc.hyps(2) lt by simp_all
    from Suc.hyps(1) [OF this, of "segs @ pack_size 0 @ st1"] show ?thesis using that by blast
  qed
  have r: "rng to (s * seg) (min (s * seg + seg) (length to)) = Inr ?to" using a by (simp add: rng_def)
  have "segment_loop fd to seg S [s..<n] segs = Inr (segs @ pack_size 0 @ st1 @ st2)"
    using b l2 r by (simp add: u Let_def)
  moreover have "\<exists>win'. window_segments seg S (S + length fd) (length to) [s..<n] win ((pack_size 0 @ st1 @ st2) @ rest) =
      Some (win', rest) \<and> take (length to) win' = to"
    if inv: "window_inv fd to S mem (s * seg) win" for win rest
  proof -
    note step = window_inv_step [OF inv a assms(1,2)]
    have e: "(s + 1) * seg = s * seg + seg" by simp
    have "window_segments seg S (S + length fd) (length to) [s..<n] win ((pack_size 0 @ st1 @ st2) @ rest) =
        window_segments seg S (S + length fd) (length to) [Suc s..<n] (put (s * seg) ?to win) (st2 @ rest)"
      unfolding u window_segments.simps e step(1)
      using ap step(2) by (simp add: size_codec.dec_enc)
    then show ?thesis using w2 [of "put (s * seg) ?to win" rest] step(3) by (simp add: add.commute)
  qed
  ultimately show ?case by (intro exI [of _ "pack_size 0 @ st1 @ st2"]) auto
qed

lemma encode_in_place_ok:
  assumes "0 < unat seg" and "unat mem mod unat seg = 0" and "2 * unat seg \<le> unat mem"
    and "length from \<le> unat mem" and "length to \<le> unat mem"
  shows "\<exists>patch. encode_in_place from to mem seg = Inr patch \<and>
    (\<forall>win. length win = unat mem \<and> take (length from) win = from \<longrightarrow> apply_window win patch = Some to)"
proof -
  define m where "m = unat mem"
  define g where "g = unat seg"
  note assms = assms [folded m_def g_def]
  define S where "S = calc_shift (m) (g) (2 * g) (length from)"
  define fd where "fd = take (min (length from) (m - S)) from"
  note S = calc_shift_bounds [OF assms(1-3), of "length from", folded S_def]
  have lfd: "length fd = min (length from) (m - S)" by (simp add: fd_def)
  obtain st where st: "segment_loop fd to (g) S [0..<div_ceil (length to) (g)] [] = Inr st"
    and w: "\<And>win rest. window_inv fd to S (m) 0 win \<Longrightarrow>
      \<exists>win'. window_segments (g) S (S + length fd) (length to) [0..<div_ceil (length to) (g)] win (st @ rest) =
        Some (win', rest) \<and> take (length to) win' = to"
    using segment_loop_ok [OF assms(1,5), of 0 fd S "[]"] by auto
  let ?hdr = "pack_size (int (m)) @ pack_size (int (g)) @ pack_size (int S) @
      pack_size (int (length from)) @ pack_size (int (length to))"
  let ?patch = "0x12 # ?hdr @ (if to = [] then [] else crle_compress st)"
  have "encode_in_place from to mem seg = Inr ?patch"
    using assms S(2) st
    by (simp add: encode_in_place_def m_def [symmetric] g_def [symmetric] Let_def S_def [symmetric] fd_def [symmetric] not_less mota_const push_bit_eq_mult)
  moreover have "apply_window win ?patch = Some to" if win: "length win = unat mem" "take (length from) win = from" for win
  proof -
    note win = win [folded m_def]
    have base: "take (nat (min (int (length from)) (int (m) - int S))) win = fd"
    proof -
      have "nat (min (int (length from)) (int (m) - int S)) = min (length from) (m - S)"
        using S(2) by (simp add: min_def of_nat_diff [symmetric] del: of_nat_diff)
      then show ?thesis using win(2) by (metis fd_def min.cobounded1 min.commute take_take min_def)
    qed
    let ?win1 = "put S fd win"
    have fit: "S + length fd \<le> length win" using S(2) win(1) lfd by simp
    have inv: "window_inv fd to S (m) 0 ?win1"
      using fit win(1) by (simp add: window_inv_def slice_put_same)
    show ?thesis
    proof (cases "to = []")
      case True
      then show ?thesis using assms S win
        by (simp add: apply_window_def size_codec.dec_enc unpack_pack_nil)
    next
      case False
      obtain win' where "window_segments (g) S (S + length fd) (length to) [0..<div_ceil (length to) (g)] ?win1 st =
        Some (win', [])" "take (length to) win' = to"
        using w [OF inv, of "[]"] by auto
      then show ?thesis using False assms S win base
        by (simp add: apply_window_def size_codec.dec_enc crle_expand_compress Let_def)
    qed
  qed
  ultimately show ?thesis by blast
qed

end
