(* ===== verification/Mota_Build.thy ===== *)
theory Mota_Build
  imports Mota_Verify Mota_Endf Mota_Patch Mota_Versions
begin

text \<open>
  \<open>src/build.rs\<close>: assembling a container from a firmware image, full or as a delta, with the planning of
  the in-place window and the check that the staged container fits beside it. The theorems: what is
  built verifies, a full build succeeds exactly when its geometry is representable, deltas rebuild
  the image they announce, and no input makes the builder panic.
\<close>

section \<open>Options and results\<close>

record build_opts =
  o_fw :: bytes
  o_base :: "bytes option"
  o_patch_type :: patch_type
  o_inplace_memory :: "u32 option"
  o_segment_size :: u32
  o_target_id :: "u32 option"
  o_fw_version :: "u32 option"
  o_hw_id :: "bytes option"
  o_sign_seed :: "bytes option"
  o_block_size :: u32
  o_force :: bool

record inplace_plan =
  p_memory :: u32
  p_base_layout :: "nrf52_layout option"
  p_legacy_auto :: bool

record delta_built =
  d_codec :: codec
  d_payload :: bytes
  d_base_hash :: bytes
  d_inplace :: "inplace_plan option"

record built =
  bt_bytes :: bytes
  bt_suggested_name :: bytes
  bt_manifest :: manifest
  bt_inplace_memory :: "u32 option"

section \<open>Planning the in-place window\<close>

definition checked_sub32 :: "u32 \<Rightarrow> u32 \<Rightarrow> u32 option" where
  "checked_sub32 a b = (if b \<le> a then Some (a - b) else None)"

definition align_seg :: "nat \<Rightarrow> nat \<Rightarrow> nat result" where
  "align_seg seg n =
    ensure (n < 2 ^ 64) ''firmware image length does not fit u64''
      (of_opt ''in-place memory calculation overflow''
        (map_option (\<lambda>v. v div seg * seg) (checked_add64 n (seg - 1))))"

definition minimum_inplace_memory :: "nat \<Rightarrow> nat \<Rightarrow> u32 \<Rightarrow> u32 result" where
  "minimum_inplace_memory base_len target_len segment =
    ensure (segment \<noteq> 0) ''in-place: --segment-size must be non-zero'' (
    let seg = unat segment in
    bindr (align_seg seg base_len) (\<lambda>aligned.
    bindr (of_opt ''in-place base/shift memory calculation overflow'' (checked_add64 aligned (2 * seg))) (\<lambda>base.
    bindr (align_seg seg target_len) (\<lambda>target.
    ensure (max base target < 2 ^ 32) ''required in-place memory exceeds 32 bits''
      (Inr (of_nat (max base target)))))))"

definition image_fits_layout :: "nat \<Rightarrow> nrf52_layout \<Rightarrow> unit result" where
  "image_fits_layout image_len layout =
    (let ceiling = min (l_linked_app_end layout) (l_stage_ceiling layout) in
     bindr (of_opt ''invalid nRF52 image layout'' (checked_sub32 ceiling (l_app_base layout))) (\<lambda>capacity.
     ensure (image_len \<le> unat capacity) ''image exceeds its authenticated nRF52 layout'' (Inr ())))"

definition check_layouts :: "build_opts \<Rightarrow> bytes \<Rightarrow> bytes \<Rightarrow> nrf52_layout option \<Rightarrow> nrf52_layout option \<Rightarrow> unit result"
where
  "check_layouts opts base_image target_image base_layout target_layout =
    bindr (case base_layout of None \<Rightarrow> Inr () | Some l \<Rightarrow> image_fits_layout (length base_image) l) (\<lambda>_.
    bindr (case target_layout of None \<Rightarrow> Inr () | Some l \<Rightarrow> image_fits_layout (length target_image) l) (\<lambda>_.
    ensure (case (base_layout, target_layout) of
              (Some b, Some t) \<Rightarrow> l_app_base b = l_app_base t
            | _ \<Rightarrow> True)
      ''in-place: refusing a cross-SoftDevice layout'' (
    ensure (base_layout = None \<or> o_segment_size opts = NRF52_INPLACE_SEGMENT)
      ''in-place: an authenticated nRF52 base layout requires --segment-size 4096'' (Inr ()))))"

definition check_workspace :: "u32 \<Rightarrow> bytes \<Rightarrow> nrf52_layout \<Rightarrow> unit result" where
  "check_workspace memory target_image layout =
    bindr (of_opt ''invalid nRF52 application workspace''
             (checked_sub32 (application_ceiling layout) (l_app_base layout))) (\<lambda>apply_span.
    bindr (if external_backed layout then Inr apply_span
           else of_opt ''invalid nRF52 internal staging workspace''
                  (checked_sub32 (l_stage_ceiling layout) (l_app_base layout))) (\<lambda>workspace_span.
    ensure (memory \<le> workspace_span) ''in-place: memory exceeds authenticated nRF52 workspace'' (
    ensure (length target_image \<le> unat apply_span)
      ''in-place: target image exceeds the application workspace'' (Inr ()))))"

definition plan_inplace :: "crypto \<Rightarrow> build_opts \<Rightarrow> bytes \<Rightarrow> bytes \<Rightarrow> inplace_plan result" where
  "plan_inplace c opts base_image target_image =
    ensure (o_segment_size opts \<noteq> 0) ''in-place: --segment-size must be non-zero'' (
    bindr (context_msg ''base nRF52 layout record'' (parse_nrf52_layout c base_image)) (\<lambda>base_layout.
    bindr (context_msg ''target nRF52 layout record'' (parse_nrf52_layout c target_image)) (\<lambda>target_layout.
    bindr (check_layouts opts base_image target_image base_layout target_layout) (\<lambda>_.
    bindr (minimum_inplace_memory (length base_image) (length target_image) (o_segment_size opts)) (\<lambda>minimum.
    let layout_auto = (base_layout \<noteq> None \<and> target_layout \<noteq> None);
        (memory, legacy_auto) =
          (case o_inplace_memory opts of
             Some memory \<Rightarrow> (memory, False)
           | None \<Rightarrow> if layout_auto then (minimum, False) else (NRF52_FALLBACK_INPLACE_MEMORY, True))
    in ensure (memory \<noteq> 0 \<and> memory mod o_segment_size opts = 0)
         ''in-place: --inplace-memory must be a non-zero multiple of --segment-size'' (
       ensure (minimum \<le> memory)
         (if legacy_auto then ''in-place: legacy default memory is too small''
          else ''in-place: --inplace-memory is too small'') (
       ensure (legacy_auto \<longrightarrow> o_segment_size opts = NRF52_INPLACE_SEGMENT)
         ''in-place: legacy automatic sizing requires --segment-size 4096'' (
       bindr (case base_layout of None \<Rightarrow> Inr () | Some l \<Rightarrow> check_workspace memory target_image l) (\<lambda>_.
       Inr \<lparr>p_memory = memory, p_base_layout = base_layout, p_legacy_auto = legacy_auto\<rparr>)))))))))"

section \<open>Does the staged container fit\<close>

definition page_round_up :: "nat \<Rightarrow> nat result" where
  "page_round_up value =
    (let page = unat NRF52_INPLACE_SEGMENT in
     of_opt ''staged container size overflow''
       (map_option (\<lambda>v. v div page * page) (checked_add64 value (page - 1))))"

text \<open>The flash the container occupies; with hybrid RAM at most 64 KiB of its tail stay in SRAM.\<close>

definition staged_size :: "bool \<Rightarrow> nat \<Rightarrow> nat result" where
  "staged_size hybrid total_len =
    (let page = unat NRF52_INPLACE_SEGMENT; ram = unat NRF52_HYBRID_RAM_SIZE in
     if hybrid then
       bindr (page_round_up (total_len - ram)) (\<lambda>rounded.
       let flash_charge = max rounded page in
       ensure (flash_charge < total_len \<longrightarrow> total_len - flash_charge \<le> ram)
         ''in-place: hybrid RAM suffix exceeds 65536 bytes'' (Inr flash_charge))
     else page_round_up total_len)"

definition validate_staging_fit :: "inplace_plan \<Rightarrow> nat \<Rightarrow> unit result" where
  "validate_staging_fit plan total_len =
    bindr (case p_base_layout plan of
             Some layout \<Rightarrow>
               if external_backed layout then Inr None
               else bindr (of_opt ''invalid nRF52 staging span''
                             (checked_sub32 (l_stage_ceiling layout) (l_app_base layout))) (\<lambda>s. Inr (Some s))
           | None \<Rightarrow> if p_legacy_auto plan then Inr (Some NRF52_FALLBACK_FLASH_SPAN) else Inr None) (\<lambda>span.
    case span of
      None \<Rightarrow> Inr ()
    | Some span \<Rightarrow>
        ensure (total_len < 2 ^ 64) ''.mota length does not fit u64'' (
        bindr (staged_size (case p_base_layout plan of None \<Rightarrow> False | Some l \<Rightarrow> hybrid_ram l) total_len) (\<lambda>staged.
        bindr (of_opt ''in-place workspace calculation overflow'' (checked_add64 (unat (p_memory plan)) staged)) (\<lambda>used.
        ensure (used \<le> unat span) ''in-place: exceeds the authenticated staging span'' (Inr ())))))"

section \<open>Building\<close>

definition build_delta :: "crypto \<Rightarrow> build_opts \<Rightarrow> fw_ident \<Rightarrow> bytes \<Rightarrow> bytes \<Rightarrow> delta_built result" where
  "build_delta c opts ident img base_fw =
    ensure (has_endf c base_fw) ''--base must be a real firmware image with its EndF trailer'' (
    let base_ident = parse_ident c base_fw in
    ensure (o_force opts \<or> hw_id base_ident = hw_id ident)
      ''base hardware != target hardware; a cross-hardware delta will not apply'' (
    let (base_image, base_hash) = ensure_endf c base_fw base_ident in
    case o_patch_type opts of
      Sequential \<Rightarrow>
        bindr (encode_sequential base_image img) (\<lambda>payload.
        Inr \<lparr>d_codec = DetoolsSequential, d_payload = payload, d_base_hash = base_hash, d_inplace = None\<rparr>)
    | InPlace \<Rightarrow>
        bindr (plan_inplace c opts base_image img) (\<lambda>plan.
        bindr (encode_in_place base_image img (p_memory plan) (o_segment_size opts)) (\<lambda>payload.
        Inr \<lparr>d_codec = DetoolsInplace, d_payload = payload, d_base_hash = base_hash, d_inplace = Some plan\<rparr>))))"

text \<open>\<open>u32::is_power_of_two\<close>: exactly one bit is set.\<close>

definition is_power_of_two :: "u32 \<Rightarrow> bool" where
  "is_power_of_two v \<longleftrightarrow> list_ex (\<lambda>k. v = push_bit k 1) [0..<32]"

definition block_size_log2 :: "u32 \<Rightarrow> u8" where
  "block_size_log2 bs = of_nat (ilog2 (unat (max bs 1)))"

definition suggested_name :: "crypto \<Rightarrow> fw_ident \<Rightarrow> codec \<Rightarrow> bytes \<Rightarrow> bytes" where
  "suggested_name c ident cd r =
    (let hw = (if hw_id ident = [] then ascii ''fw'' else hw_id ident)
     in hw @ ascii ''_'' @ hex8 (target_id ident) @ ascii ''_v'' @ version_str (fw_version ident) @ ascii ''_'' @
        ascii (codec_name_tag cd) @ ascii ''_'' @ hex_upper c r @ ascii ''.mota'')"

text \<open>The fixed 197-byte manifest, field by field over zero bytes.\<close>

definition unsigned_manifest ::
  "build_opts \<Rightarrow> fw_ident \<Rightarrow> bytes \<Rightarrow> bytes \<Rightarrow> delta_built \<Rightarrow> bytes \<Rightarrow> bytes"
where
  "unsigned_manifest opts ident img image_hash d r =
    (let mf0 = replicate MFL 0;
         mf1 = mf0[off_FORMAT_VER := FORMAT_VER];
         mf2 = mf1[off_FLAGS := (if d_codec d = Full then MFLAG_FULL else 0) OR
                                (if o_sign_seed opts \<noteq> None then MFLAG_SIGNED else 0)];
         mf3 = mf2[off_HASH_ALGO := HASH_ALGO_SHA256];
         mf4 = wr_u32 mf3 off_TARGET_ID (target_id ident);
         mf5 = wr_u32 mf4 off_FW_VERSION (fw_version ident);
         mf6 = wr_u32 mf5 off_IMAGE_SIZE (of_nat (length img));
         mf7 = wr_u32 mf6 off_PAYLOAD_SIZE (of_nat (length (d_payload d)));
         mf8 = mf7[off_BLOCK_SIZE_LOG2 := block_size_log2 (o_block_size opts)];
         mf9 = put off_MERKLE_ROOT r mf8;
         mf10 = put off_IMAGE_HASH image_hash mf9;
         mf11 = mf10[off_CODEC_ID := codec_u8 (d_codec d)];
         n = min (length (hw_id ident)) HW_ID_LEN;
         mf12 = put off_HW_ID (take n (hw_id ident)) mf11
     in put off_BASE_HASH (d_base_hash d) mf12)"

definition sign_manifest :: "crypto \<Rightarrow> bytes option \<Rightarrow> bytes \<Rightarrow> bytes" where
  "sign_manifest c sign_seed mf =
    (case sign_seed of
       None \<Rightarrow> mf
     | Some seed \<Rightarrow>
         let mf' = put off_SIGNER (ed25519_public_from_seed c seed) mf;
             sig = ed25519_sign c seed (slice 0 SIGNED_LEN mf')
         in put off_SIGNATURE sig mf')"

definition resolve_ident :: "crypto \<Rightarrow> build_opts \<Rightarrow> fw_ident" where
  "resolve_ident c opts =
    (let from_fw = parse_ident c (o_fw opts)
     in \<lparr>fw_version = case_option (fw_version from_fw) id (o_fw_version opts),
         target_id = case_option (target_id from_fw) id (o_target_id opts),
         hw_id = case_option (hw_id from_fw) id (o_hw_id opts)\<rparr>)"

definition build :: "crypto \<Rightarrow> build_opts \<Rightarrow> built result" where
  "build c opts =
    ensure (1 < o_block_size opts \<and> o_block_size opts \<le> MAX_APPLICATION_BLOCK_SIZE \<and>
            is_power_of_two (o_block_size opts))
      ''application block size must be a power of two between 2 and 2048 bytes'' (
    let ident = resolve_ident c opts;
        img = fst (ensure_endf c (o_fw opts) ident) in
    bindr (case o_base opts of
             None \<Rightarrow> Inr \<lparr>d_codec = Full, d_payload = img, d_base_hash = replicate 8 0, d_inplace = None\<rparr>
           | Some base_fw \<Rightarrow> build_delta c opts ident img base_fw) (\<lambda>d.
    let payload = d_payload d;
        leaves = leaf_hashes c payload (unat (o_block_size opts));
        block_count = length leaves in
    ensure (1 \<le> block_count \<and> block_count \<le> 0xFFFF) ''payload yields an invalid block count'' (
    bindr (root c leaves) (\<lambda>r.
    let image_hash = sha256 c img;
        mf0 = unsigned_manifest opts ident img image_hash d r;
        mf1 = sign_manifest c (o_sign_seed opts) mf0;
        mf = put off_APPROVAL APPROVAL_NONE mf1;
        leaves_bytes = concat leaves;
        total_len = HEADER_LEN + MFL + length leaves_bytes + length payload + TRAILER_LEN in
    ensure (total_len \<le> 0xFFFFFFFF) ''.mota container is too large'' (
    bindr (case d_inplace d of None \<Rightarrow> Inr () | Some plan \<Rightarrow> validate_staging_fit plan total_len) (\<lambda>_.
    let out = MAGIC @ le_u32 (of_nat total_len) @ mf @ leaves_bytes @ payload @ TRAILER in
    bindr (manifest_parse c out) (\<lambda>m.
    Inr \<lparr>bt_bytes = out, bt_suggested_name = suggested_name c ident (d_codec d) r,
         bt_manifest = m, bt_inplace_memory = map_option p_memory (d_inplace d)\<rparr>)))))))"

section \<open>The assembled manifest\<close>

lemma put_hw_pad:
  assumes "length p = off" and "32 \<le> k"
  shows "put off (take (min (length hw) 32) hw) (p @ replicate k 0) = (p @ hw_field hw) @ replicate (k - 32) 0"
proof -
  let ?n = "min (length hw) 32"
  have "put off (take ?n hw) (p @ replicate k 0) = p @ take ?n hw @ replicate (k - ?n) 0"
    using assms by (simp add: put_def)
  also have "replicate (k - ?n) (0 :: u8) = replicate (32 - ?n) 0 @ replicate (k - 32) 0"
    using assms by (simp add: replicate_add [symmetric])
  finally show ?thesis by (simp add: hw_field_def put_def mota_const Let_def)
qed

lemma put_base_hash:
  assumes "length q = 57" and "length b = 8"
  shows "put 89 b ((q @ take (min (length hw) 32) hw) @ replicate (140 - min (length hw) 32) 0) =
    (q @ hw_field hw @ b) @ replicate 100 0"
proof -
  have "(q @ take (min (length hw) 32) hw) @ replicate (140 - min (length hw) 32) 0 = (q @ hw_field hw) @ replicate 108 0"
    using put_hw_pad [of q 57 140 hw] put_pad [of q 57 "take (min (length hw) 32) hw" 140] assms by simp
  then show ?thesis using put_pad [of "q @ hw_field hw" 89 b 108] assms by simp
qed

definition signed_part :: "manifest \<Rightarrow> bytes" where
  "signed_part m =
    [m_format_ver m, m_flags m, m_hash_algo m] @ le_u32 (m_target_id m) @ le_u32 (m_fw_version m) @
    le_u32 (m_image_size m) @ le_u32 (m_payload_size m) @ [m_block_size_log2 m] @ m_merkle_root m @
    m_image_hash m @ [m_codec_id m] @ m_hw_id m @ m_base_hash m @ m_signer m"

lemma manifest_bytes_signed: "manifest_bytes m = signed_part m @ m_signature m @ m_approval m"
  by (simp add: manifest_bytes_def signed_part_def)

lemma signed_part_signature: "signed_part (m\<lparr>m_signature := s\<rparr>) = signed_part m"
  by (simp add: signed_part_def)

lemma length_signed_part: "field_lengths m \<Longrightarrow> length (signed_part m) = 129"
  by (simp add: signed_part_def field_lengths_def)

definition unsigned_record ::
  "crypto \<Rightarrow> build_opts \<Rightarrow> fw_ident \<Rightarrow> bytes \<Rightarrow> delta_built \<Rightarrow> bytes \<Rightarrow> manifest"
where
  "unsigned_record c opts ident img d r =
    \<lparr>m_format_ver = FORMAT_VER,
     m_flags = (if d_codec d = Full then MFLAG_FULL else 0) OR (if o_sign_seed opts \<noteq> None then MFLAG_SIGNED else 0),
     m_hash_algo = HASH_ALGO_SHA256, m_target_id = target_id ident, m_fw_version = fw_version ident,
     m_image_size = of_nat (length img), m_payload_size = of_nat (length (d_payload d)),
     m_block_size_log2 = block_size_log2 (o_block_size opts),
     m_block_count = of_nat (length (leaf_hashes c (d_payload d) (unat (o_block_size opts)))),
     m_merkle_root = r, m_image_hash = sha256 c img, m_codec_id = codec_u8 (d_codec d),
     m_hw_id = hw_field (hw_id ident), m_base_hash = d_base_hash d,
     m_signer = replicate 32 0, m_signature = replicate 64 0, m_approval = APPROVAL_NONE\<rparr>"

definition built_record ::
  "crypto \<Rightarrow> build_opts \<Rightarrow> fw_ident \<Rightarrow> bytes \<Rightarrow> delta_built \<Rightarrow> bytes \<Rightarrow> manifest"
where
  "built_record c opts ident img d r =
    (let m = unsigned_record c opts ident img d r in
     case o_sign_seed opts of
       None \<Rightarrow> m
     | Some seed \<Rightarrow>
         let m' = m\<lparr>m_signer := ed25519_public_from_seed c seed\<rparr>
         in m'\<lparr>m_signature := ed25519_sign c seed (signed_part m')\<rparr>)"

lemma unsigned_manifest_bytes:
  assumes "length r = 4" and "length h = 32" and "length (d_base_hash d) = 8" and "h = sha256 c img"
  shows "unsigned_manifest opts ident img h d r =
    take 97 (signed_part (unsigned_record c opts ident img d r)) @ replicate 100 0"
proof -
  have z: "replicate 197 (0 :: u8) = [] @ replicate 197 0" by simp
  define fl where "fl = (if d_codec d = Full then MFLAG_FULL else 0) OR (if o_sign_seed opts \<noteq> None then MFLAG_SIGNED else 0)"
  have "take 97 (signed_part (unsigned_record c opts ident img d r)) =
    [FORMAT_VER, fl, HASH_ALGO_SHA256] @ le_u32 (target_id ident) @ le_u32 (fw_version ident) @
     le_u32 (of_nat (length img)) @ le_u32 (of_nat (length (d_payload d))) @ [block_size_log2 (o_block_size opts)] @
     r @ h @ [codec_u8 (d_codec d)] @ hw_field (hw_id ident) @ d_base_hash d"
    using assms by (simp add: signed_part_def unsigned_record_def fl_def)
  moreover have "unsigned_manifest opts ident img h d r =
    ((((((((((((([] @ [FORMAT_VER]) @ [fl]) @ [HASH_ALGO_SHA256]) @ le_u32 (target_id ident)) @
     le_u32 (fw_version ident)) @ le_u32 (of_nat (length img))) @ le_u32 (of_nat (length (d_payload d)))) @
     [block_size_log2 (o_block_size opts)]) @ r) @ h) @ [codec_u8 (d_codec d)]) @ hw_field (hw_id ident)) @
     d_base_hash d) @ replicate 100 0"
    unfolding unsigned_manifest_def Let_def MFL_def fl_def [symmetric]
    by (subst z, insert assms(1-3))
      (simp add: wr_u32_def mota_const put_base_hash put_pad update_pad del: append_Cons append_Nil append_assoc)
  ultimately show ?thesis by simp
qed

lemma built_manifest_bytes:
  assumes "crypto_ok c" and "length r = 4" and "length (d_base_hash d) = 8"
  shows "put off_APPROVAL APPROVAL_NONE (sign_manifest c (o_sign_seed opts)
      (unsigned_manifest opts ident img (sha256 c img) d r)) = manifest_bytes (built_record c opts ident img d r)"
proof -
  let ?m = "unsigned_record c opts ident img d r"
  note k = crypto_ok_lengths [OF assms(1)]
  have f: "field_lengths ?m" using assms k by (simp add: unsigned_record_def field_lengths_def)
  note l = length_signed_part [OF f]
  define p where "p = take 97 (signed_part ?m)"
  have lp: "length p = 97" using l by (simp add: p_def)
  have u: "unsigned_manifest opts ident img (sha256 c img) d r = p @ replicate 100 0"
    unfolding p_def using assms k by (intro unsigned_manifest_bytes) simp_all
  have sp: "signed_part (?m\<lparr>m_signer := s\<rparr>) = p @ s" for s
    unfolding p_def using f by (simp add: signed_part_def field_lengths_def)
  have s0: "signed_part ?m = p @ replicate 32 0"
    using sp [of "m_signer ?m"] by (simp add: unsigned_record_def)
  show ?thesis
  proof (cases "o_sign_seed opts")
    case None
    have "put off_APPROVAL APPROVAL_NONE (p @ replicate 100 0) = p @ replicate 96 0 @ APPROVAL_NONE"
      using lp by (simp add: put_def mota_const)
    moreover have "replicate 96 (0 :: u8) = replicate 32 0 @ replicate 64 0" by (simp add: replicate_add [symmetric])
    ultimately show ?thesis
      using None by (simp only: sign_manifest_def u option.case built_record_def Let_def manifest_bytes_signed s0)
        (simp add: unsigned_record_def)
  next
    case (Some seed)
    let ?pk = "ed25519_public_from_seed c seed"
    have a: "put off_SIGNER ?pk (p @ replicate 100 0) = (p @ ?pk) @ replicate 68 0"
      using lp k by (simp add: put_def mota_const)
    have b: "slice 0 SIGNED_LEN ((p @ ?pk) @ replicate 68 0) = p @ ?pk"
      using lp k by (simp add: slice_def mota_const)
    have d: "put off_SIGNATURE s ((p @ ?pk) @ replicate 68 0) = (p @ ?pk @ s) @ replicate 4 0"
      if "length s = 64" for s using lp k that by (simp add: put_def mota_const)
    have e: "put off_APPROVAL APPROVAL_NONE ((p @ ?pk @ s) @ replicate 4 0) = p @ ?pk @ s @ APPROVAL_NONE"
      if "length s = 64" for s using lp k that by (simp add: put_def mota_const)
    show ?thesis
      using Some by (simp only: sign_manifest_def u option.case built_record_def Let_def manifest_bytes_signed a b d [OF k(3)] e [OF k(3)] sp signed_part_signature)
        (simp add: unsigned_record_def)
  qed
qed

section \<open>What a successful build produced\<close>

lemma ilog2_pow: "ilog2 (2 ^ k) = k"
proof (induction k)
  case 0
  then show ?case by (simp add: ilog2.simps)
next
  case (Suc k)
  have "\<not> (2 :: nat) ^ Suc k < 2" by simp
  then show ?case using Suc by (subst ilog2.simps) simp
qed

lemma block_size_pow:
  assumes "is_power_of_two bs" and "bs \<le> 2048"
  obtains k where "k \<le> 11" and "bs = push_bit k 1" and "unat bs = 2 ^ k" and "block_size_log2 bs = of_nat k"
proof -
  obtain k where k: "k < 32" and b: "bs = push_bit k 1"
    using assms(1) by (auto simp: is_power_of_two_def list_ex_iff)
  have u: "unat bs = 2 ^ k"
    using k by (simp add: b unsigned_push_bit_eq take_bit_nat_eq_self push_bit_of_1 del: push_bit_of_1)
  have "2 ^ k \<le> (2 :: nat) ^ 11" using assms(2) u by (simp add: word_le_nat_alt)
  then have "k \<le> 11" by (rule power_le_imp_le_exp [rotated]) simp
  moreover have "max bs 1 = bs"
  proof -
    have "(1 :: nat) \<le> 2 ^ k" by simp
    then have "unat (1 :: u32) \<le> unat bs" unfolding u by simp
    then show ?thesis by (intro max_absorb1) (simp only: word_le_nat_alt)
  qed
  ultimately show ?thesis using that b u by (simp add: block_size_log2_def ilog2_pow)
qed

text \<open>The pieces of \<open>build\<close>, named.\<close>

definition the_image :: "crypto \<Rightarrow> build_opts \<Rightarrow> bytes" where
  "the_image c opts = fst (ensure_endf c (o_fw opts) (resolve_ident c opts))"

definition the_leaves :: "crypto \<Rightarrow> build_opts \<Rightarrow> delta_built \<Rightarrow> bytes list" where
  "the_leaves c opts d = leaf_hashes c (d_payload d) (unat (o_block_size opts))"

definition the_total :: "crypto \<Rightarrow> build_opts \<Rightarrow> delta_built \<Rightarrow> nat" where
  "the_total c opts d = HEADER_LEN + MFL + length (concat (the_leaves c opts d)) + length (d_payload d) + TRAILER_LEN"

definition the_delta :: "crypto \<Rightarrow> build_opts \<Rightarrow> delta_built result" where
  "the_delta c opts =
    (case o_base opts of
       None \<Rightarrow> Inr \<lparr>d_codec = Full, d_payload = the_image c opts, d_base_hash = replicate 8 0, d_inplace = None\<rparr>
     | Some base_fw \<Rightarrow> build_delta c opts (resolve_ident c opts) (the_image c opts) base_fw)"

definition block_size_ok :: "u32 \<Rightarrow> bool" where
  "block_size_ok bs \<longleftrightarrow> 1 < bs \<and> bs \<le> MAX_APPLICATION_BLOCK_SIZE \<and> is_power_of_two bs"

definition staging_ok :: "crypto \<Rightarrow> build_opts \<Rightarrow> delta_built \<Rightarrow> unit result" where
  "staging_ok c opts d =
    (case d_inplace d of None \<Rightarrow> Inr () | Some plan \<Rightarrow> validate_staging_fit plan (the_total c opts d))"

definition assembled :: "crypto \<Rightarrow> build_opts \<Rightarrow> delta_built \<Rightarrow> bytes" where
  "assembled c opts d =
    MAGIC @ le_u32 (of_nat (the_total c opts d)) @
    put off_APPROVAL APPROVAL_NONE (sign_manifest c (o_sign_seed opts)
      (unsigned_manifest opts (resolve_ident c opts) (the_image c opts) (sha256 c (the_image c opts)) d
        (mth c (the_leaves c opts d)))) @
    concat (the_leaves c opts d) @ d_payload d @ TRAILER"

lemma build_eq:
  "build c opts =
    ensure (block_size_ok (o_block_size opts))
      ''application block size must be a power of two between 2 and 2048 bytes'' (
    bindr (the_delta c opts) (\<lambda>d.
    ensure (1 \<le> length (the_leaves c opts d) \<and> length (the_leaves c opts d) \<le> 0xFFFF)
      ''payload yields an invalid block count'' (
    ensure (the_total c opts d \<le> 0xFFFFFFFF) ''.mota container is too large'' (
    bindr (staging_ok c opts d) (\<lambda>_.
    bindr (manifest_parse c (assembled c opts d)) (\<lambda>m.
    Inr \<lparr>bt_bytes = assembled c opts d,
         bt_suggested_name = suggested_name c (resolve_ident c opts) (d_codec d) (mth c (the_leaves c opts d)),
         bt_manifest = m, bt_inplace_memory = map_option p_memory (d_inplace d)\<rparr>))))))"
  unfolding build_def Let_def root_mth bindr_simps the_image_def [symmetric] the_leaves_def [symmetric]
    the_total_def [symmetric] the_delta_def [symmetric] block_size_ok_def [symmetric] staging_ok_def [symmetric]
    assembled_def [symmetric] ..

definition the_record :: "crypto \<Rightarrow> build_opts \<Rightarrow> delta_built \<Rightarrow> manifest" where
  "the_record c opts d =
    built_record c opts (resolve_ident c opts) (the_image c opts) d (mth c (the_leaves c opts d))"

lemma field_lengths_built:
  assumes "crypto_ok c" and "length r = 4" and "length (d_base_hash d) = 8"
  shows "field_lengths (built_record c opts ident img d r)"
  using assms crypto_ok_lengths [OF assms(1)]
  by (auto simp: built_record_def unsigned_record_def field_lengths_def Let_def split: option.splits)

lemma built_record_sel [simp]:
  "m_block_count (built_record c opts ident img d r) =
    of_nat (length (leaf_hashes c (d_payload d) (unat (o_block_size opts))))"
  "m_payload_size (built_record c opts ident img d r) = of_nat (length (d_payload d))"
  "m_image_size (built_record c opts ident img d r) = of_nat (length img)"
  "m_merkle_root (built_record c opts ident img d r) = r"
  "m_block_size_log2 (built_record c opts ident img d r) = block_size_log2 (o_block_size opts)"
  "m_image_hash (built_record c opts ident img d r) = sha256 c img"
  "m_approval (built_record c opts ident img d r) = APPROVAL_NONE"
  "m_format_ver (built_record c opts ident img d r) = FORMAT_VER"
  "m_codec_id (built_record c opts ident img d r) = codec_u8 (d_codec d)"
  "m_base_hash (built_record c opts ident img d r) = d_base_hash d"
  "m_target_id (built_record c opts ident img d r) = target_id ident"
  "m_fw_version (built_record c opts ident img d r) = fw_version ident"
  "m_hw_id (built_record c opts ident img d r) = hw_field (hw_id ident)"
  "m_flags (built_record c opts ident img d r) =
    (if d_codec d = Full then MFLAG_FULL else 0) OR (if o_sign_seed opts \<noteq> None then MFLAG_SIGNED else 0)"
  by (simp_all add: built_record_def unsigned_record_def Let_def split: option.splits)

lemma built_flags:
  "is_full (built_record c opts ident img d r) \<longleftrightarrow> d_codec d = Full"
  "is_signed (built_record c opts ident img d r) \<longleftrightarrow> o_sign_seed opts \<noteq> None"
  "\<not> is_bootloader (built_record c opts ident img d r)"
  "check_flags (m_format_ver (built_record c opts ident img d r)) (m_flags (built_record c opts ident img d r)) = Inr ()"
  by (simp_all add: is_full_def is_signed_def is_bootloader_def check_flags_def mota_const)

lemma built_signature:
  assumes "crypto_ok c" and "field_lengths (built_record c opts ident img d r)"
    and "is_signed (built_record c opts ident img d r)"
  shows "ed25519_verify c (m_signer (built_record c opts ident img d r))
    (take SIGNED_LEN (manifest_bytes (built_record c opts ident img d r)))
    (m_signature (built_record c opts ident img d r))"
proof -
  let ?m = "built_record c opts ident img d r"
  obtain seed where s: "o_sign_seed opts = Some seed" using assms(3) by (auto simp: built_flags)
  have "take SIGNED_LEN (manifest_bytes ?m) = signed_part ?m"
    using length_signed_part [OF assms(2)] by (simp add: manifest_bytes_signed mota_const)
  then show ?thesis
    using crypto_ok_verify [OF assms(1)] s
    by (simp add: built_record_def Let_def signed_part_signature)
qed

lemma delta_base_hash:
  "sha_ok c \<Longrightarrow> build_delta c opts ident img base_fw = Inr d \<Longrightarrow> length (d_base_hash d) = 8"
  using has_endf_length [of c base_fw]
  by (auto simp: build_delta_def ensure_endf_def Let_def endf_trailer_def mota_const split: patch_type.splits if_splits)

text \<open>What a delta description must satisfy for the container around it to be representable.\<close>

definition representable :: "crypto \<Rightarrow> build_opts \<Rightarrow> delta_built \<Rightarrow> bool" where
  "representable c opts d \<longleftrightarrow>
    block_size_ok (o_block_size opts) \<and> length (d_base_hash d) = 8 \<and>
    1 \<le> length (the_leaves c opts d) \<and> length (the_leaves c opts d) \<le> 0xFFFF \<and>
    the_total c opts d \<le> 0xFFFFFFFF"

lemma representable_record:
  assumes "crypto_ok c" and "representable c opts d"
  defines "m \<equiv> the_record c opts d"
  shows "field_lengths m" and "unat (m_block_count m) = length (the_leaves c opts d)"
    and "unat (m_payload_size m) = length (d_payload d)" and "block_size m = o_block_size opts"
    and "length (concat (the_leaves c opts d)) = 4 * unat (m_block_count m)"
    and "total_size m = the_total c opts d"
    and "assembled c opts d = container m (concat (the_leaves c opts d)) (d_payload d)"
    and "check_block_size (m_format_ver m) (m_block_size_log2 m) = Inr ()"
proof -
  note sha = crypto_ok_sha [OF assms(1)]
  have l4: "\<forall>l \<in> set (the_leaves c opts d). length l = 4"
    using leaf_hashes_elem [OF sha] by (auto simp: the_leaves_def)
  have lr: "length (mth c (the_leaves c opts d)) = 4" by (rule length_mth [OF sha l4])
  have lb: "length (d_base_hash d) = 8" using assms(2) by (simp add: representable_def)
  show f: "field_lengths m"
    unfolding m_def the_record_def by (rule field_lengths_built [OF assms(1) lr lb])
  show c0: "unat (m_block_count m) = length (the_leaves c opts d)"
    using assms(2) by (simp add: m_def the_record_def the_leaves_def [symmetric] representable_def unat_of_nat)
  show p0: "unat (m_payload_size m) = length (d_payload d)"
    using assms(2) by (simp add: m_def the_record_def representable_def the_total_def unat_of_nat mota_const)
  have "length (concat ls) = 4 * length ls" if "\<forall>l \<in> set ls. length l = 4" for ls :: "bytes list"
    using that by (induction ls) auto
  from this [OF l4] show lc: "length (concat (the_leaves c opts d)) = 4 * unat (m_block_count m)"
    by (simp add: c0)
  show t: "total_size m = the_total c opts d"
    by (simp add: total_size_sum the_total_def p0 lc mota_const)
  obtain k where k: "k \<le> 11" "o_block_size opts = push_bit k 1" "unat (o_block_size opts) = 2 ^ k"
    "block_size_log2 (o_block_size opts) = of_nat k"
    using block_size_pow [of "o_block_size opts"] assms(2) by (auto simp: representable_def block_size_ok_def MAX_APPLICATION_BLOCK_SIZE_def)
  have uk: "unat (of_nat k :: u8) = k" using k(1) by (simp only: unat_of_nat_u8) simp
  show "block_size m = o_block_size opts"
    unfolding m_def the_record_def block_size_def built_record_sel k(4) uk by (rule k(2) [symmetric])
  have "0 < k"
  proof (rule ccontr)
    assume "\<not> 0 < k"
    then have "o_block_size opts = 1" using k(2) by simp
    then show False using assms(2) by (simp add: representable_def block_size_ok_def)
  qed
  then have "1 \<le> unat (of_nat k :: u8)" "unat (of_nat k :: u8) \<le> 11" using uk k(1) by simp_all
  then show "check_block_size (m_format_ver m) (m_block_size_log2 m) = Inr ()"
    by (simp add: m_def the_record_def k(4) check_block_size_def word_le_nat_alt mota_const)
  show "assembled c opts d = container m (concat (the_leaves c opts d)) (d_payload d)"
    unfolding assembled_def built_manifest_bytes [OF assms(1) lr lb] the_record_def [symmetric] m_def [symmetric]
    by (simp add: container_def t)
qed

lemma representable_wf:
  assumes "crypto_ok c" and "representable c opts d"
  shows "manifest_wf c (the_record c opts d) (d_payload d)"
proof -
  note r = representable_record [OF assms]
  let ?bs = "unat (o_block_size opts)"
  have bs: "0 < ?bs" using assms(2) by (auto simp: representable_def block_size_ok_def word_less_nat_alt intro: gr0I)
  have cnt: "length (the_leaves c opts d) = div_ceil (length (d_payload d)) ?bs"
    using bs by (simp add: the_leaves_def leaf_hashes_length)
  have ps: "m_payload_size (the_record c opts d) \<noteq> 0"
  proof
    assume "m_payload_size (the_record c opts d) = 0"
    then have "length (d_payload d) = 0" using r(3) by simp
    then show False using assms(2) cnt by (simp add: representable_def)
  qed
  have "m_block_count (the_record c opts d) = u32_div_ceil (m_payload_size (the_record c opts d)) (o_block_size opts)"
    unfolding u32_div_ceil_def r(3) cnt [symmetric] by (simp add: the_record_def the_leaves_def)
  moreover have "1 \<le> m_block_count (the_record c opts d)" "m_block_count (the_record c opts d) \<le> 0xFFFF"
    using assms(2) by (simp_all add: word_le_nat_alt r(2) representable_def)
  moreover have "total_size (the_record c opts d) < 2 ^ 32"
    using assms(2) by (simp add: r(6) representable_def)
  ultimately show ?thesis
    using r(1,8) ps unfolding manifest_wf_def r(4)
    by (simp add: the_record_def built_flags del: built_record_sel) 
qed

lemma representable_intact:
  assumes "crypto_ok c" and "representable c opts d" and "d_codec d = Full \<Longrightarrow> d_payload d = the_image c opts"
  shows "intact c (the_record c opts d) (d_payload d)"
    and "assembled c opts d = intact_container c (the_record c opts d) (d_payload d)"
    and "manifest_parse c (assembled c opts d) = Inr (the_record c opts d)"
proof -
  note r = representable_record [OF assms(1,2)]
  note w = representable_wf [OF assms(1,2)]
  have s: "is_signed (the_record c opts d) \<Longrightarrow> ed25519_verify c (m_signer (the_record c opts d))
      (take SIGNED_LEN (manifest_bytes (the_record c opts d))) (m_signature (the_record c opts d))"
    unfolding the_record_def by (rule built_signature [OF assms(1)]) (use r(1) in \<open>simp_all add: the_record_def\<close>)
  show "intact c (the_record c opts d) (d_payload d)"
    using w s r(3) assms(3) unfolding intact_def r(4)
    by (auto simp: the_record_def built_flags the_leaves_def)
  show "assembled c opts d = intact_container c (the_record c opts d) (d_payload d)"
    by (simp add: r(7) intact_container_def r(4) the_leaves_def)
  show "manifest_parse c (assembled c opts d) = Inr (the_record c opts d)"
    unfolding r(7) by (rule parse_container [OF w r(5) r(3) [symmetric]])
qed

lemma the_delta_Inr:
  assumes "sha_ok c" and "the_delta c opts = Inr d"
  shows "length (d_base_hash d) = 8" and "d_codec d = Full \<Longrightarrow> d_payload d = the_image c opts"
  using assms delta_base_hash [OF assms(1)]
  by (auto simp: the_delta_def build_delta_def Let_def split: option.splits patch_type.splits prod.splits)

lemma build_Inr:
  assumes "crypto_ok c"
  shows "build c opts = Inr b \<longleftrightarrow>
    (\<exists>d. the_delta c opts = Inr d \<and> representable c opts d \<and> staging_ok c opts d = Inr () \<and>
      b = \<lparr>bt_bytes = assembled c opts d,
           bt_suggested_name = suggested_name c (resolve_ident c opts) (d_codec d) (mth c (the_leaves c opts d)),
           bt_manifest = the_record c opts d, bt_inplace_memory = map_option p_memory (d_inplace d)\<rparr>)"
proof -
  note del = the_delta_Inr [OF crypto_ok_sha [OF assms]]
  have p: "representable c opts d \<Longrightarrow> the_delta c opts = Inr d \<Longrightarrow>
      manifest_parse c (assembled c opts d) = Inr (the_record c opts d)" for d
    using representable_intact(3) [OF assms] del(2) by blast
  show ?thesis
  proof
    assume "build c opts = Inr b"
    then show "\<exists>d. the_delta c opts = Inr d \<and> representable c opts d \<and> staging_ok c opts d = Inr () \<and>
      b = \<lparr>bt_bytes = assembled c opts d,
           bt_suggested_name = suggested_name c (resolve_ident c opts) (d_codec d) (mth c (the_leaves c opts d)),
           bt_manifest = the_record c opts d, bt_inplace_memory = map_option p_memory (d_inplace d)\<rparr>"
      unfolding build_eq using del(1) p by (auto simp: representable_def)
  next
    assume "\<exists>d. the_delta c opts = Inr d \<and> representable c opts d \<and> staging_ok c opts d = Inr () \<and>
      b = \<lparr>bt_bytes = assembled c opts d,
           bt_suggested_name = suggested_name c (resolve_ident c opts) (d_codec d) (mth c (the_leaves c opts d)),
           bt_manifest = the_record c opts d, bt_inplace_memory = map_option p_memory (d_inplace d)\<rparr>"
    then obtain d where "the_delta c opts = Inr d" "representable c opts d" "staging_ok c opts d = Inr ()"
      "b = \<lparr>bt_bytes = assembled c opts d,
           bt_suggested_name = suggested_name c (resolve_ident c opts) (d_codec d) (mth c (the_leaves c opts d)),
           bt_manifest = the_record c opts d, bt_inplace_memory = map_option p_memory (d_inplace d)\<rparr>" by blast
    with p show "build c opts = Inr b"
      unfolding build_eq by (simp add: representable_def)
  qed
qed


section \<open>Deltas\<close>

text \<open>The window that the planner accepts can hold both images with two segments to spare for the base.\<close>

lemma align_seg_Inr:
  assumes "align_seg seg n = Inr v" and "0 < seg"
  shows "n \<le> v"
proof -
  have "v = (n + (seg - 1)) div seg * seg"
    using assms by (auto simp: align_seg_def checked_add64_def split: if_splits)
  moreover have "n \<le> (n + (seg - 1)) div seg * seg"
  proof -
    have "n + (seg - 1) = (n + (seg - 1)) div seg * seg + (n + (seg - 1)) mod seg" by simp
    moreover have "(n + (seg - 1)) mod seg < seg" using assms(2) by simp
    ultimately show ?thesis using assms(2) by linarith
  qed
  ultimately show ?thesis by simp
qed

lemma minimum_inplace_memory_Inr:
  assumes "minimum_inplace_memory base_len target_len segment = Inr v"
  shows "segment \<noteq> 0" and "base_len + 2 * unat segment \<le> unat v" and "target_len \<le> unat v"
proof -
  from assms show nz: "segment \<noteq> 0" by (simp add: minimum_inplace_memory_def)
  then have pos: "0 < unat segment" by (simp add: unat_gt_0)
  from assms obtain a t where a: "align_seg (unat segment) base_len = Inr a"
    and t: "align_seg (unat segment) target_len = Inr t"
    and m: "max (a + 2 * unat segment) t < 2 ^ 32" "v = of_nat (max (a + 2 * unat segment) t)"
    by (auto simp: minimum_inplace_memory_def Let_def checked_add64_def simp del: of_nat_add of_nat_max split: if_splits)
  have "unat v = max (a + 2 * unat segment) t"
    using m unfolding m(2) by (simp add: unat_of_nat del: of_nat_add of_nat_max)
  then show "base_len + 2 * unat segment \<le> unat v" "target_len \<le> unat v"
    using align_seg_Inr [OF a pos] align_seg_Inr [OF t pos] by auto
qed

lemma plan_inplace_Inr:
  assumes "plan_inplace c opts base img = Inr plan"
  shows "0 < unat (o_segment_size opts)" and "unat (p_memory plan) mod unat (o_segment_size opts) = 0"
    and "length base + 2 * unat (o_segment_size opts) \<le> unat (p_memory plan)"
    and "length img \<le> unat (p_memory plan)"
proof -
  from assms obtain v where v: "minimum_inplace_memory (length base) (length img) (o_segment_size opts) = Inr v"
    and le: "v \<le> p_memory plan" and md: "p_memory plan mod o_segment_size opts = 0"
    by (auto simp: plan_inplace_def Let_def split: option.splits if_splits del: mod_0_imp_dvd)
  note m = minimum_inplace_memory_Inr [OF v]
  show "0 < unat (o_segment_size opts)" using m(1) by (simp add: unat_gt_0)
  show "unat (p_memory plan) mod unat (o_segment_size opts) = 0"
    using md by (simp add: unat_mod [symmetric])
  show "length base + 2 * unat (o_segment_size opts) \<le> unat (p_memory plan)" "length img \<le> unat (p_memory plan)"
    using m(2,3) le by (auto simp: word_le_nat_alt)
qed

lemma build_delta_Inr:
  assumes "build_delta c opts ident img base_fw = Inr d"
  shows "has_endf c base_fw" and "d_base_hash d = slice 8 16 (endf_trailer base_fw)"
    and "case o_patch_type opts of
      Sequential \<Rightarrow> d_codec d = DetoolsSequential \<and> d_inplace d = None \<and> apply_sequential base_fw (d_payload d) = Some img
    | InPlace \<Rightarrow> d_codec d = DetoolsInplace \<and>
        (\<exists>plan. d_inplace d = Some plan \<and> plan_inplace c opts base_fw img = Inr plan \<and>
          (\<forall>win. length win = unat (p_memory plan) \<and> take (length base_fw) win = base_fw \<longrightarrow>
            apply_window win (d_payload d) = Some img))"
proof -
  show e: "has_endf c base_fw" using assms by (simp add: build_delta_def)
  then have en: "ensure_endf c base_fw i = (base_fw, slice 8 16 (endf_trailer base_fw))" for i
    by (simp add: ensure_endf_def)
  show "d_base_hash d = slice 8 16 (endf_trailer base_fw)"
    using assms by (auto simp: build_delta_def en Let_def split: patch_type.splits)
  show "case o_patch_type opts of
      Sequential \<Rightarrow> d_codec d = DetoolsSequential \<and> d_inplace d = None \<and> apply_sequential base_fw (d_payload d) = Some img
    | InPlace \<Rightarrow> d_codec d = DetoolsInplace \<and>
        (\<exists>plan. d_inplace d = Some plan \<and> plan_inplace c opts base_fw img = Inr plan \<and>
          (\<forall>win. length win = unat (p_memory plan) \<and> take (length base_fw) win = base_fw \<longrightarrow>
            apply_window win (d_payload d) = Some img))"
  proof (cases "o_patch_type opts")
    case Sequential
    then show ?thesis using assms encode_sequential_ok [of base_fw img]
      by (auto simp: build_delta_def en Let_def)
  next
    case InPlace
    then obtain plan where p: "plan_inplace c opts base_fw img = Inr plan"
      and x: "encode_in_place base_fw img (p_memory plan) (o_segment_size opts) = Inr (d_payload d)"
      and d: "d_codec d = DetoolsInplace" "d_inplace d = Some plan"
      using assms by (auto simp: build_delta_def en Let_def)
    note q = plan_inplace_Inr [OF p]
    have "\<exists>patch. encode_in_place base_fw img (p_memory plan) (o_segment_size opts) = Inr patch \<and>
      (\<forall>win. length win = unat (p_memory plan) \<and> take (length base_fw) win = base_fw \<longrightarrow> apply_window win patch = Some img)"
      by (rule encode_in_place_ok) (use q in simp_all)
    then show ?thesis using InPlace p x d by simp
  qed
qed

section \<open>No input makes the builder panic\<close>

lemma minimum_inplace_memory_no_panic: "minimum_inplace_memory a b s \<noteq> Inl Panic"
  by (auto simp: minimum_inplace_memory_def align_seg_def bindr_Panic Let_def)

lemma layout_validate_no_panic: "layout_validate l \<noteq> Inl Panic"
  by (simp add: layout_validate_def)

lemma parse_nrf52_layout_no_panic: "parse_nrf52_layout c img \<noteq> Inl Panic"
  by (auto simp: parse_nrf52_layout_def bindr_Panic Let_def rng_def rd_u32_def layout_validate_no_panic mota_const)

lemma check_layouts_no_panic: "check_layouts opts b t bl tlay \<noteq> Inl Panic"
  by (auto simp: check_layouts_def image_fits_layout_def bindr_Panic Let_def split: option.splits)

lemma check_workspace_no_panic: "check_workspace m t l \<noteq> Inl Panic"
  by (auto simp: check_workspace_def bindr_Panic)

lemma plan_inplace_no_panic: "plan_inplace c opts b t \<noteq> Inl Panic"
  by (auto simp: plan_inplace_def bindr_Panic Let_def parse_nrf52_layout_no_panic check_layouts_no_panic
      minimum_inplace_memory_no_panic check_workspace_no_panic split: option.splits prod.splits)

lemma validate_staging_fit_no_panic: "validate_staging_fit plan n \<noteq> Inl Panic"
  by (auto simp: validate_staging_fit_def staged_size_def page_round_up_def bindr_Panic Let_def split: option.splits)

lemma build_delta_no_panic: "build_delta c opts ident img base_fw \<noteq> Inl Panic"
proof (cases "has_endf c base_fw \<and> o_patch_type opts = InPlace \<and> is_ok (plan_inplace c opts base_fw img)")
  case True
  then obtain plan where p: "plan_inplace c opts base_fw img = Inr plan" by (auto simp: is_ok_iff)
  note q = plan_inplace_Inr [OF p]
  obtain patch where x: "encode_in_place base_fw img (p_memory plan) (o_segment_size opts) = Inr patch"
    using encode_in_place_ok [of "o_segment_size opts" "p_memory plan" base_fw img] q by auto
  then show ?thesis
    using True p by (simp add: build_delta_def ensure_endf_def Let_def)
next
  case False
  have s: "encode_sequential x y \<noteq> Inl Panic" for x y using encode_sequential_ok [of x y] by auto
  show ?thesis
    using False plan_inplace_no_panic [of c opts base_fw img]
    by (cases "plan_inplace c opts base_fw img")
      (auto simp: build_delta_def ensure_endf_def Let_def bindr_Panic s split: patch_type.splits)
qed

lemma build_no_panic: "build c opts \<noteq> Inl Panic"
  by (auto simp: build_eq bindr_Panic the_delta_def staging_ok_def build_delta_no_panic
      validate_staging_fit_no_panic manifest_parse_no_panic split: option.splits)

section \<open>Success of full builds, and the staging bound\<close>

lemma the_image_nonempty: "sha_ok c \<Longrightarrow> 56 \<le> length (the_image c opts)"
  using has_endf_length [of c "o_fw opts"]
  by (simp add: the_image_def ensure_endf_fst length_endf_fields)

lemma build_full_ok:
  assumes "crypto_ok c" and "o_base opts = None"
  shows "is_ok (build c opts) \<longleftrightarrow>
    block_size_ok (o_block_size opts) \<and> div_ceil (length (the_image c opts)) (unat (o_block_size opts)) \<le> 0xFFFF"
proof -
  let ?d = "\<lparr>d_codec = Full, d_payload = the_image c opts, d_base_hash = replicate 8 0, d_inplace = None\<rparr>"
  let ?n = "div_ceil (length (the_image c opts)) (unat (o_block_size opts))"
  have sha: "sha_ok c" by (rule crypto_ok_sha [OF assms(1)])
  have d: "the_delta c opts = Inr d \<longleftrightarrow> d = ?d" for d using assms(2) by (auto simp: the_delta_def)
  have "is_ok (build c opts) \<longleftrightarrow> representable c opts ?d"
    unfolding is_ok_iff build_Inr [OF assms(1)] d by (simp add: staging_ok_def)
  also have "\<dots> \<longleftrightarrow> block_size_ok (o_block_size opts) \<and> ?n \<le> 0xFFFF"
  proof (cases "block_size_ok (o_block_size opts)")
    case True
    then have bs: "0 < unat (o_block_size opts)" "unat (o_block_size opts) \<le> 2048"
      by (auto simp: block_size_ok_def word_less_nat_alt word_le_nat_alt MAX_APPLICATION_BLOCK_SIZE_def)
    have l: "length (the_leaves c opts ?d) = ?n" using bs by (simp add: the_leaves_def leaf_hashes_length)
    have l4: "length (concat ls) = 4 * length ls" if "\<forall>l \<in> set ls. length l = 4" for ls :: "bytes list"
      using that by (induction ls) auto
    have lc: "length (concat (the_leaves c opts ?d)) = 4 * ?n"
      using l4 [of "the_leaves c opts ?d"] leaf_hashes_elem [OF sha] l by (auto simp: the_leaves_def)
    note b = div_ceil_bounds [OF bs(1), of "length (the_image c opts)"]
    have pos: "1 \<le> ?n" using b(1) the_image_nonempty [OF sha, of opts] by (cases ?n) auto
    have "the_total c opts ?d \<le> 0xFFFFFFFF" if n: "?n \<le> 0xFFFF"
    proof -
      have "?n * unat (o_block_size opts) \<le> 0xFFFF * 2048" using n bs(2) by (rule mult_le_mono)
      then show ?thesis using b(1) n by (simp add: the_total_def lc mota_const)
    qed
    then show ?thesis using True l pos by (auto simp: representable_def)
  qed (simp add: representable_def)
  finally show ?thesis .
qed

lemma page_round_up_Inr: "page_round_up v = Inr r \<Longrightarrow> r mod 4096 = 0 \<and> v \<le> r"
proof -
  assume "page_round_up v = Inr r"
  then have r: "r = (v + 4095) div 4096 * 4096"
    by (auto simp: page_round_up_def checked_add64_def Let_def mota_const split: if_splits)
  have "v + 4095 = (v + 4095) div 4096 * 4096 + (v + 4095) mod 4096" by simp
  moreover have "(v + 4095) mod 4096 < 4096" by simp
  ultimately have "v \<le> (v + 4095) div 4096 * 4096" by linarith
  then show ?thesis unfolding r by (intro conjI) simp_all
qed

lemma staged_size_Inr:
  "staged_size hybrid n = Inr s \<Longrightarrow> s mod 4096 = 0 \<and> n \<le> s + (if hybrid then 65536 else 0)"
proof (cases hybrid)
  case True
  assume "staged_size hybrid n = Inr s"
  then obtain r where r: "page_round_up (n - 65536) = Inr r" and s: "s = max r 4096" and f: "s < n \<Longrightarrow> n - s \<le> 65536"
    using True by (auto simp: staged_size_def Let_def mota_const split: if_splits)
  have "s mod 4096 = 0" using page_round_up_Inr [OF r] s by (auto simp: max_def)
  moreover have "n \<le> s + 65536" using f by linarith
  ultimately show ?thesis using True by simp
next
  case False
  assume "staged_size hybrid n = Inr s"
  then have "page_round_up n = Inr s" using False by (simp add: staged_size_def Let_def)
  from page_round_up_Inr [OF this] False show ?thesis by simp
qed

lemma validate_staging_fit_internal:
  assumes "validate_staging_fit plan n = Inr ()" and "p_base_layout plan = Some l" and "\<not> external_backed l"
  shows "\<exists>staged. staged mod 4096 = 0 \<and> n \<le> staged + (if hybrid_ram l then 65536 else 0) \<and>
    l_app_base l \<le> l_stage_ceiling l \<and>
    unat (p_memory plan) + staged \<le> unat (l_stage_ceiling l) - unat (l_app_base l)"
proof -
  from assms obtain s where s: "staged_size (hybrid_ram l) n = Inr s"
    and le: "l_app_base l \<le> l_stage_ceiling l"
    and fit: "unat (p_memory plan) + s \<le> unat (l_stage_ceiling l - l_app_base l)"
    by (auto simp: validate_staging_fit_def checked_sub32_def checked_add64_def split: if_splits)
  have "unat (l_stage_ceiling l - l_app_base l) = unat (l_stage_ceiling l) - unat (l_app_base l)"
    using le by (rule unat_sub)
  then show ?thesis using staged_size_Inr [OF s] le fit by (intro exI [of _ s]) simp
qed

definition payload_of :: "built \<Rightarrow> bytes" where
  "payload_of b = (let m = bt_manifest b in
     slice (payload_off m) (payload_off m + unat (m_payload_size m)) (bt_bytes b))"

lemma build_result:
  assumes "crypto_ok c" and "build c opts = Inr b"
  obtains d where "the_delta c opts = Inr d" and "representable c opts d" and "staging_ok c opts d = Inr ()"
    and "bt_manifest b = the_record c opts d" and "payload_of b = d_payload d"
    and "intact c (bt_manifest b) (payload_of b)" and "bt_bytes b = intact_container c (bt_manifest b) (payload_of b)"
    and "manifest_parse c (bt_bytes b) = Inr (bt_manifest b)"
    and "bt_inplace_memory b = map_option p_memory (d_inplace d)"
    and "m_image_hash (bt_manifest b) = sha256 c (the_image c opts)"
    and "m_base_hash (bt_manifest b) = d_base_hash d" and "m_codec_id (bt_manifest b) = codec_u8 (d_codec d)"
proof -
  from assms obtain d where d: "the_delta c opts = Inr d" "representable c opts d" "staging_ok c opts d = Inr ()"
    and b: "b = \<lparr>bt_bytes = assembled c opts d,
           bt_suggested_name = suggested_name c (resolve_ident c opts) (d_codec d) (mth c (the_leaves c opts d)),
           bt_manifest = the_record c opts d, bt_inplace_memory = map_option p_memory (d_inplace d)\<rparr>"
    unfolding build_Inr [OF assms(1)] by blast
  note r = representable_record [OF assms(1) d(2)]
  have p: "payload_of b = d_payload d"
    using container_slices(5) [OF r(1) r(5) r(3) [symmetric], folded r(7)] by (simp add: payload_of_def b Let_def)
  have full: "d_codec d = Full \<Longrightarrow> d_payload d = the_image c opts"
    by (rule the_delta_Inr(2) [OF crypto_ok_sha [OF assms(1)] d(1)])
  note i = representable_intact [OF assms(1) d(2) full]
  show ?thesis
    by (rule that [of d]) (use d p i in \<open>simp_all add: b the_record_def\<close>)
qed

lemma built_verifies:
  assumes "crypto_ok c" and "build c opts = Inr b"
  shows "verify c (bt_bytes b) = Inr []" and "manifest_parse c (bt_bytes b) = Inr (bt_manifest b)"
  by (rule build_result [OF assms]; auto simp: verify_nil [OF crypto_ok_sha [OF assms(1)]])+

lemma build_sequential:
  assumes "crypto_ok c" and "build c opts = Inr b"
    and "o_base opts = Some base" and "o_patch_type opts = Sequential"
  shows "apply_sequential base (payload_of b) = Some (the_image c opts) \<and>
    m_image_hash (bt_manifest b) = sha256 c (the_image c opts) \<and>
    has_endf c base \<and> m_base_hash (bt_manifest b) = slice 8 16 (endf_trailer base) \<and>
    bt_inplace_memory b = None \<and> m_codec_id (bt_manifest b) = 1"
proof (rule build_result [OF assms(1,2)])
  fix d
  assume d: "the_delta c opts = Inr d"
    and r: "payload_of b = d_payload d" "bt_inplace_memory b = map_option p_memory (d_inplace d)"
      "m_image_hash (bt_manifest b) = sha256 c (the_image c opts)" "m_base_hash (bt_manifest b) = d_base_hash d"
      "m_codec_id (bt_manifest b) = codec_u8 (d_codec d)"
  from d assms(3) have "build_delta c opts (resolve_ident c opts) (the_image c opts) base = Inr d"
    by (simp add: the_delta_def)
  from build_delta_Inr [OF this] show ?thesis using r assms(4) by simp
qed

lemma build_in_place:
  assumes "crypto_ok c" and "build c opts = Inr b"
    and "o_base opts = Some base" and "o_patch_type opts = InPlace"
  shows "\<exists>memory. bt_inplace_memory b = Some memory \<and>
    length base + 2 * unat (o_segment_size opts) \<le> unat memory \<and> length (the_image c opts) \<le> unat memory \<and>
    unat memory mod unat (o_segment_size opts) = 0 \<and>
    (\<forall>win. length win = unat memory \<and> take (length base) win = base \<longrightarrow>
       apply_window win (payload_of b) = Some (the_image c opts))"
proof (rule build_result [OF assms(1,2)])
  fix d
  assume d: "the_delta c opts = Inr d"
    and r: "payload_of b = d_payload d" "bt_inplace_memory b = map_option p_memory (d_inplace d)"
  from d assms(3) have "build_delta c opts (resolve_ident c opts) (the_image c opts) base = Inr d"
    by (simp add: the_delta_def)
  from build_delta_Inr(3) [OF this] assms(4) obtain plan where p: "d_inplace d = Some plan"
    "plan_inplace c opts base (the_image c opts) = Inr plan"
    "\<forall>win. length win = unat (p_memory plan) \<and> take (length base) win = base \<longrightarrow>
            apply_window win (d_payload d) = Some (the_image c opts)" by auto
  show ?thesis
    using plan_inplace_Inr [OF p(2)] p(1,3) r by (intro exI [of _ "p_memory plan"]) (simp del: mod_0_imp_dvd)
qed

end
