(* ===== verification/Mota_Package.thy ===== *)
theory Mota_Package
  imports Mota_Build
begin

text \<open>
  \<open>build_bootloader\<close> of \<open>src/bootloader.rs\<close>: the signed format-3 package of a bootloader image. A package is
  built exactly for the images that validate for the selected board and profile, it always passes
  \<open>verify\<close>, and it carries the image unchanged. At the end, for every board and every storage profile it
  accepts, an image is constructed that validates, so that none of this is vacuous.
\<close>

section \<open>The builder\<close>

record bootloader_build_opts =
  bo_image :: bytes
  bo_board :: bootloader_board
  bo_storage_profile :: u8
  bo_sign_seed :: bytes

text \<open>The manifest before the signer is filled in, field by field over zero bytes.\<close>

definition bootloader_manifest :: "bytes \<Rightarrow> u32 \<Rightarrow> u32 \<Rightarrow> bytes \<Rightarrow> bytes \<Rightarrow> bytes" where
  "bootloader_manifest hw tid boot_ver r image_hash =
    (let mf0 = replicate MFL 0;
         mf1 = mf0[off_FORMAT_VER := BOOT_FORMAT_VER];
         mf2 = mf1[off_FLAGS := MFLAG_FULL OR MFLAG_SIGNED OR MFLAG_BOOTLOADER];
         mf3 = mf2[off_HASH_ALGO := HASH_ALGO_SHA256];
         mf4 = wr_u32 mf3 off_TARGET_ID tid;
         mf5 = wr_u32 mf4 off_FW_VERSION boot_ver;
         mf6 = wr_u32 mf5 off_IMAGE_SIZE (of_nat IMAGE_SIZE);
         mf7 = wr_u32 mf6 off_PAYLOAD_SIZE (of_nat IMAGE_SIZE);
         mf8 = mf7[off_BLOCK_SIZE_LOG2 := of_nat (ilog2 (unat BOOTLOADER_BLOCK_SIZE))];
         mf9 = put off_MERKLE_ROOT r mf8;
         mf10 = put off_IMAGE_HASH image_hash mf9;
         mf11 = mf10[off_CODEC_ID := codec_u8 Full]
     in put off_HW_ID hw mf11)"

definition bootloader_name :: "crypto \<Rightarrow> bytes \<Rightarrow> u32 \<Rightarrow> bytes \<Rightarrow> bytes" where
  "bootloader_name c hw_str boot_ver r =
    hw_str @ ascii ''_v'' @ bootloader_version_str boot_ver @ ascii ''_bootloader_'' @ hex_upper c r @ ascii ''.mota''"

definition build_bootloader :: "crypto \<Rightarrow> bootloader_build_opts \<Rightarrow> built result" where
  "build_bootloader c opts =
    bindr (validate_bootloader_image_for_profile c (bo_image opts) (bo_board opts) (bo_storage_profile opts)) (\<lambda>identity.
    let leaves = leaf_hashes c (bo_image opts) (unat BOOTLOADER_BLOCK_SIZE) in
    ensure (length leaves = BLOCK_COUNT) ''bootloader payload must yield exactly 40 blocks'' (
    bindr (root c leaves) (\<lambda>r.
    let image_hash = sha256 c (bo_image opts) in
    bindr (board_target_id c (bo_board opts)) (\<lambda>tid.
    bindr (board_hw_id (bo_board opts)) (\<lambda>hw.
    let mf = put off_APPROVAL APPROVAL_NONE (sign_manifest c (Some (bo_sign_seed opts))
               (bootloader_manifest hw tid (boot_version identity) r image_hash));
        out = MAGIC @ le_u32 (of_nat PACKAGE_SIZE) @ mf @ concat leaves @ bo_image opts @ TRAILER in
    ensure (length out = PACKAGE_SIZE) ''bootloader package geometry drifted'' (
    bindr (manifest_parse c out) (\<lambda>m.
    bindr (board_hw_id_str (bo_board opts)) (\<lambda>hw_str.
    Inr \<lparr>bt_bytes = out, bt_suggested_name = bootloader_name c hw_str (boot_version identity) r,
         bt_manifest = m, bt_inplace_memory = None\<rparr>))))))))"

section \<open>What it assembles\<close>

definition bootloader_record ::
  "crypto \<Rightarrow> bytes \<Rightarrow> bytes \<Rightarrow> bytes \<Rightarrow> u32 \<Rightarrow> u32 \<Rightarrow> manifest"
where
  "bootloader_record c seed img hw tid boot_ver =
    (let m = \<lparr>m_format_ver = BOOT_FORMAT_VER, m_flags = MFLAG_FULL OR MFLAG_SIGNED OR MFLAG_BOOTLOADER,
          m_hash_algo = HASH_ALGO_SHA256, m_target_id = tid, m_fw_version = boot_ver,
          m_image_size = of_nat IMAGE_SIZE, m_payload_size = of_nat IMAGE_SIZE,
          m_block_size_log2 = of_nat (ilog2 (unat BOOTLOADER_BLOCK_SIZE)), m_block_count = 40,
          m_merkle_root = mth c (leaf_hashes c img (unat BOOTLOADER_BLOCK_SIZE)), m_image_hash = sha256 c img,
          m_codec_id = codec_u8 Full, m_hw_id = hw, m_base_hash = replicate 8 0,
          m_signer = ed25519_public_from_seed c seed, m_signature = replicate 64 0, m_approval = APPROVAL_NONE\<rparr>
     in m\<lparr>m_signature := ed25519_sign c seed (signed_part m)\<rparr>)"

lemma bootloader_manifest_bytes:
  assumes "length hw = 32" and "length r = 4" and "length h = 32"
  shows "bootloader_manifest hw tid boot_ver r h =
    ([BOOT_FORMAT_VER, MFLAG_FULL OR MFLAG_SIGNED OR MFLAG_BOOTLOADER, HASH_ALGO_SHA256] @ le_u32 tid @ le_u32 boot_ver @
     le_u32 (of_nat IMAGE_SIZE) @ le_u32 (of_nat IMAGE_SIZE) @ [of_nat (ilog2 (unat BOOTLOADER_BLOCK_SIZE))] @
     r @ h @ [codec_u8 Full] @ hw @ replicate 8 0) @ replicate 100 0"
proof -
  define fl where "fl = MFLAG_FULL OR MFLAG_SIGNED OR MFLAG_BOOTLOADER"
  define lg :: u8 where "lg = of_nat (ilog2 (unat BOOTLOADER_BLOCK_SIZE))"
  define sz :: u32 where "sz = of_nat IMAGE_SIZE"
  have z: "replicate 197 (0 :: u8) = [] @ replicate 197 0" by simp
  have e: "replicate 108 (0 :: u8) = replicate 8 0 @ replicate 100 0" by (simp add: replicate_add [symmetric])
  have "bootloader_manifest hw tid boot_ver r h =
    (((((((((((([] @ [BOOT_FORMAT_VER]) @ [fl]) @ [HASH_ALGO_SHA256]) @ le_u32 tid) @
     le_u32 boot_ver) @ le_u32 sz) @ le_u32 sz) @ [lg]) @ r) @ h) @ [codec_u8 Full]) @ hw) @ replicate 108 0"
    unfolding bootloader_manifest_def Let_def MFL_def fl_def [symmetric] lg_def [symmetric] sz_def [symmetric]
    by (subst z, insert assms)
      (simp add: wr_u32_def mota_const put_pad update_pad del: append_Cons append_Nil append_assoc)
  then show ?thesis by (simp add: e fl_def lg_def sz_def)
qed

lemma bootloader_bytes:
  assumes "crypto_ok c" and "length hw = 32" and "length (mth c (leaf_hashes c img (unat BOOTLOADER_BLOCK_SIZE))) = 4"
  shows "put off_APPROVAL APPROVAL_NONE (sign_manifest c (Some seed)
      (bootloader_manifest hw tid boot_ver (mth c (leaf_hashes c img (unat BOOTLOADER_BLOCK_SIZE))) (sha256 c img))) =
    manifest_bytes (bootloader_record c seed img hw tid boot_ver)"
proof -
  note k = crypto_ok_lengths [OF assms(1)]
  let ?r = "mth c (leaf_hashes c img (unat BOOTLOADER_BLOCK_SIZE))"
  define p where "p = [BOOT_FORMAT_VER, MFLAG_FULL OR MFLAG_SIGNED OR MFLAG_BOOTLOADER, HASH_ALGO_SHA256] @ le_u32 tid @ le_u32 boot_ver @
     le_u32 (of_nat IMAGE_SIZE) @ le_u32 (of_nat IMAGE_SIZE) @ [of_nat (ilog2 (unat BOOTLOADER_BLOCK_SIZE))] @
     ?r @ sha256 c img @ [codec_u8 Full] @ hw @ replicate 8 0"
  have lp: "length p = 97" using assms k by (simp add: p_def)
  have u: "bootloader_manifest hw tid boot_ver ?r (sha256 c img) = p @ replicate 100 0"
    unfolding p_def using assms k by (intro bootloader_manifest_bytes) simp_all
  let ?pk = "ed25519_public_from_seed c seed"
  have a: "put off_SIGNER ?pk (p @ replicate 100 0) = (p @ ?pk) @ replicate 68 0"
    using lp k by (simp add: put_def mota_const)
  have b: "slice 0 SIGNED_LEN ((p @ ?pk) @ replicate 68 0) = p @ ?pk"
    using lp k by (simp add: slice_def mota_const)
  have d: "put off_SIGNATURE s ((p @ ?pk) @ replicate 68 0) = (p @ ?pk @ s) @ replicate 4 0"
    if "length s = 64" for s using lp k that by (simp add: put_def mota_const)
  have e: "put off_APPROVAL APPROVAL_NONE ((p @ ?pk @ s) @ replicate 4 0) = p @ ?pk @ s @ APPROVAL_NONE"
    if "length s = 64" for s using lp k that by (simp add: put_def mota_const)
  have sp: "signed_part (bootloader_record c seed img hw tid boot_ver) = p @ ?pk"
    by (simp add: signed_part_def bootloader_record_def Let_def p_def)
  have sg: "m_signature (bootloader_record c seed img hw tid boot_ver) = ed25519_sign c seed (p @ ?pk)"
    unfolding sp [symmetric] by (simp only: bootloader_record_def Let_def signed_part_signature) simp
  show ?thesis
    by (simp only: sign_manifest_def u option.case Let_def manifest_bytes_signed a b d [OF k(3)] e [OF k(3)] sp sg)
      (simp add: bootloader_record_def Let_def)
qed

lemma bootloader_record_sel [simp]:
  "m_format_ver (bootloader_record c seed img hw tid v) = BOOT_FORMAT_VER"
  "m_flags (bootloader_record c seed img hw tid v) = MFLAG_FULL OR MFLAG_SIGNED OR MFLAG_BOOTLOADER"
  "m_hash_algo (bootloader_record c seed img hw tid v) = HASH_ALGO_SHA256"
  "m_target_id (bootloader_record c seed img hw tid v) = tid"
  "m_fw_version (bootloader_record c seed img hw tid v) = v"
  "m_image_size (bootloader_record c seed img hw tid v) = of_nat IMAGE_SIZE"
  "m_payload_size (bootloader_record c seed img hw tid v) = of_nat IMAGE_SIZE"
  "m_block_size_log2 (bootloader_record c seed img hw tid v) = of_nat (ilog2 (unat BOOTLOADER_BLOCK_SIZE))"
  "m_block_count (bootloader_record c seed img hw tid v) = 40"
  "m_merkle_root (bootloader_record c seed img hw tid v) = mth c (leaf_hashes c img (unat BOOTLOADER_BLOCK_SIZE))"
  "m_image_hash (bootloader_record c seed img hw tid v) = sha256 c img"
  "m_codec_id (bootloader_record c seed img hw tid v) = codec_u8 Full"
  "m_hw_id (bootloader_record c seed img hw tid v) = hw"
  "m_base_hash (bootloader_record c seed img hw tid v) = replicate 8 0"
  "m_signer (bootloader_record c seed img hw tid v) = ed25519_public_from_seed c seed"
  "m_approval (bootloader_record c seed img hw tid v) = APPROVAL_NONE"
  by (simp_all add: bootloader_record_def Let_def)

section \<open>When it succeeds\<close>

lemma boot_log2: "(of_nat (ilog2 (unat BOOTLOADER_BLOCK_SIZE)) :: u8) = 10"
  using ilog2_pow [of 10] by (simp add: mota_const)

lemma bootloader_block_size: "block_size (bootloader_record c seed img hw tid v) = 1024"
  by (simp add: block_size_def boot_log2 mota_const push_bit_eq_mult)

lemma boot_leaves:
  assumes "sha_ok c" and "length img = IMAGE_SIZE"
  shows "length (leaf_hashes c img (unat BOOTLOADER_BLOCK_SIZE)) = 40"
    and "length (concat (leaf_hashes c img (unat BOOTLOADER_BLOCK_SIZE))) = 160"
    and "length (mth c (leaf_hashes c img (unat BOOTLOADER_BLOCK_SIZE))) = 4"
proof -
  show a: "length (leaf_hashes c img (unat BOOTLOADER_BLOCK_SIZE)) = 40"
    using assms(2) by (simp add: leaf_hashes_length mota_const div_ceil_def)
  have e: "\<forall>x \<in> set (leaf_hashes c img (unat BOOTLOADER_BLOCK_SIZE)). length x = 4"
    using leaf_hashes_elem [OF assms(1)] by auto
  have "length (concat ls) = 4 * length ls" if "\<forall>l \<in> set ls. length l = 4" for ls :: "bytes list"
    using that by (induction ls) auto
  with a e show "length (concat (leaf_hashes c img (unat BOOTLOADER_BLOCK_SIZE))) = 160" by simp
  show "length (mth c (leaf_hashes c img (unat BOOTLOADER_BLOCK_SIZE))) = 4"
    by (rule length_mth [OF assms(1) e])
qed

lemma bootloader_record_intact:
  assumes "crypto_ok c" and "validate_bootloader_image c img tid hw v = Inr i"
  shows "intact c (bootloader_record c seed img hw tid v) img"
proof -
  let ?m = "bootloader_record c seed img hw tid v"
  note s = crypto_ok_sha [OF assms(1)] and k = crypto_ok_lengths [OF assms(1)]
  obtain b n st where contract: "image_contract c img tid hw v b n st"
    using assms(2) unfolding validate_bootloader_image_Inr by blast
  have len: "length img = IMAGE_SIZE" using contract by (simp add: image_contract_def)
  have hw: "length hw = 32" using contract length_bootloader_hw_id by (auto simp: image_contract_def)
  have ver: "version_valid v"
    using contract by (auto simp: image_contract_def continuity_ok_def mota_const)
  note leaves = boot_leaves [OF s len]
  have f: "field_lengths ?m"
    using k hw leaves(3) by (simp add: field_lengths_def bootloader_record_def Let_def mota_const)
  have flags: "is_bootloader ?m" "is_full ?m" "is_signed ?m"
    by (simp_all add: is_bootloader_def is_full_def is_signed_def mota_const)
  have c1: "check_flags (m_format_ver ?m) (m_flags ?m) = Inr ()" by (simp add: check_flags_def mota_const)
  have c2: "check_block_size (m_format_ver ?m) (m_block_size_log2 ?m) = Inr ()"
    by (simp add: check_block_size_def mota_const)
  have "manifest_wf c ?m img"
    using assms(2) f c1 c2 ver
    by (simp add: manifest_wf_def bootloader_block_size u32_div_ceil_def div_ceil_def total_size_sum mota_const)
  moreover have "ed25519_verify c (m_signer ?m) (take SIGNED_LEN (manifest_bytes ?m)) (m_signature ?m)"
  proof -
    have "take SIGNED_LEN (manifest_bytes ?m) = signed_part ?m"
      using length_signed_part [OF f] by (simp add: manifest_bytes_signed mota_const)
    moreover have "m_signature ?m = ed25519_sign c seed (signed_part ?m)"
      unfolding bootloader_record_def Let_def signed_part_signature by simp
    ultimately show ?thesis using crypto_ok_verify [OF assms(1)] by simp
  qed
  moreover have "unat (block_size ?m) = unat BOOTLOADER_BLOCK_SIZE" by (simp add: bootloader_block_size mota_const)
  ultimately show ?thesis using len by (simp add: intact_def mota_const)
qed

definition bootloader_built :: "crypto \<Rightarrow> bootloader_build_opts \<Rightarrow> bootloader_identity \<Rightarrow> built" where
  "bootloader_built c opts i =
    (let m = bootloader_record c (bo_sign_seed opts) (bo_image opts) (hw_bytes (bo_board opts))
               (target_of c (bo_board opts)) (boot_version i)
     in \<lparr>bt_bytes = intact_container c m (bo_image opts),
         bt_suggested_name = bootloader_name c (hw_text (board_board_id (bo_board opts)) (ascii (board_device_name (bo_board opts))))
           (boot_version i) (m_merkle_root m),
         bt_manifest = m, bt_inplace_memory = None\<rparr>)"

lemma build_bootloader_eq:
  assumes "crypto_ok c"
  shows "build_bootloader c opts =
    bindr (validate_bootloader_image_for_profile c (bo_image opts) (bo_board opts) (bo_storage_profile opts))
      (\<lambda>i. Inr (bootloader_built c opts i))"
proof (cases "validate_bootloader_image_for_profile c (bo_image opts) (bo_board opts) (bo_storage_profile opts)")
  case (Inl e)
  then show ?thesis by (simp add: build_bootloader_def)
next
  case (Inr i)
  let ?img = "bo_image opts" and ?hw = "hw_bytes (bo_board opts)" and ?tid = "target_of c (bo_board opts)"
  let ?m = "bootloader_record c (bo_sign_seed opts) ?img ?hw ?tid (boot_version i)"
  note s = crypto_ok_sha [OF assms]
  have v: "validate_bootloader_image c ?img ?tid ?hw (boot_version i) = Inr i"
    using Inr unfolding profile_Inr by blast
  note int = bootloader_record_intact [OF assms v]
  obtain b n st where contract: "image_contract c ?img ?tid ?hw (boot_version i) b n st"
    using v unfolding validate_bootloader_image_Inr by blast
  have len: "length ?img = IMAGE_SIZE" using contract by (simp add: image_contract_def)
  note leaves = boot_leaves [OF s len]
  have hw: "length ?hw = 32" using length_bootloader_hw_id [OF board_hw_id_ok] .
  have bs: "unat (block_size ?m) = unat BOOTLOADER_BLOCK_SIZE" by (simp add: bootloader_block_size mota_const)
  have tot: "total_size ?m = PACKAGE_SIZE"
    by (simp add: total_size_sum PACKAGE_SIZE_def BLOCK_COUNT_def mota_const)
  have out: "MAGIC @ le_u32 (of_nat PACKAGE_SIZE) @ manifest_bytes ?m @
      concat (leaf_hashes c ?img (unat BOOTLOADER_BLOCK_SIZE)) @ ?img @ TRAILER = intact_container c ?m ?img"
    by (simp add: intact_container_def container_def bs tot)
  have w: "manifest_wf c ?m ?img" and lp: "length ?img = unat (m_payload_size ?m)" using int by (simp_all add: intact_def)
  have ll: "length (concat (leaf_hashes c ?img (unat (block_size ?m)))) = 4 * unat (m_block_count ?m)"
    using leaves_of_wf [OF w lp s] .
  have pl: "length (intact_container c ?m ?img) = PACKAGE_SIZE"
    unfolding intact_container_def tot [symmetric] using w ll lp by (intro length_container) (simp_all add: manifest_wf_def)
  have pp: "manifest_parse c (intact_container c ?m ?img) = Inr ?m"
    unfolding intact_container_def by (rule parse_container [OF w ll lp])
  have bc: "length (leaf_hashes c ?img (unat BOOTLOADER_BLOCK_SIZE)) = BLOCK_COUNT"
    using leaves(1) by (simp add: BLOCK_COUNT_def mota_const)
  show ?thesis
    using bootloader_bytes [OF assms hw leaves(3), of "bo_sign_seed opts" ?tid "boot_version i"]
    by (simp only: build_bootloader_def Inr bindr_simps Let_def root_mth board_target_id_Inr board_hw_id_Inr bc ensure_simps
        out pl pp board_hw_id_str_ok bootloader_built_def bootloader_record_sel refl simp_thms)
qed

lemma bootloader_built_verifies:
  assumes "crypto_ok c" and "build_bootloader c opts = Inr b"
  shows "verify c (bt_bytes b) = Inr [] \<and> manifest_parse c (bt_bytes b) = Inr (bt_manifest b) \<and>
    length (bt_bytes b) = PACKAGE_SIZE \<and>
    slice (payload_off (bt_manifest b)) (payload_off (bt_manifest b) + IMAGE_SIZE) (bt_bytes b) = bo_image opts"
proof -
  obtain i where v: "validate_bootloader_image_for_profile c (bo_image opts) (bo_board opts) (bo_storage_profile opts) = Inr i"
    and b: "b = bootloader_built c opts i"
    using assms(2) unfolding build_bootloader_eq [OF assms(1)] by auto
  let ?m = "bootloader_record c (bo_sign_seed opts) (bo_image opts) (hw_bytes (bo_board opts))
               (target_of c (bo_board opts)) (boot_version i)"
  have int: "intact c ?m (bo_image opts)"
    using v unfolding profile_Inr by (intro bootloader_record_intact [OF assms(1)]) blast
  then have w: "manifest_wf c ?m (bo_image opts)" and lp: "length (bo_image opts) = unat (m_payload_size ?m)"
    by (simp_all add: intact_def)
  have f: "field_lengths ?m" using w by (simp add: manifest_wf_def)
  note ll = leaves_of_wf [OF w lp crypto_ok_sha [OF assms(1)]]
  have tot: "total_size ?m = PACKAGE_SIZE"
    by (simp add: total_size_sum PACKAGE_SIZE_def BLOCK_COUNT_def mota_const)
  have ps: "unat (m_payload_size ?m) = IMAGE_SIZE" by (simp add: mota_const)
  have bytes: "bt_bytes b = intact_container c ?m (bo_image opts)" "bt_manifest b = ?m"
    by (simp_all add: b bootloader_built_def Let_def)
  show ?thesis
    unfolding bytes verify_nil [OF crypto_ok_sha [OF assms(1)]]
    using int parse_container [OF w ll lp] length_container [OF f ll lp] container_slices(5) [OF f ll lp]
    unfolding intact_container_def tot ps by blast
qed

section \<open>An image for every board\<close>

definition name_field :: "bootloader_board \<Rightarrow> bytes" where
  "name_field b = ascii (board_device_name b) @ replicate (16 - length (board_device_name b)) 0"

definition boot_head :: "u8 \<Rightarrow> bytes" where
  "boot_head p = le_u32 0x20040000 @ le_u32 0x000F4101 @ CAPS_MAGIC @ le_u16 3 @ le_u16 5 @ [p, 0, 0, 0]"

definition boot_id :: "bootloader_board \<Rightarrow> bytes" where
  "boot_id b = MANIFEST_MAGIC @ le_u16 MANIFEST_VERSION @ le_u16 (of_nat MANIFEST_SIZE) @ le_u32 IMAGE_START @
    le_u32 (of_nat IMAGE_SIZE) @ le_u32 (board_board_id b) @ name_field b"

definition boot_cont :: "bootloader_board \<Rightarrow> u32 \<Rightarrow> bytes" where
  "boot_cont b v =
    (let k = board_compatibility b in
     CONTINUITY_MAGIC @ le_u16 CONTINUITY_VERSION @ le_u16 (of_nat CONTINUITY_SIZE) @ le_u32 v @
     le_u16 (softdevice_family k) @ le_u16 (softdevice_fwid k) @ le_u32 (compat_app_base k) @
     le_u16 (compat_layout_abi k) @ le_u16 0 @ le_u32 0)"

definition boot_image :: "bootloader_board \<Rightarrow> u8 \<Rightarrow> u32 \<Rightarrow> bytes \<Rightarrow> bytes" where
  "boot_image b p v crc = (boot_head p @ replicate 40860 0xFF) @ boot_id b @ crc @ boot_cont b v"

definition sample_image :: "bootloader_board \<Rightarrow> u8 \<Rightarrow> u32 \<Rightarrow> bytes" where
  "sample_image b p v = boot_image b p v (le_u32 (crc32_with_zeroed (boot_image b p v (replicate 4 0)) 40924 40928))"

lemma length_name_field [simp]: "length (name_field b) = 16"
proof -
  have "length (ascii (board_device_name b)) \<le> 15" using board_identity_ok [of b] by (simp only: name_ok_def)
  then show ?thesis by (simp add: name_field_def)
qed

lemma boot_lengths [simp]: "length (boot_head p) = 24" "length (boot_id b) = 40" "length (boot_cont b v) = 32"
  by (simp_all add: boot_head_def boot_id_def boot_cont_def Let_def CAPS_MAGIC_def MANIFEST_MAGIC_def CONTINUITY_MAGIC_def)

lemma length_boot_image: "length crc = 4 \<Longrightarrow> length (boot_image b p v crc) = IMAGE_SIZE"
  by (simp add: boot_image_def mota_const)

lemma slice_right: "length a = n \<Longrightarrow> slice (n + i) (n + j) (a @ t) = slice i j t"
  by (auto simp: slice_def)

lemma u16_at_right: "length a = n \<Longrightarrow> u16_at (a @ t) (n + i) = u16_at t i"
  using slice_right [of a n i "i + 2"] by (simp add: u16_at_def add.assoc)

lemma u32_at_right: "length a = n \<Longrightarrow> u32_at (a @ t) (n + i) = u32_at t i"
  using slice_right [of a n i "i + 4"] by (simp add: u32_at_def add.assoc)

lemma at_le16: "length a = n \<Longrightarrow> u16_at (a @ le_u16 x @ t) n = x"
  using slice_right [of a n 0 2 "le_u16 x @ t"] u16f.dec_enc [of x] by (simp add: u16_at_def slice_def)

lemma at_le32: "length a = n \<Longrightarrow> u32_at (a @ le_u32 x @ t) n = x"
  using slice_right [of a n 0 4 "le_u32 x @ t"] u32f.dec_enc [of x] by (simp add: u32_at_def slice_def)

lemma crc_of_sample:
  "crc32_with_zeroed (sample_image b p v) 40924 40928 = crc32_with_zeroed (boot_image b p v (replicate 4 0)) 40924 40928"
proof -
  have "zeroed 40924 40928 (boot_image b p v x) =
      (boot_head p @ replicate 40860 0xFF @ boot_id b) @ replicate 4 0 @ boot_cont b v" if "length x = 4" for x
    using zeroed_append_id [of "boot_head p @ replicate 40860 0xFF @ boot_id b" 40924 x 40928 "boot_cont b v"] that
    by (simp add: boot_image_def)
  then show ?thesis by (simp add: sample_image_def crc32_zeroed)
qed

text \<open>The image as a list of four-byte words; both markers are two words at a multiple of four.\<close>

definition head_words :: "u8 \<Rightarrow> bytes list" where
  "head_words p = [le_u32 0x20040000, le_u32 0x000F4101, ascii ''MOTA'', ascii ''BLDR'', le_u16 3 @ le_u16 5, [p, 0, 0, 0]]"

definition name_word :: "bootloader_board \<Rightarrow> nat \<Rightarrow> bytes" where
  "name_word b k = take 4 (drop (4 * k) (name_field b))"

definition tail_words :: "bootloader_board \<Rightarrow> u32 \<Rightarrow> bytes \<Rightarrow> bytes list" where
  "tail_words b v crc =
    (let k = board_compatibility b in
     [ascii ''BLMF'', ascii ''CRC1'', le_u16 MANIFEST_VERSION @ le_u16 (of_nat MANIFEST_SIZE), le_u32 IMAGE_START,
      le_u32 (of_nat IMAGE_SIZE), le_u32 (board_board_id b), name_word b 0, name_word b 1, name_word b 2, name_word b 3,
      crc, ascii ''BLM2'', ascii ''SOFT'', le_u16 CONTINUITY_VERSION @ le_u16 (of_nat CONTINUITY_SIZE), le_u32 v,
      le_u16 (softdevice_family k) @ le_u16 (softdevice_fwid k), le_u32 (compat_app_base k),
      le_u16 (compat_layout_abi k) @ le_u16 0, le_u32 0])"

definition image_words :: "bootloader_board \<Rightarrow> u8 \<Rightarrow> u32 \<Rightarrow> bytes \<Rightarrow> bytes list" where
  "image_words b p v crc = head_words p @ replicate 10215 (replicate 4 0xFF) @ tail_words b v crc"

lemma concat_const: "concat (replicate n (replicate k x)) = replicate (n * k) x"
  by (induction n) (simp_all add: replicate_add)

lemma name_words: "name_word b 0 @ name_word b 1 @ name_word b 2 @ name_word b 3 = name_field b"
proof -
  have "take 4 xs @ take 4 (drop 4 xs) @ take 4 (drop 8 xs) @ take 4 (drop 12 xs) = take 16 xs" for xs :: bytes
  proof -
    have "take 16 xs = take 4 xs @ take 12 (drop 4 xs)" using take_add [of 4 12 xs] by simp
    moreover have "take 12 (drop 4 xs) = take 4 (drop 4 xs) @ take 8 (drop 8 xs)" using take_add [of 4 8 "drop 4 xs"] by simp
    moreover have "take 8 (drop 8 xs) = take 4 (drop 8 xs) @ take 4 (drop 12 xs)" using take_add [of 4 4 "drop 8 xs"] by simp
    ultimately show ?thesis by simp
  qed
  from this [of "name_field b"] show ?thesis by (simp add: name_word_def)
qed

lemma ascii_append: "ascii (s @ t) = ascii s @ ascii t"
  by (simp add: ascii_def)

lemma boot_image_words: "boot_image b p v crc = concat (image_words b p v crc)"
proof -
  have m: "MANIFEST_MAGIC = ascii ''BLMF'' @ ascii ''CRC1''" "CAPS_MAGIC = ascii ''MOTA'' @ ascii ''BLDR''"
    "CONTINUITY_MAGIC = ascii ''BLM2'' @ ascii ''SOFT''"
    by (simp_all add: MANIFEST_MAGIC_def CAPS_MAGIC_def CONTINUITY_MAGIC_def ascii_append [symmetric])
  have "concat (tail_words b v crc) = boot_id b @ crc @ boot_cont b v"
    unfolding boot_id_def name_words [symmetric] by (simp add: tail_words_def boot_cont_def Let_def m)
  moreover have "concat (head_words p) = boot_head p" by (simp add: head_words_def boot_head_def m)
  ultimately show ?thesis by (simp add: boot_image_def image_words_def concat_const)
qed

lemma slice_words:
  "\<forall>w \<in> set ws. length w = 4 \<Longrightarrow> j < length ws \<Longrightarrow> slice (4 * j) (4 * j + 4) (concat ws) = ws ! j"
proof (induction ws arbitrary: j)
  case (Cons w ws)
  then show ?case
    using slice_right [of w 4 "4 * (j - 1)" "4 * (j - 1) + 4" "concat ws"]
    by (cases j) (auto simp: slice_def)
qed simp

lemma length_words: "length crc = 4 \<Longrightarrow> w \<in> set (image_words b p v crc) \<Longrightarrow> length w = 4"
  by (auto simp: image_words_def head_words_def tail_words_def Let_def name_word_def)

lemma length_image_words: "length (image_words b p v crc) = 10240"
  by (simp add: image_words_def head_words_def tail_words_def Let_def)

lemma slice8_words:
  assumes "length crc = 4" and "j < 10239"
  shows "slice (4 * j) (4 * j + 8) (boot_image b p v crc) = image_words b p v crc ! j @ image_words b p v crc ! Suc j"
proof -
  have "slice (4 * j) (4 * j + 8) xs = slice (4 * j) (4 * j + 4) xs @ slice (4 * Suc j) (4 * Suc j + 4) xs" for xs :: bytes
    using slice_join [of "4 * j" "4 * j + 4" "4 * j + 8" xs] by (simp add: add.commute)
  then show ?thesis
    using slice_words [of "image_words b p v crc" j] slice_words [of "image_words b p v crc" "Suc j"] length_words [OF assms(1)]
      assms(2) by (simp add: boot_image_words length_image_words)
qed

text \<open>The words of the identities are never marker words.\<close>

lemma name_word_plain:
  "k \<in> {0, 1, 2, 3} \<Longrightarrow> name_word b k \<notin> {ascii ''BLMF'', ascii ''MOTA''}"
proof -
  have "list_all (\<lambda>k. name_word b k \<noteq> ascii ''BLMF'' \<and> name_word b k \<noteq> ascii ''MOTA'') [0, 1, 2, 3]"
    by (induction b; code_simp)
  then show "k \<in> {0, 1, 2, 3} \<Longrightarrow> ?thesis" by auto
qed

lemma le_nat_le_u32: "le_nat (le_u32 x) = unat x"
  using unat_u32_bound [of x] by (simp add: le_u32_def)

lemma le_nat_le_u16: "le_nat (le_u16 x) = unat x"
  using unat_u16_bound [of x] by (simp add: le_u16_def)

definition marker_words :: "bytes set" where
  "marker_words = {ascii ''BLMF'', ascii ''MOTA'', ascii ''BLDR''}"

lemma plain_word: "unat v \<notin> {0x464D4C42, 0x41544F4D, 0x52444C42} \<Longrightarrow> le_u32 v \<notin> marker_words"
proof -
  have n: "le_nat (ascii ''BLMF'') = 0x464D4C42" "le_nat (ascii ''MOTA'') = 0x41544F4D" "le_nat (ascii ''BLDR'') = 0x52444C42"
    by (simp_all add: ascii_def)
  show "unat v \<notin> {0x464D4C42, 0x41544F4D, 0x52444C42} \<Longrightarrow> ?thesis"
    using n le_nat_le_u32 [of v] by (auto simp: marker_words_def)
qed

lemma plain_half: "unat v \<notin> {0x4C42, 0x4F4D} \<Longrightarrow> le_u16 v @ x \<notin> marker_words"
proof
  assume v: "unat v \<notin> {0x4C42, 0x4F4D}" and "le_u16 v @ x \<in> marker_words"
  then have "take 2 (le_u16 v @ x) \<in> take 2 ` marker_words" by blast
  then have "le_u16 v \<in> {[66, 76], [77, 79]}" by (auto simp: marker_words_def ascii_def)
  then have "le_nat (le_u16 v) \<in> {0x4C42, 0x4F4D}" by auto
  with v show False by (simp add: le_nat_le_u16)
qed

lemma board_word_plain: "le_u32 (board_board_id b) \<notin> marker_words"
  by (rule plain_word) (cases b; simp add: mota_const)

lemma compat_word_plain: "le_u16 (softdevice_family (board_compatibility b)) @ x \<notin> marker_words"
  by (rule plain_half) (simp add: board_compatibility_def mota_const)

lemma fixed_words_plain:
  "le_u32 0x20040000 \<notin> marker_words" "le_u32 0x000F4101 \<notin> marker_words" "le_u16 3 @ x \<notin> marker_words"
  "le_u32 IMAGE_START \<notin> marker_words" "le_u32 (of_nat IMAGE_SIZE) \<notin> marker_words"
  "le_u16 MANIFEST_VERSION @ x \<notin> marker_words" "le_u16 CONTINUITY_VERSION @ x \<notin> marker_words"
  by (auto intro!: plain_word plain_half simp: mota_const)

lemma image_word_cases:
  assumes "j < 10240"
  obtains "j < 6" "image_words b p v crc ! j = head_words p ! j"
    | "6 \<le> j" "j < 10221" "image_words b p v crc ! j = replicate 4 0xFF"
    | k where "k < 19" "j = 10221 + k" "image_words b p v crc ! j = tail_words b v crc ! k"
proof -
  have h: "length (head_words p) = 6" "length (tail_words b v crc) = 19"
    by (simp_all add: head_words_def tail_words_def Let_def)
  consider "j < 6" | "6 \<le> j" "j < 10221" | "10221 \<le> j" by linarith
  then show thesis
  proof cases
    case 1
    then show ?thesis using that(1) h by (simp add: image_words_def nth_append)
  next
    case 2
    then have "j - 6 < 10215" by linarith
    then show ?thesis using that(2) h 2 by (simp add: image_words_def nth_append nth_replicate)
  next
    case 3
    then have "\<not> j - 6 < 10215" by linarith
    then show ?thesis using that(3) [of "j - 10221"] h assms 3 by (simp add: image_words_def nth_append)
  qed
qed

lemma markerD: "w \<notin> marker_words \<Longrightarrow> w \<noteq> ascii ''BLMF'' \<and> w \<noteq> ascii ''MOTA'' \<and> w \<noteq> ascii ''BLDR''"
  by (auto simp: marker_words_def)

lemmas word_plain = fixed_words_plain [THEN markerD] board_word_plain [THEN markerD] compat_word_plain [THEN markerD]

lemma ascii_distinct:
  "ascii ''MOTA'' \<noteq> ascii ''BLMF''" "ascii ''BLDR'' \<noteq> ascii ''BLMF''" "ascii ''CRC1'' \<noteq> ascii ''BLMF''"
  "ascii ''BLDR'' \<noteq> ascii ''MOTA''" "ascii ''BLMF'' \<noteq> ascii ''MOTA''" "ascii ''CRC1'' \<noteq> ascii ''MOTA''"
  "ascii ''BLM2'' \<noteq> ascii ''MOTA''" "ascii ''SOFT'' \<noteq> ascii ''MOTA''" "ascii ''BLM2'' \<noteq> ascii ''BLDR''"
  by simp_all

lemma head_word_cases:
  assumes "j < 6"
  shows "head_words p ! j \<noteq> ascii ''BLMF'' \<and> (head_words p ! j = ascii ''MOTA'' \<longrightarrow> j = 2)"
proof -
  have "[p, 0, 0, 0] \<noteq> ascii ''BLMF'' \<and> [p, 0, 0, 0] \<noteq> ascii ''MOTA''" by (simp add: ascii_def)
  moreover have "j \<in> set [0..<6]" using assms by simp
  ultimately show ?thesis
    by (auto simp: upt_rec head_words_def word_plain ascii_distinct)
qed

lemma filler_plain: "replicate 4 (0xFF :: u8) \<notin> marker_words"
proof -
  have "\<forall>w \<in> marker_words. hd w \<noteq> 0xFF" by (simp add: marker_words_def ascii_def)
  moreover have "hd (replicate 4 (0xFF :: u8)) = 0xFF" by (simp add: hd_replicate)
  ultimately show ?thesis by blast
qed

lemma name_words_plain:
  "name_word b 0 \<noteq> ascii ''BLMF''" "name_word b 1 \<noteq> ascii ''BLMF''" "name_word b 2 \<noteq> ascii ''BLMF''" "name_word b 3 \<noteq> ascii ''BLMF''"
  "name_word b 0 \<noteq> ascii ''MOTA''" "name_word b 1 \<noteq> ascii ''MOTA''" "name_word b 2 \<noteq> ascii ''MOTA''" "name_word b 3 \<noteq> ascii ''MOTA''"
  using name_word_plain [of 0 b] name_word_plain [of 1 b] name_word_plain [of 2 b] name_word_plain [of 3 b] by simp_all

lemma tail_word_cases:
  "k < 9 \<Longrightarrow> tail_words b v crc ! k = ascii ''BLMF'' \<Longrightarrow> k = 0"
  "k < 16 \<Longrightarrow> tail_words b v crc ! k = ascii ''MOTA'' \<Longrightarrow> k \<in> {10, 14}"
proof -
  have u: "[0..<9] = [0, 1, 2, 3, 4, 5, 6, 7, 8]"
    "[0..<16] = [0, 1, 2, 3, 4, 5, 6, 7, 8, 9, 10, 11, 12, 13, 14, 15]" by (simp_all add: upt_rec)
  have "\<forall>k \<in> set [0, 1, 2, 3, 4, 5, 6, 7, 8]. tail_words b v crc ! k = ascii ''BLMF'' \<longrightarrow> k = 0"
    by (simp add: tail_words_def Let_def word_plain ascii_distinct name_words_plain del: One_nat_def)
  from this [folded u] show "k < 9 \<Longrightarrow> tail_words b v crc ! k = ascii ''BLMF'' \<Longrightarrow> k = 0" by simp
  have "\<forall>k \<in> set [0, 1, 2, 3, 4, 5, 6, 7, 8, 9, 10, 11, 12, 13, 14, 15].
      tail_words b v crc ! k = ascii ''MOTA'' \<longrightarrow> k \<in> {10, 14}"
    by (simp add: tail_words_def Let_def word_plain ascii_distinct name_words_plain del: One_nat_def)
  from this [folded u] show "k < 16 \<Longrightarrow> tail_words b v crc ! k = ascii ''MOTA'' \<Longrightarrow> k \<in> {10, 14}" by simp
qed

lemma identity_word_unique:
  assumes "j < 10230" and "image_words b p v crc ! j = ascii ''BLMF''"
  shows "j = 10221"
proof -
  have "j < 10240" using assms(1) by simp
  then show ?thesis
  proof (cases rule: image_word_cases [of j b p v crc])
    case 1
    with assms(2) head_word_cases show ?thesis by simp
  next
    case 2
    with assms(2) filler_plain [THEN markerD] show ?thesis by simp
  next
    case (3 k)
    with assms tail_word_cases(1) [of k b v crc] show ?thesis by simp
  qed
qed

lemma marker_word_unique:
  assumes "j < 10237" and "image_words b p v crc ! j = ascii ''MOTA''" and "image_words b p v crc ! Suc j = ascii ''BLDR''"
  shows "j = 2"
proof -
  have "j < 10240" using assms(1) by simp
  then show ?thesis
  proof (cases rule: image_word_cases [of j b p v crc])
    case 1
    with assms(2) head_word_cases show ?thesis by auto
  next
    case 2
    with assms(2) filler_plain [THEN markerD] show ?thesis by simp
  next
    case (3 k)
    have "Suc j < 10240" using assms(1) by simp
    then have nx: "tail_words b v crc ! Suc k = ascii ''BLDR''"
      using 3 assms(3) by (cases rule: image_word_cases [of "Suc j" b p v crc]) auto
    have "k \<in> {10, 14}" using 3 assms tail_word_cases(2) [of k b v crc] by simp
    then have False using nx word_plain ascii_distinct by (auto simp: tail_words_def Let_def)
    then show ?thesis ..
  qed
qed

lemma steps4_elem: "off \<in> set (steps4 n) \<longleftrightarrow> (\<exists>j. off = 4 * j \<and> j \<le> n div 4)"
  by (auto simp: steps4_def less_Suc_eq_le)

lemma filter_single: "distinct xs \<Longrightarrow> x \<in> set xs \<Longrightarrow> \<forall>y \<in> set xs. P y \<longleftrightarrow> y = x \<Longrightarrow> filter P xs = [x]"
proof -
  assume d: "distinct xs" and x: "x \<in> set xs" and p: "\<forall>y \<in> set xs. P y \<longleftrightarrow> y = x"
  have "filter P xs = filter (\<lambda>y. y = x) xs" using p by (intro filter_cong) auto
  also have "\<dots> = [x]" using d x by (induction xs) (auto simp: filter_empty_conv)
  finally show ?thesis .
qed

lemma distinct_steps4: "distinct (steps4 n)"
  by (auto simp: steps4_def distinct_map intro: inj_onI)

text \<open>The fields of the tail, read at their offsets.\<close>

lemma tail_fields:
  fixes b :: bootloader_board and p :: u8 and v :: u32 and crc :: bytes
  assumes "length crc = 4"
  defines "img \<equiv> boot_image b p v crc"
  shows "slice 40884 40892 img = MANIFEST_MAGIC" and "u16_at img 40892 = MANIFEST_VERSION"
    and "u16_at img 40894 = of_nat MANIFEST_SIZE" and "u32_at img 40896 = IMAGE_START"
    and "u32_at img 40900 = of_nat IMAGE_SIZE" and "u32_at img 40904 = board_board_id b"
    and "slice 40908 40924 img = name_field b" and "u32_at img 40924 = u32_le crc"
    and "slice 40928 40936 img = CONTINUITY_MAGIC" and "u16_at img 40936 = CONTINUITY_VERSION"
    and "u16_at img 40938 = of_nat CONTINUITY_SIZE" and "u32_at img 40940 = v"
    and "u16_at img 40944 = softdevice_family (board_compatibility b)"
    and "u16_at img 40946 = softdevice_fwid (board_compatibility b)"
    and "u32_at img 40948 = compat_app_base (board_compatibility b)"
    and "u16_at img 40952 = compat_layout_abi (board_compatibility b)"
    and "u16_at img 40954 = 0" and "u32_at img 40956 = 0"
proof -
  define a where "a = boot_head p @ replicate 40860 0xFF"
  define k where "k = board_compatibility b"
  have l: "length a = 40884" by (simp add: a_def)
  have m: "length MANIFEST_MAGIC = 8" "length CONTINUITY_MAGIC = 8"
    by (simp_all add: MANIFEST_MAGIC_def CONTINUITY_MAGIC_def)
  have img: "img = a @ MANIFEST_MAGIC @ le_u16 MANIFEST_VERSION @ le_u16 (of_nat MANIFEST_SIZE) @ le_u32 IMAGE_START @
      le_u32 (of_nat IMAGE_SIZE) @ le_u32 (board_board_id b) @ name_field b @ crc @ CONTINUITY_MAGIC @
      le_u16 CONTINUITY_VERSION @ le_u16 (of_nat CONTINUITY_SIZE) @ le_u32 v @
      le_u16 (softdevice_family k) @ le_u16 (softdevice_fwid k) @ le_u32 (compat_app_base k) @
      le_u16 (compat_layout_abi k) @ le_u16 0 @ le_u32 0"
    by (simp add: img_def boot_image_def a_def boot_id_def boot_cont_def Let_def k_def)
  note s = slice_right [where i = 0, simplified]
  note len = l m assms(1)
  show "slice 40884 40892 img = MANIFEST_MAGIC"
    using s [of a 40884 8] m by (simp add: img l slice_def)
  show "slice 40908 40924 img = name_field b" "slice 40928 40936 img = CONTINUITY_MAGIC"
    "u32_at img 40924 = u32_le crc"
    using len by (simp_all add: img slice_def u32_at_def)
  show "u16_at img 40892 = MANIFEST_VERSION" "u16_at img 40894 = of_nat MANIFEST_SIZE"
    "u16_at img 40936 = CONTINUITY_VERSION" "u16_at img 40938 = of_nat CONTINUITY_SIZE"
    "u16_at img 40944 = softdevice_family (board_compatibility b)"
    "u16_at img 40946 = softdevice_fwid (board_compatibility b)"
    "u16_at img 40952 = compat_layout_abi (board_compatibility b)" "u16_at img 40954 = 0"
    using len by (simp_all add: img slice_def u16_at_def k_def)
  show "u32_at img 40896 = IMAGE_START" "u32_at img 40900 = of_nat IMAGE_SIZE"
    "u32_at img 40904 = board_board_id b" "u32_at img 40940 = v"
    "u32_at img 40948 = compat_app_base (board_compatibility b)" "u32_at img 40956 = 0"
    using len by (simp_all add: img slice_def u32_at_def k_def)
qed

lemma head_fields:
  fixes b :: bootloader_board and p :: u8 and v :: u32 and crc :: bytes
  defines "img \<equiv> boot_image b p v crc"
  shows "u32_at img 0 = 0x20040000" and "u32_at img 4 = 0x000F4101" and "slice 8 16 img = CAPS_MAGIC"
    and "u16_at img 16 = 3" and "u16_at img 18 = 5" and "img ! 20 = p" and "slice 21 24 img = [0, 0, 0]"
proof -
  have m: "length CAPS_MAGIC = 8" by (simp add: CAPS_MAGIC_def)
  obtain t where img: "img = le_u32 0x20040000 @ le_u32 0x000F4101 @ CAPS_MAGIC @ le_u16 3 @ le_u16 5 @ [p, 0, 0, 0] @ t"
    by (simp add: img_def boot_image_def boot_head_def)
  show "u32_at img 0 = 0x20040000" "u32_at img 4 = 0x000F4101"
    by (simp_all add: img slice_def u32_at_def)
  show "slice 8 16 img = CAPS_MAGIC" "u16_at img 16 = 3" "u16_at img 18 = 5"
    using m by (simp_all add: img slice_def u16_at_def)
  have d: "drop 20 img = [p, 0, 0, 0] @ t" using m by (simp add: img)
  have "20 \<le> length img" using m by (simp add: img)
  then show "img ! 20 = p" using nth_drop [of 20 img 0] d by simp
  have "slice 21 24 img = slice 1 4 (drop 20 img)" by (simp add: slice_def)
  then show "slice 21 24 img = [0, 0, 0]" by (simp add: d slice_def)
qed

lemma accepted_profiles:
  assumes "board_accepts_storage_profile b p"
  shows "p \<in> {STORAGE_SD_UPDATE, STORAGE_QSPI_UPDATE, STORAGE_INTERNAL_UPDATE, STORAGE_RAK_AUTO_RECOVERY}"
    and "p \<in> set (qualified_storage (board_board_id b) (ascii (board_device_name b)))"
proof -
  show "p \<in> {STORAGE_SD_UPDATE, STORAGE_QSPI_UPDATE, STORAGE_INTERNAL_UPDATE, STORAGE_RAK_AUTO_RECOVERY}"
    using assms by (cases b) (auto simp: board_accepts_storage_profile_def)
  show "p \<in> set (qualified_storage (board_board_id b) (ascii (board_device_name b)))"
  proof (cases "b = HeltecMeshTowerV2")
    case True
    then show ?thesis using assms
      by (auto simp: board_accepts_storage_profile_def qualified_storage_def RAK_AUTO_RECOVERY_IDENTITIES_def mota_const)
  next
    case False
    then show ?thesis using assms board_storage_qualified [of b] by (simp add: board_accepts_storage_profile_def)
  qed
qed

lemma capability_record_magic: "capability_record img off \<noteq> None \<Longrightarrow> slice off (off + 8) img = CAPS_MAGIC"
  by (rule ccontr) (simp add: capability_record_def)

lemma identity_record_magic: "identity_record img off \<noteq> None \<Longrightarrow> slice off (off + 8) img = MANIFEST_MAGIC"
  by (rule ccontr) (simp add: identity_record_def)

lemma sample_capability:
  assumes "board_accepts_storage_profile b p" and "length crc = 4"
  shows "capability_storage (boot_image b p v crc) = Inr (Some p)"
proof -
  let ?img = "boot_image b p v crc"
  have l: "length ?img = 40960" using length_boot_image [OF assms(2)] by (simp add: mota_const)
  have "capability_record ?img 8 = Some p"
    using accepted_profiles(1) [OF assms(1)] by (auto simp: capability_record_def head_fields Let_def mota_const)
  have only: "j = 2" if j: "capability_record ?img (4 * j) \<noteq> None" "j \<le> 10236" for j
  proof -
    have "slice (4 * j) (4 * j + 8) ?img = CAPS_MAGIC" using j(1) by (rule capability_record_magic)
    then have e: "image_words b p v crc ! j @ image_words b p v crc ! Suc j = ascii ''MOTA'' @ ascii ''BLDR''"
      using slice8_words [OF assms(2), of j b p v] j(2) by (simp add: CAPS_MAGIC_def ascii_append [symmetric])
    have "length (image_words b p v crc ! j) = 4"
      using j(2) by (intro length_words [OF assms(2), of _ b p v] nth_mem) (simp add: length_image_words)
    with e have "image_words b p v crc ! j = ascii ''MOTA''" "image_words b p v crc ! Suc j = ascii ''BLDR''" by simp_all
    then show ?thesis using j(2) by (intro marker_word_unique) simp_all
  qed
  have "filter (\<lambda>off. capability_record ?img off \<noteq> None) (steps4 40944) = [8]"
  proof (rule filter_single [OF distinct_steps4])
    show "8 \<in> set (steps4 40944)" by (auto simp: steps4_elem intro: exI [of _ 2])
    show "\<forall>y \<in> set (steps4 40944). capability_record ?img y \<noteq> None \<longleftrightarrow> y = 8"
      using only \<open>capability_record ?img 8 = Some p\<close> by (auto simp: steps4_elem)
  qed
  then show ?thesis
    using \<open>capability_record ?img 8 = Some p\<close> accepted_profiles(1) [OF assms(1)] l
    by (auto simp: capability_storage_Some capability_offsets_def known_profile_def)
qed

lemma sample_identity:
  "identity_record (sample_image b p v) 40884 = Some (board_board_id b, ascii (board_device_name b))"
  "identity_offsets (sample_image b p v) = [40884]"
proof -
  define crc where "crc = le_u32 (crc32_with_zeroed (boot_image b p v (replicate 4 0)) 40924 40928)"
  have lc: "length crc = 4" by (simp add: crc_def)
  have img: "sample_image b p v = boot_image b p v crc" by (simp add: sample_image_def crc_def)
  note t = tail_fields [OF lc, of b p v, folded img]
  have k: "crc32_with_zeroed (sample_image b p v) 40924 40928 = u32_le crc"
    by (simp add: crc_of_sample) (simp add: crc_def)
  have n: "valid_device_name (board_board_id b) (name_field b) = Some (ascii (board_device_name b))"
  proof -
    have "name_ok (ascii (board_device_name b))" using board_identity_ok [of b] by simp
    then have "length (ascii (board_device_name b)) \<le> 15" by (simp only: name_ok_def)
    from valid_device_name_padded [OF this, of "board_board_id b"] show ?thesis
      using board_identity_ok [of b] by (simp add: name_field_def)
  qed
  show one: "identity_record (sample_image b p v) 40884 = Some (board_board_id b, ascii (board_device_name b))"
    using t k n by (simp add: identity_record_def Let_def mota_const)
  have l: "length (sample_image b p v) = 40960" using length_boot_image [OF lc] by (simp add: img mota_const)
  have only: "j = 10221" if j: "identity_record (sample_image b p v) (4 * j) \<noteq> None" "j \<le> 10229" for j
  proof -
    have "slice (4 * j) (4 * j + 8) (boot_image b p v crc) = MANIFEST_MAGIC"
      using identity_record_magic [OF j(1)] by (simp add: img)
    then have e: "image_words b p v crc ! j @ image_words b p v crc ! Suc j = ascii ''BLMF'' @ ascii ''CRC1''"
      using slice8_words [OF lc, of j b p v] j(2) by (simp add: MANIFEST_MAGIC_def ascii_append [symmetric])
    have "length (image_words b p v crc ! j) = 4"
      using j(2) by (intro length_words [OF lc, of _ b p v] nth_mem) (simp add: length_image_words)
    with e have "image_words b p v crc ! j = ascii ''BLMF''" by simp
    then show ?thesis using j(2) by (intro identity_word_unique) simp_all
  qed
  have "filter (\<lambda>off. identity_record (sample_image b p v) off \<noteq> None) (steps4 40916) = [40884]"
  proof (rule filter_single [OF distinct_steps4])
    show "40884 \<in> set (steps4 40916)" by (auto simp: steps4_elem intro: exI [of _ 10221])
    show "\<forall>y \<in> set (steps4 40916). identity_record (sample_image b p v) y \<noteq> None \<longleftrightarrow> y = 40884"
      using only one by (auto simp: steps4_elem)
  qed
  then show "identity_offsets (sample_image b p v) = [40884]"
    using l by (simp add: identity_offsets_def mota_const)
qed

lemma sample_contract:
  assumes "board_accepts_storage_profile b p" and "version_valid v"
  shows "image_contract c (sample_image b p v) (target_of c b) (hw_bytes b) v (board_board_id b) (ascii (board_device_name b)) p"
proof -
  define crc where "crc = le_u32 (crc32_with_zeroed (boot_image b p v (replicate 4 0)) 40924 40928)"
  have lc: "length crc = 4" by (simp add: crc_def)
  have img: "sample_image b p v = boot_image b p v crc" by (simp add: sample_image_def crc_def)
  note t = tail_fields [OF lc, of b p v, folded img] and h = head_fields [of b p v crc, folded img]
  have q: "board_compatibility b = k \<Longrightarrow> softdevice_family k \<noteq> 0 \<and> softdevice_fwid k \<noteq> 0 \<and> compat_app_base k \<noteq> 0 \<and>
      compat_layout_abi k \<noteq> 0" for k
    by (auto simp: board_compatibility_def mota_const split: if_splits)
  have vec: "vector_ok (sample_image b p v)" by (simp add: vector_ok_def h Let_def mota_const)
  have cont: "continuity_ok (sample_image b p v) 40884"
    using t q [OF refl] assms(2) length_boot_image [OF lc, of b p v, folded img]
    by (simp add: continuity_ok_def mota_const)
  show ?thesis
    unfolding image_contract_def
    using sample_identity [of b p v] sample_capability [OF assms(1) lc, of v, folded img] accepted_profiles(2) [OF assms(1)]
      vec cont t length_boot_image [OF lc, of b p v, folded img]
    by (simp add: board_hw_id_ok board_target_id_ok board_platform_qualified mota_const)
qed

lemma sample_validates:
  assumes "board_accepts_storage_profile b p" and "version_valid v" and "validate_bootloader_inventory c = Inr ()"
  shows "\<exists>i. validate_bootloader_image_for_profile c (sample_image b p v) b p = Inr i \<and> boot_version i = v"
proof -
  let ?img = "sample_image b p v"
  let ?i = "(identity_at ?img CANDIDATE_MANIFEST_OFFSET (board_board_id b) (ascii (board_device_name b)))\<lparr>storage_flags := p\<rparr>"
  note k = sample_contract [OF assms(1,2), of c]
  have v: "boot_version ?i = v" using contract_parse(4) [OF k] by (simp add: identity_at_def)
  have "validate_bootloader_image c ?img (target_of c b) (hw_bytes b) v = Inr ?i"
    unfolding validate_bootloader_image_Inr using k by blast
  then have "validate_bootloader_image_for_profile c ?img b p = Inr ?i"
    unfolding profile_Inr using assms(1,3) v by (simp add: identity_at_def)
  with v show ?thesis by blast
qed

end
