(* ===== verification/Mota_Commands.thy ===== *)
theory Mota_Commands
  imports Mota_Cli Mota_Package
begin

text \<open>
  The commands of \<open>src/main.rs\<close> on a file system, with the key files of \<open>src/crypto.rs\<close>. A command returns
  its result and the host after it, so that commands compose: a key pair that \<open>keygen\<close> wrote signs a
  package that \<open>build\<close> writes and \<open>verify\<close> accepts. Printed text is given by its parts (\<open>build_report\<close>,
  \<open>verify_line\<close>, \<open>inspect_report\<close>, \<open>serve_report\<close>); the exit code of \<open>verify\<close> is part of its result.
  The lemmas: what each command does to the files, when it succeeds, and that the packages it writes verify.
\<close>

section \<open>Files and keys\<close>

text \<open>
  The host of the commands. The files are the map \<open>read_file\<close>. A write to a writable path replaces one
  entry; a failed one leaves there what \<open>torn\<close> gives for the path, the old and the new contents. Creating
  the missing directories of a path, successful or not, gives a new set of writable paths.
\<close>

record cli_host =
  inputs :: input_host
  writable :: "bytes \<Rightarrow> bool"
  torn :: "bytes \<Rightarrow> bytes option \<Rightarrow> bytes \<Rightarrow> bytes option"
  make_dirs :: "bytes \<Rightarrow> (bytes \<Rightarrow> bool) \<Rightarrow> bytes \<Rightarrow> bool"
  hex_decode :: "bytes \<Rightarrow> bytes option"

definition file_at :: "cli_host \<Rightarrow> bytes \<Rightarrow> bytes option" where
  "file_at h p = read_file (inputs h) p"

definition put_file :: "cli_host \<Rightarrow> bytes \<Rightarrow> bytes option \<Rightarrow> cli_host" where
  "put_file h p content = h\<lparr>inputs := (inputs h)\<lparr>read_file := (read_file (inputs h))(p := content)\<rparr>\<rparr>"

definition fs_write :: "cli_host \<Rightarrow> bytes \<Rightarrow> bytes \<Rightarrow> unit result \<times> cli_host" where
  "fs_write h p content =
    (if writable h p then (Inr (), put_file h p (Some content))
     else (Inl (Bail ''cannot write''), put_file h p (torn h p (file_at h p) content)))"

definition create_dir_all :: "cli_host \<Rightarrow> bytes \<Rightarrow> cli_host" where
  "create_dir_all h dir = h\<lparr>writable := make_dirs h dir (writable h)\<rparr>"

definition load_key32 :: "cli_host \<Rightarrow> bytes \<Rightarrow> bytes result" where
  "load_key32 h path =
    bindr (of_opt ''cannot read key file'' (file_at h path)) (\<lambda>raw.
    case (if utf8_ok raw then
            (case hex_decode h (trim raw) of None \<Rightarrow> None | Some bs \<Rightarrow> if length bs = 32 then Some bs else None)
          else None) of
      Some key \<Rightarrow> Inr key
    | None \<Rightarrow> ensure (length raw = 32) ''key must be 64 hex chars or 32 raw bytes'' (Inr raw))"

text \<open>\<open>seed\<close> is what the random generator delivers.\<close>

definition ed25519_keygen :: "crypto \<Rightarrow> bytes \<Rightarrow> bytes \<times> bytes" where
  "ed25519_keygen c seed = (seed, ed25519_public_from_seed c seed)"

text \<open>\<open>Option::map(..).transpose()\<close>.\<close>

fun transpose_opt :: "('a \<Rightarrow> 'b result) \<Rightarrow> 'a option \<Rightarrow> 'b option result" where
  "transpose_opt f None = Inr None"
| "transpose_opt f (Some x) = bindr (f x) (\<lambda>y. Inr (Some y))"

text \<open>\<open>Path::join\<close> on Unix: an absolute second path replaces the first.\<close>

definition path_join :: "bytes \<Rightarrow> bytes \<Rightarrow> bytes" where
  "path_join dir name =
    (if take 1 name = [47] then name
     else if dir = [] \<or> last dir = 47 then dir @ name else dir @ [47] @ name)"

text \<open>
  \<open>Path::parent\<close> on Unix: the path without its last component, where separators and \<open>.\<close> components at the
  end do not count; the root and the empty path have none. Computed on the reversed path.
\<close>

fun strip_rev :: "bytes \<Rightarrow> bytes" where
  "strip_rev [] = []"
| "strip_rev (c # cs) =
    (if (c = 47 \<and> cs \<noteq> []) \<or> (c = 46 \<and> take 1 cs = [47]) then strip_rev cs else c # cs)"

definition path_parent :: "bytes \<Rightarrow> bytes option" where
  "path_parent p =
    (let t = strip_rev (rev p) in
     if t = [] \<or> t = [47] then None else Some (rev (strip_rev (dropWhile (\<lambda>b. b \<noteq> 47) t))))"

section \<open>keygen\<close>

definition cmd_keygen :: "crypto \<Rightarrow> bytes \<Rightarrow> cli_host \<Rightarrow> bytes option \<Rightarrow> bytes result \<times> cli_host" where
  "cmd_keygen c rand h out =
    (let (seed, pub) = ed25519_keygen c rand; seed_hex = hex_upper c seed; pub_hex = hex_upper c pub in
     case out of
       None \<Rightarrow> (Inr pub_hex, h)
     | Some path \<Rightarrow>
         case fs_write h path (seed_hex @ [10]) of
           (Inl e, h1) \<Rightarrow> (Inl e, h1)
         | (Inr _, h1) \<Rightarrow>
             case fs_write h1 (path @ ascii ''.pub'') (pub_hex @ [10]) of
               (Inl e, h2) \<Rightarrow> (Inl e, h2)
             | (Inr _, h2) \<Rightarrow> (Inr pub_hex, h2))"

section \<open>build\<close>

datatype cli_patch_type = CliSequential | CliInPlace

fun patch_type_of :: "cli_patch_type \<Rightarrow> patch_type" where
  "patch_type_of CliSequential = Sequential"
| "patch_type_of CliInPlace = InPlace"

record build_args =
  a_fw :: bytes
  a_base :: "bytes option"
  a_patch_type :: cli_patch_type
  a_inplace_memory :: "bytes option"
  a_segment_size :: u32
  a_target_env :: "bytes option"
  a_target_id :: "bytes option"
  a_fw_version :: "bytes option"
  a_hw_id :: "bytes option"
  a_sign :: "bytes option"
  a_block_size :: u32
  a_force :: bool
  a_out_dir :: bytes
  a_out :: "bytes option"

record build_report =
  r_out_path :: bytes
  r_kind :: string
  r_target :: u32
  r_version :: bytes
  r_hw :: bytes
  r_signed :: bool
  r_image_size :: u32
  r_payload_size :: u32
  r_blocks :: u32
  r_total :: nat
  r_inplace :: "(u32 \<times> u32) option"

definition hw_or :: "string \<Rightarrow> manifest \<Rightarrow> bytes" where
  "hw_or unknown m = (if hw_id_str m = [] then ascii unknown else hw_id_str m)"

definition build_opts_of :: "bool \<Rightarrow> crypto \<Rightarrow> cli_host \<Rightarrow> build_args \<Rightarrow> build_opts result" where
  "build_opts_of checks c h a =
    bindr (read_input checks (inputs h) (a_fw a)) (\<lambda>fw.
    bindr (transpose_opt (read_input checks (inputs h)) (a_base a)) (\<lambda>base.
    bindr (case (a_target_id a, a_target_env a) of
             (Some tid, _) \<Rightarrow> bindr (context_msg ''--target-id'' (parse_u32_auto tid)) (\<lambda>v. Inr (Some v))
           | (None, Some env) \<Rightarrow> Inr (Some (target_id_for_env c env))
           | (None, None) \<Rightarrow> Inr None) (\<lambda>tid.
    bindr (transpose_opt pack_version (a_fw_version a)) (\<lambda>version.
    bindr (transpose_opt (load_key32 h) (a_sign a)) (\<lambda>sign_seed.
    bindr (context_msg ''--inplace-memory'' (transpose_opt parse_u32_auto (a_inplace_memory a))) (\<lambda>memory.
    Inr \<lparr>o_fw = fw, o_base = base, o_patch_type = patch_type_of (a_patch_type a), o_inplace_memory = memory,
         o_segment_size = a_segment_size a, o_target_id = tid, o_fw_version = version, o_hw_id = a_hw_id a,
         o_sign_seed = sign_seed, o_block_size = a_block_size a, o_force = a_force a\<rparr>))))))"

definition out_path :: "bytes option \<Rightarrow> bytes \<Rightarrow> bytes \<Rightarrow> bytes" where
  "out_path out out_dir name = (case out of Some p \<Rightarrow> p | None \<Rightarrow> path_join out_dir name)"

definition prepare_out :: "cli_host \<Rightarrow> bytes option \<Rightarrow> bytes \<Rightarrow> cli_host" where
  "prepare_out h out out_dir =
    (case out of
       Some p \<Rightarrow>
         (case path_parent p of
            Some parent \<Rightarrow> if parent \<noteq> [] then create_dir_all h parent else h
          | None \<Rightarrow> h)
     | None \<Rightarrow> create_dir_all h out_dir)"

text \<open>The part of \<open>cmd_build\<close> before anything is written: the container that passed its own verification.\<close>

definition checked_build :: "crypto \<Rightarrow> string \<Rightarrow> built result \<Rightarrow> built result" where
  "checked_build c msg r =
    bindr r (\<lambda>b. bindr (verify c (bt_bytes b)) (\<lambda>problems. ensure (problems = []) msg (Inr b)))"

definition cmd_build :: "bool \<Rightarrow> crypto \<Rightarrow> cli_host \<Rightarrow> build_args \<Rightarrow> build_report result \<times> cli_host" where
  "cmd_build checks c h a =
    (case checked_build c ''internal error: built .mota fails verification''
            (bindr (build_opts_of checks c h a) (build c)) of
       Inl e \<Rightarrow> (Inl e, h)
     | Inr b \<Rightarrow>
         let p = out_path (a_out a) (a_out_dir a) (bt_suggested_name b) in
         case fs_write (prepare_out h (a_out a) (a_out_dir a)) p (bt_bytes b) of
           (Inl e, h1) \<Rightarrow> (Inl e, h1)
         | (Inr _, h1) \<Rightarrow>
             let m = bt_manifest b in
             (Inr \<lparr>r_out_path = p, r_kind = kind_label m, r_target = m_target_id m,
                   r_version = version_str (m_fw_version m), r_hw = hw_or ''?'' m, r_signed = is_signed m,
                   r_image_size = m_image_size m, r_payload_size = m_payload_size m, r_blocks = m_block_count m,
                   r_total = length (bt_bytes b),
                   r_inplace = map_option (\<lambda>memory. (memory, a_segment_size a)) (bt_inplace_memory b)\<rparr>, h1))"

section \<open>build-bootloader\<close>

record bootloader_args =
  b_fw :: bytes
  b_board :: cli_bootloader_board
  b_sign :: bytes
  b_fw_version :: "bytes option"
  b_out_dir :: bytes
  b_out :: "bytes option"

record bootloader_report =
  br_out_path :: bytes
  br_profile :: string
  br_target :: u32
  br_version :: bytes
  br_blocks :: u32
  br_total :: nat
  br_identity :: bootloader_identity

definition assert_version :: "bytes option \<Rightarrow> u32 \<Rightarrow> unit result" where
  "assert_version asserted version =
    (case asserted of None \<Rightarrow> Inr ()
     | Some text \<Rightarrow> bindr (context_msg ''--fw-version'' (pack_version text)) (\<lambda>v.
         ensure (v = version) ''--fw-version does not match embedded bootloader version'' (Inr ())))"

definition bootloader_input :: "crypto \<Rightarrow> cli_host \<Rightarrow> bootloader_args \<Rightarrow> built result" where
  "bootloader_input c h a =
    (let (board, storage_profile) = cli_profile (b_board a) in
     bindr (read_bootloader_hex (inputs h) (b_fw a)) (\<lambda>image.
     bindr (context_msg ''--sign'' (load_key32 h (b_sign a))) (\<lambda>sign_seed.
     bindr (build_bootloader c \<lparr>bo_image = image, bo_board = board, bo_storage_profile = storage_profile,
                                bo_sign_seed = sign_seed\<rparr>) (\<lambda>b.
     bindr (assert_version (b_fw_version a) (m_fw_version (bt_manifest b))) (\<lambda>_. Inr b)))))"

definition bootloader_summary :: "crypto \<Rightarrow> bootloader_args \<Rightarrow> bytes \<Rightarrow> built \<Rightarrow> bootloader_report result" where
  "bootloader_summary c a p b =
    (let (board, storage_profile) = cli_profile (b_board a); m = bt_manifest b in
     bindr (rng (bt_bytes b) (payload_off m) (payload_off m + unat (m_payload_size m))) (\<lambda>payload.
     bindr (validate_bootloader_image c payload (m_target_id m) (m_hw_id m) (m_fw_version m)) (\<lambda>identity.
     Inr \<lparr>br_out_path = p,
          br_profile = (case board_profile_name board storage_profile of None \<Rightarrow> board_name board | Some n \<Rightarrow> n),
          br_target = m_target_id m, br_version = bootloader_version_str (m_fw_version m),
          br_blocks = m_block_count m, br_total = length (bt_bytes b), br_identity = identity\<rparr>)))"

definition cmd_build_bootloader ::
  "crypto \<Rightarrow> cli_host \<Rightarrow> bootloader_args \<Rightarrow> bootloader_report result \<times> cli_host"
where
  "cmd_build_bootloader c h a =
    (case checked_build c ''internal error: built bootloader .mota fails verification'' (bootloader_input c h a) of
       Inl e \<Rightarrow> (Inl e, h)
     | Inr b \<Rightarrow>
         let p = out_path (b_out a) (b_out_dir a) (bt_suggested_name b) in
         case fs_write (prepare_out h (b_out a) (b_out_dir a)) p (bt_bytes b) of
           (Inl e, h1) \<Rightarrow> (Inl e, h1)
         | (Inr _, h1) \<Rightarrow> (bootloader_summary c a p b, h1))"

section \<open>verify\<close>

datatype verify_line =
    Unreadable bytes
  | Failed_file bytes "string list"
  | Ok_file bytes string u32 string bytes bytes bool u32 nat

definition key_problems :: "manifest option \<Rightarrow> bytes option \<Rightarrow> string list" where
  "key_problems parsed expect =
    (case (parsed, expect) of
       (Some m, Some want) \<Rightarrow>
         if \<not> is_signed m then [''not signed (but --pub was given)'']
         else if m_signer m \<noteq> want then [''signed by a different key than --pub''] else []
     | _ \<Rightarrow> [])"

definition verify_file :: "crypto \<Rightarrow> cli_host \<Rightarrow> bytes option \<Rightarrow> bytes \<Rightarrow> verify_line result" where
  "verify_file c h expect file =
    (case file_at h file of
       None \<Rightarrow> Inr (Unreadable file)
     | Some blob \<Rightarrow>
         bindr (verify c blob) (\<lambda>found.
         case manifest_parse c blob of
           Inl Panic \<Rightarrow> Inl Panic
         | Inl (Bail _) \<Rightarrow> Inr (Failed_file file (found @ key_problems None expect))
         | Inr m \<Rightarrow>
             let problems = found @ key_problems (Some m) expect in
             if problems = [] then
               bindr (package_target_label c m blob) (\<lambda>target.
               Inr (Ok_file file (kind_label m) (m_target_id m) target (package_version_str m) (hw_or ''?'' m)
                 (is_signed m) (m_block_count m) (length blob)))
             else Inr (Failed_file file problems)))"

fun verify_files :: "crypto \<Rightarrow> cli_host \<Rightarrow> bytes option \<Rightarrow> bytes list \<Rightarrow> nat \<Rightarrow> (verify_line list \<times> nat) result" where
  "verify_files c h expect [] bad = Inr ([], bad)"
| "verify_files c h expect (file # files) bad =
    bindr (verify_file c h expect file) (\<lambda>ln.
    bindr (verify_files c h expect files (case ln of Ok_file _ _ _ _ _ _ _ _ _ \<Rightarrow> bad | _ \<Rightarrow> bad + 1)) (\<lambda>(lns, bad').
    Inr (ln # lns, bad')))"

text \<open>The exit code is \<open>True\<close> for \<open>SUCCESS\<close>.\<close>

definition cmd_verify :: "crypto \<Rightarrow> cli_host \<Rightarrow> bytes option \<Rightarrow> bytes list \<Rightarrow> (bool \<times> verify_line list) result" where
  "cmd_verify c h pub_key files =
    (case transpose_opt (load_key32 h) pub_key of
       Inl Panic \<Rightarrow> Inl Panic
     | Inl (Bail _) \<Rightarrow> Inr (False, [])
     | Inr expect \<Rightarrow> bindr (verify_files c h expect files 0) (\<lambda>(lns, bad). Inr (bad = 0, lns)))"

section \<open>inspect\<close>

record inspect_report =
  ir_total_size :: nat
  ir_kind :: string
  ir_manifest :: manifest
  ir_codec :: string
  ir_target :: string
  ir_version :: bytes
  ir_block_size :: u32
  ir_hw :: bytes
  ir_base :: "(bytes \<times> bool) option"
  ir_signer :: "(bytes \<times> bytes) option"
  ir_bootloader :: "(string \<times> bootloader_identity) option"
  ir_approved :: bool

definition inspect_identity :: "crypto \<Rightarrow> manifest \<Rightarrow> bytes \<Rightarrow> (string \<times> bootloader_identity) result" where
  "inspect_identity c m blob =
    bindr (rng blob (payload_off m) (payload_off m + unat (m_payload_size m))) (\<lambda>payload.
    bindr (validate_bootloader_image c payload (m_target_id m) (m_hw_id m) (m_fw_version m)) (\<lambda>identity.
    Inr (identity_label ''unsupported'' identity, identity)))"

definition cmd_inspect :: "crypto \<Rightarrow> cli_host \<Rightarrow> bytes \<Rightarrow> inspect_report result" where
  "cmd_inspect c h file =
    bindr (of_opt ''cannot read'' (file_at h file)) (\<lambda>blob.
    bindr (context_msg ''not a valid .mota'' (manifest_parse c blob)) (\<lambda>m.
    bindr (package_target_label c m blob) (\<lambda>target.
    bindr (if is_bootloader m then bindr (inspect_identity c m blob) (\<lambda>b. Inr (Some b)) else Inr None) (\<lambda>boot.
    Inr \<lparr>ir_total_size = length blob, ir_kind = kind_label m, ir_manifest = m,
         ir_codec = (case manifest_codec m of None \<Rightarrow> ''?'' | Some cd \<Rightarrow> codec_label cd),
         ir_target = target, ir_version = package_version_str m, ir_block_size = block_size m, ir_hw = hw_or ''(none)'' m,
         ir_base = (if is_full m then None else Some (hex_upper c (m_base_hash m), list_all (\<lambda>b. b = 0) (m_base_hash m))),
         ir_signer = (if is_signed m then Some (hex_upper c (m_signer m), hex_upper c (m_signature m)) else None),
         ir_bootloader = boot, ir_approved = is_approved m\<rparr>))))"

section \<open>transport-size\<close>

definition cmd_transport_size :: "host \<Rightarrow> cli_host \<Rightarrow> bytes \<Rightarrow> nat \<Rightarrow> deflate_transport_size result" where
  "cmd_transport_size e h payload_path bs =
    bindr (of_opt ''cannot read payload'' (file_at h payload_path)) (\<lambda>payload.
    ensure (payload \<noteq> []) ''payload is empty'' (deflate_transport_size_of e payload bs))"

section \<open>serve\<close>

record serve_args =
  s_dir :: bytes
  s_serial :: "bytes option"
  s_tcp :: "bytes option"
  s_baud :: u32
  s_no_recursive :: bool
  s_no_enable :: bool
  s_tempradio :: "bytes option"
  s_seed :: "bytes option"
  s_verbose :: bool

text \<open>The directory walk, what opening a port and connecting a socket give, and whether a signal handler can be installed.\<close>

record serve_host =
  walk :: "bytes \<Rightarrow> bool \<Rightarrow> dir_entry list"
  tcp_connect :: "bytes \<Rightarrow> u16 \<Rightarrow> tcp_stream option"
  port_open :: "bytes \<Rightarrow> u32 \<Rightarrow> nat \<Rightarrow> bool \<Rightarrow> serial_port option"
  handler_installs :: bool

definition rsplit_once :: "u8 \<Rightarrow> bytes \<Rightarrow> (bytes \<times> bytes) option" where
  "rsplit_once d s =
    (if d \<in> set s then
       (let tl = rev (takeWhile (\<lambda>b. b \<noteq> d) (rev s)) in Some (take (length s - length tl - 1) s, tl))
     else None)"

definition tcp_address :: "bytes \<Rightarrow> (bytes \<times> u16) result" where
  "tcp_address hp =
    (case rsplit_once 58 hp of
       Some (host, p) \<Rightarrow>
         bindr (of_opt ''bad --tcp port'' (from_str_radix (2 ^ 16) 10 p)) (\<lambda>port. Inr (host, of_nat port))
     | None \<Rightarrow> Inr (hp, 5001))"

definition open_link :: "serve_host \<Rightarrow> serve_args \<Rightarrow> link result" where
  "open_link s a =
    (case s_tcp a of
       Some hp \<Rightarrow> bindr (tcp_address hp) (\<lambda>(host, port). bindr (open_tcp (tcp_connect s) host port) (\<lambda>x. Inr (tcp_link x)))
     | None \<Rightarrow>
         case s_serial a of None \<Rightarrow> Inl Panic
         | Some dev \<Rightarrow> bindr (open_serial (port_open s) dev (s_baud a)) (\<lambda>x. Inr (sp_link x)))"

definition seeded_core :: "crypto \<Rightarrow> cli_host \<Rightarrow> serve_args \<Rightarrow> served_mota list \<Rightarrow> seeder_core result" where
  "seeded_core c h a motas =
    (let core = seeder_new motas (Some [s_dir a]) in
     case s_seed a of
       None \<Rightarrow> Inr core
     | Some seed_path \<Rightarrow>
         bindr (of_opt ''cannot read seed'' (file_at h seed_path)) (\<lambda>blob.
         bindr (context_msg ''bad seed .mota'' (manifest_parse c blob)) (\<lambda>m.
         bindr (rng blob (payload_off m) (payload_off m + unat (m_payload_size m))) (\<lambda>payload.
         Inr (set_seed payload (m_block_count m) core)))))"

definition send_tempradio :: "link \<Rightarrow> bytes option \<Rightarrow> link result" where
  "send_tempradio l radio =
    (case radio of None \<Rightarrow> Inr l
     | Some t \<Rightarrow>
         (case send_console ''tempradio'' (ascii ''tempradio '' @ t @ [13, 10]) l of
            (Some msg, _) \<Rightarrow> Inl (Bail msg)
          | (None, l1) \<Rightarrow> Inr l1))"

text \<open>What is listed about the folder, and the progress of the encoder; then the session on the opened link.\<close>

definition folder_line :: "crypto \<Rightarrow> served_mota \<Rightarrow> (bytes \<times> string \<times> bytes \<times> string \<times> bool) result" where
  "folder_line c s =
    (let m = s_manifest s in
     bindr (package_target_label c m (s_bytes s)) (\<lambda>target.
     Inr (hex_upper c (m_merkle_root m), target, package_version_str m,
       (if is_bootloader m then ''bootloader''
        else case manifest_codec m of None \<Rightarrow> ''?'' | Some cd \<Rightarrow> codec_name_tag cd), is_signed m)))"

fun folder_lines :: "crypto \<Rightarrow> served_mota list \<Rightarrow> (bytes \<times> string \<times> bytes \<times> string \<times> bool) list result" where
  "folder_lines c [] = Inr []"
| "folder_lines c (s # ss) = bindr (folder_line c s) (\<lambda>x. bindr (folder_lines c ss) (\<lambda>xs. Inr (x # xs)))"

record serve_report =
  sr_folder :: "(bytes \<times> string \<times> bytes \<times> string \<times> bool) list"
  sr_progress :: "(nat \<times> nat) list"
  sr_outcome :: "string option"
  sr_console :: "bytes list"
  sr_link :: link
  sr_disk :: disk

definition cmd_serve ::
  "crypto \<Rightarrow> host \<Rightarrow> cli_host \<Rightarrow> serve_host \<Rightarrow> serve_args \<Rightarrow> (nat \<Rightarrow> bool) \<Rightarrow> (nat \<Rightarrow> nat) \<Rightarrow> (nat \<Rightarrow> bool) \<Rightarrow> disk \<Rightarrow>
    serve_report result"
where
  "cmd_serve c e h s a stop clock stop2 d =
    bindr (folder_scan c (walk s (s_dir a) (\<not> s_no_recursive a))) (\<lambda>(motas, _).
    bindr (folder_lines c motas) (\<lambda>listing.
    bindr (seeded_core c h a motas) (\<lambda>core.
    bindr (open_link s a) (\<lambda>l0.
    bindr (send_tempradio l0 (s_tempradio a)) (\<lambda>l.
    ensure (handler_installs s) ''installing Ctrl-C handler'' (
    let enable = (s_tcp a = None \<and> \<not> s_no_enable a) in
    bindr (serve_session e core (s_verbose a) enable stop clock stop2 l d) (\<lambda>(outcome, lines, l', d').
    Inr \<lparr>sr_folder = listing, sr_progress = (if motas = [] then [] else prepare_deflate_cache motas),
         sr_outcome = outcome, sr_console = lines, sr_link = l', sr_disk = d'\<rparr>)))))))"

section \<open>Key files\<close>

lemma fs_write_simps [simp]:
  "writable h p \<Longrightarrow> fst (fs_write h p x) = Inr ()"
  "\<not> writable h p \<Longrightarrow> fst (fs_write h p x) = Inl (Bail ''cannot write'')"
  "file_at (snd (fs_write h p x)) q =
    (if q = p then if writable h p then Some x else torn h p (file_at h p) x else file_at h q)"
  "writable (snd (fs_write h p x)) = writable h" "hex_decode (snd (fs_write h p x)) = hex_decode h"
  by (simp_all add: fs_write_def file_at_def put_file_def)

lemma fs_write_result:
  "fs_write h p x = (if writable h p then Inr () else Inl (Bail ''cannot write''), snd (fs_write h p x))"
  by (simp add: fs_write_def)

lemma prepare_out_simps [simp]:
  "inputs (prepare_out h out dir) = inputs h" "hex_decode (prepare_out h out dir) = hex_decode h"
  "file_at (prepare_out h out dir) p = file_at h p"
  by (simp_all add: prepare_out_def create_dir_all_def file_at_def split: option.splits)

text \<open>What the \<open>hex\<close> crate promises: printing gives upper-case digits, and decoding undoes it.\<close>

definition hex_ok :: "crypto \<Rightarrow> cli_host \<Rightarrow> bool" where
  "hex_ok c h \<longleftrightarrow>
    (\<forall>bs. hex_decode h (hex_upper c bs) = Some bs \<and> list_all (\<lambda>b. is_ascii_digit b \<or> (65 \<le> b \<and> b \<le> 70)) (hex_upper c bs))"

lemma hex_graphic: "hex_ok c h \<Longrightarrow> list_all graphic (hex_upper c bs)"
  by (fastforce simp: hex_ok_def list_all_iff graphic_def is_ascii_digit_def word_le_nat_alt)

lemma utf8_graphic: "list_all graphic s \<Longrightarrow> utf8_ok (s @ [10])"
proof (induction s)
  case (Cons b s)
  then have "b < 0x80" by (simp add: graphic_def word_le_nat_alt word_less_nat_alt)
  with Cons show ?case by simp
qed simp

lemma load_hex_key:
  assumes "hex_ok c h" and "file_at h p = Some (hex_upper c key @ [10])" and "length key = 32"
  shows "load_key32 h p = Inr key"
proof -
  note g = hex_graphic [OF assms(1), of key]
  have "hex_decode h (hex_upper c key) = Some key" using assms(1) by (simp add: hex_ok_def)
  then show ?thesis using assms(2,3) by (simp add: load_key32_def utf8_graphic [OF g] trim_graphic(2) [OF g])
qed

lemma load_key32_length: "load_key32 h p = Inr key \<Longrightarrow> length key = 32"
  by (auto simp: load_key32_def split: option.splits if_splits)

lemma load_key32_no_panic: "load_key32 h p \<noteq> Inl Panic"
  by (auto simp: load_key32_def bindr_Panic split: option.splits if_splits)

lemma hex_ok_write:
  "hex_ok c (snd (fs_write h p x)) \<longleftrightarrow> hex_ok c h" "hex_ok c (prepare_out h out dir) \<longleftrightarrow> hex_ok c h"
  by (simp_all add: hex_ok_def)

lemma cmd_keygen_eq:
  fixes h :: cli_host
  defines "h1 \<equiv> \<lambda>c rand path. snd (fs_write h path (hex_upper c rand @ [10]))"
  shows "cmd_keygen c rand h (Some path) =
    (if \<not> writable h path then (Inl (Bail ''cannot write''), h1 c rand path)
     else
       (if writable h (path @ ascii ''.pub'') then Inr (hex_upper c (ed25519_public_from_seed c rand)) else Inl (Bail ''cannot write''),
        snd (fs_write (h1 c rand path) (path @ ascii ''.pub'') (hex_upper c (ed25519_public_from_seed c rand) @ [10]))))"
  unfolding cmd_keygen_def ed25519_keygen_def Let_def prod.case option.case h1_def fs_write_def
  by (simp add: put_file_def)

lemma keygen_files:
  assumes "crypto_ok c" and "hex_ok c h" and "length rand = 32"
    and "cmd_keygen c rand h (Some path) = (Inr shown, h1)"
  shows "load_key32 h1 path = Inr rand" and "load_key32 h1 (path @ ascii ''.pub'') = Inr (ed25519_public_from_seed c rand)"
    and "hex_ok c h1" and "writable h1 = writable h"
    and "q \<notin> {path, path @ ascii ''.pub''} \<Longrightarrow> file_at h1 q = file_at h q"
    and "file_at h1 path = Some (hex_upper c rand @ [10])"
    and "file_at h1 (path @ ascii ''.pub'') = Some (hex_upper c (ed25519_public_from_seed c rand) @ [10])"
proof -
  let ?pub = "ed25519_public_from_seed c rand" and ?q = "path @ ascii ''.pub''"
  let ?h = "snd (fs_write h path (hex_upper c rand @ [10]))"
  have ne: "path \<noteq> ?q" by (simp add: ascii_def)
  have w: "writable h path" "writable h ?q" and h1: "h1 = snd (fs_write ?h ?q (hex_upper c ?pub @ [10]))"
    using assms(4) unfolding cmd_keygen_eq by (auto split: if_splits)
  show ok: "hex_ok c h1" using assms(2) by (simp add: h1 hex_ok_write)
  show f: "file_at h1 path = Some (hex_upper c rand @ [10])"
    and g: "file_at h1 ?q = Some (hex_upper c ?pub @ [10])"
    using w ne by (simp_all add: h1)
  show "writable h1 = writable h" by (simp add: h1)
  show "q \<notin> {path, ?q} \<Longrightarrow> file_at h1 q = file_at h q" by (simp add: h1)
  show "load_key32 h1 path = Inr rand" by (rule load_hex_key [OF ok f assms(3)])
  show "load_key32 h1 ?q = Inr ?pub"
    by (rule load_hex_key [OF ok g]) (use assms(1) in \<open>simp add: crypto_ok_lengths\<close>)
qed

section \<open>The build commands\<close>

lemma checked_build_Inr: "checked_build c msg r = Inr b \<longleftrightarrow> r = Inr b \<and> verify c (bt_bytes b) = Inr []"
  by (auto simp: checked_build_def)

lemma checked_build_verified:
  assumes "\<And>b. r = Inr b \<Longrightarrow> verify c (bt_bytes b) = Inr []"
  shows "checked_build c msg r = r"
  using assms by (cases r) (simp_all add: checked_build_def)

lemma cmd_build_eq:
  assumes "crypto_ok c"
  shows "cmd_build checks c h a =
    (case bindr (build_opts_of checks c h a) (build c) of
       Inl e \<Rightarrow> (Inl e, h)
     | Inr b \<Rightarrow>
         let p = out_path (a_out a) (a_out_dir a) (bt_suggested_name b); m = bt_manifest b;
             h0 = prepare_out h (a_out a) (a_out_dir a) in
         (if writable h0 p then
             Inr \<lparr>r_out_path = p, r_kind = kind_label m, r_target = m_target_id m,
                   r_version = version_str (m_fw_version m), r_hw = hw_or ''?'' m, r_signed = is_signed m,
                   r_image_size = m_image_size m, r_payload_size = m_payload_size m, r_blocks = m_block_count m,
                   r_total = length (bt_bytes b),
                   r_inplace = map_option (\<lambda>memory. (memory, a_segment_size a)) (bt_inplace_memory b)\<rparr>
          else Inl (Bail ''cannot write''),
          snd (fs_write h0 p (bt_bytes b))))"
proof -
  have v: "checked_build c msg (bindr (build_opts_of checks c h a) (build c)) = bindr (build_opts_of checks c h a) (build c)" for msg
    by (rule checked_build_verified) (auto intro: built_verifies(1) [OF assms])
  show ?thesis
  proof (cases "bindr (build_opts_of checks c h a) (build c)")
    case (Inr b)
    show ?thesis unfolding cmd_build_def v unfolding Inr sum.case Let_def by (subst fs_write_result) simp
  next
    case (Inl e)
    show ?thesis unfolding cmd_build_def v unfolding Inl by simp
  qed
qed

lemma cmd_build_ok:
  assumes "crypto_ok c" and "cmd_build checks c h a = (Inr r, h')"
  obtains opts b where "build_opts_of checks c h a = Inr opts" and "build c opts = Inr b"
    and "r_out_path r = out_path (a_out a) (a_out_dir a) (bt_suggested_name b)"
    and "writable (prepare_out h (a_out a) (a_out_dir a)) (r_out_path r)"
    and "h' = snd (fs_write (prepare_out h (a_out a) (a_out_dir a)) (r_out_path r) (bt_bytes b))"
    and "r_signed r = is_signed (bt_manifest b)"
proof -
  obtain b where b: "bindr (build_opts_of checks c h a) (build c) = Inr b"
  proof (cases "bindr (build_opts_of checks c h a) (build c)")
    case (Inl e)
    then show ?thesis using assms(2) unfolding cmd_build_eq [OF assms(1)] by simp
  qed
  then obtain opts where "build_opts_of checks c h a = Inr opts" "build c opts = Inr b" by auto
  moreover have "writable (prepare_out h (a_out a) (a_out_dir a)) (out_path (a_out a) (a_out_dir a) (bt_suggested_name b))"
    "r_out_path r = out_path (a_out a) (a_out_dir a) (bt_suggested_name b)"
    "h' = snd (fs_write (prepare_out h (a_out a) (a_out_dir a)) (r_out_path r) (bt_bytes b))" "r_signed r = is_signed (bt_manifest b)"
    using assms(2) unfolding cmd_build_eq [OF assms(1)] b
    by (auto simp: Let_def split: if_splits)
  ultimately show thesis by (intro that) simp_all
qed

lemma build_opts_sign:
  assumes "build_opts_of checks c h a = Inr opts"
  shows "transpose_opt (load_key32 h) (a_sign a) = Inr (o_sign_seed opts)"
  using assms by (auto simp: build_opts_of_def)

lemma built_signer:
  assumes "crypto_ok c" and "build c opts = Inr b" and "o_sign_seed opts = Some seed"
  shows "is_signed (bt_manifest b)" and "m_signer (bt_manifest b) = ed25519_public_from_seed c seed"
  by (rule build_result [OF assms(1,2)]; simp add: the_record_def built_flags assms(3))
    (rule build_result [OF assms(1,2)]; simp add: the_record_def built_record_def assms(3) Let_def)

lemma parsed_payload:
  assumes "manifest_parse c blob = Inr m"
  shows "rng blob (payload_off m) (payload_off m + unat (m_payload_size m)) =
      Inr (slice (payload_off m) (payload_off m + unat (m_payload_size m)) blob)"
    and "is_bootloader m \<Longrightarrow>
      is_ok (validate_bootloader_image c (slice (payload_off m) (payload_off m + unat (m_payload_size m)) blob)
        (m_target_id m) (m_hw_id m) (m_fw_version m))"
proof -
  have "payload_off m + unat (m_payload_size m) \<le> length blob"
    using parse_geometry(1) [OF assms] by (simp add: payload_off_sum)
  then show "rng blob (payload_off m) (payload_off m + unat (m_payload_size m)) =
      Inr (slice (payload_off m) (payload_off m + unat (m_payload_size m)) blob)" by (simp add: rng_def)
  show "is_bootloader m \<Longrightarrow> is_ok (validate_bootloader_image c
      (slice (payload_off m) (payload_off m + unat (m_payload_size m)) blob) (m_target_id m) (m_hw_id m) (m_fw_version m))"
    using parse_Inr_container(2) [OF assms] unfolding manifest_wf_def by blast
qed

lemma built_bootloader: "crypto_ok c \<Longrightarrow> build_bootloader c opts = Inr b \<Longrightarrow> is_bootloader (bt_manifest b)"
  by (auto simp: build_bootloader_eq bootloader_built_def bootloader_record_def Let_def is_bootloader_def mota_const)

lemma bootloader_summary_ok:
  assumes "crypto_ok c" and "build_bootloader c opts = Inr b"
  shows "\<exists>r. bootloader_summary c a p b = Inr r \<and> br_out_path r = p"
proof -
  have m: "manifest_parse c (bt_bytes b) = Inr (bt_manifest b)" using bootloader_built_verifies [OF assms] by simp
  show ?thesis
    using parsed_payload(1) [OF m] parsed_payload(2) [OF m built_bootloader [OF assms]]
    by (auto simp: bootloader_summary_def is_ok_iff Let_def split: prod.splits)
qed

lemma bootloader_input_built: "bootloader_input c h a = Inr b \<Longrightarrow> \<exists>opts. build_bootloader c opts = Inr b"
  by (auto simp: bootloader_input_def split: prod.splits)

lemma cmd_build_bootloader_eq:
  assumes "crypto_ok c"
  shows "cmd_build_bootloader c h a =
    (case bootloader_input c h a of
       Inl e \<Rightarrow> (Inl e, h)
     | Inr b \<Rightarrow>
         let p = out_path (b_out a) (b_out_dir a) (bt_suggested_name b); h0 = prepare_out h (b_out a) (b_out_dir a) in
         (if writable h0 p then bootloader_summary c a p b else Inl (Bail ''cannot write''),
          snd (fs_write h0 p (bt_bytes b))))"
proof -
  have v: "checked_build c msg (bootloader_input c h a) = bootloader_input c h a" for msg
    by (rule checked_build_verified) (use bootloader_input_built bootloader_built_verifies [OF assms] in blast)
  show ?thesis
  proof (cases "bootloader_input c h a")
    case (Inr b)
    show ?thesis unfolding cmd_build_bootloader_def v unfolding Inr sum.case Let_def by (subst fs_write_result) simp
  next
    case (Inl e)
    show ?thesis unfolding cmd_build_bootloader_def v unfolding Inl by simp
  qed
qed

section \<open>The verify command\<close>

lemma package_target_label_ok: "\<exists>s. package_target_label c m blob = Inr s"
  using validate_bootloader_image_no_panic
  by (auto simp: package_target_label_def split: option.splits sum.splits err.splits)

text \<open>A file is accepted when it verifies and, with a key given, is signed by that key.\<close>

definition accepted :: "crypto \<Rightarrow> cli_host \<Rightarrow> bytes option \<Rightarrow> bytes \<Rightarrow> bool" where
  "accepted c h expect file \<longleftrightarrow>
    (\<exists>blob m. file_at h file = Some blob \<and> verify c blob = Inr [] \<and> manifest_parse c blob = Inr m \<and>
      (\<forall>want. expect = Some want \<longrightarrow> is_signed m \<and> m_signer m = want))"

lemma key_problems_nil: "key_problems (Some m) expect = [] \<longleftrightarrow> (\<forall>want. expect = Some want \<longrightarrow> is_signed m \<and> m_signer m = want)"
  by (auto simp: key_problems_def split: option.splits)

definition is_ok_line :: "verify_line \<Rightarrow> bool" where
  "is_ok_line ln \<longleftrightarrow> (case ln of Ok_file _ _ _ _ _ _ _ _ _ \<Rightarrow> True | _ \<Rightarrow> False)"

lemma verify_file_line: "\<exists>ln. verify_file c h expect file = Inr ln \<and> (is_ok_line ln \<longleftrightarrow> accepted c h expect file)"
proof (cases "file_at h file")
  case None
  then show ?thesis by (simp add: verify_file_def accepted_def is_ok_line_def)
next
  case (Some blob)
  obtain problems where v: "verify c blob = Inr problems" using verify_total by blast
  show ?thesis
  proof (cases "manifest_parse c blob")
    case (Inl e)
    then have "e \<noteq> Panic" using manifest_parse_no_panic [of c blob] by auto
    then show ?thesis using Inl Some v by (cases e) (auto simp: verify_file_def accepted_def is_ok_line_def)
  next
    case (Inr m)
    obtain target where t: "package_target_label c m blob = Inr target" using package_target_label_ok by blast
    have a: "accepted c h expect file \<longleftrightarrow> problems @ key_problems (Some m) expect = []"
      using Some v Inr by (simp add: accepted_def key_problems_nil)
    show ?thesis
      using Some v Inr t a by (cases "problems @ key_problems (Some m) expect = []")
        (simp_all add: verify_file_def is_ok_line_def Let_def)
  qed
qed

lemma verify_files_lines:
  "\<exists>lns. verify_files c h expect files bad =
    Inr (lns, bad + length (filter (\<lambda>f. \<not> accepted c h expect f) files)) \<and> map is_ok_line lns = map (accepted c h expect) files"
proof (induction files arbitrary: bad)
  case (Cons f fs)
  obtain ln where ln: "verify_file c h expect f = Inr ln" "is_ok_line ln \<longleftrightarrow> accepted c h expect f"
    using verify_file_line by blast
  have "(case ln of Ok_file _ _ _ _ _ _ _ _ _ \<Rightarrow> bad | _ \<Rightarrow> bad + 1) = (if is_ok_line ln then bad else bad + 1)"
    by (cases ln) (simp_all add: is_ok_line_def)
  moreover obtain lns where "verify_files c h expect fs (if is_ok_line ln then bad else bad + 1) =
      Inr (lns, (if is_ok_line ln then bad else bad + 1) + length (filter (\<lambda>f. \<not> accepted c h expect f) fs))"
    "map is_ok_line lns = map (accepted c h expect) fs"
    using Cons.IH by blast
  ultimately show ?case using ln by simp
qed simp

lemma cmd_verify_eq:
  "case transpose_opt (load_key32 h) pub_key of
     Inl e \<Rightarrow> cmd_verify c h pub_key files = Inr (False, [])
   | Inr expect \<Rightarrow> \<exists>lns. cmd_verify c h pub_key files = Inr (list_all (accepted c h expect) files, lns) \<and>
       map is_ok_line lns = map (accepted c h expect) files"
proof (cases "transpose_opt (load_key32 h) pub_key")
  case (Inl e)
  have "e \<noteq> Panic" using Inl load_key32_no_panic by (cases pub_key) (auto simp: bindr_def split: sum.splits)
  then show ?thesis using Inl by (cases e) (simp_all add: cmd_verify_def)
next
  case (Inr expect)
  obtain lns where "verify_files c h expect files 0 = Inr (lns, length (filter (\<lambda>f. \<not> accepted c h expect f) files))"
    "map is_ok_line lns = map (accepted c h expect) files"
    using verify_files_lines [of c h expect files 0] by auto
  then show ?thesis using Inr by (simp add: cmd_verify_def filter_empty_conv list_all_iff)
qed

lemma cmd_verify_success:
  "(\<exists>lns. cmd_verify c h pub_key files = Inr (True, lns)) \<longleftrightarrow>
    (\<exists>expect. transpose_opt (load_key32 h) pub_key = Inr expect \<and> list_all (accepted c h expect) files)"
  using cmd_verify_eq [where c = c and h = h and pub_key = pub_key and files = files] by (auto split: sum.splits)

lemma cmd_verify_total: "\<exists>success lns. cmd_verify c h pub_key files = Inr (success, lns)"
  using cmd_verify_eq [where c = c and h = h and pub_key = pub_key and files = files] by (auto split: sum.splits)

section \<open>From key generation to verification\<close>

lemma built_file_accepted:
  assumes "crypto_ok c" and "cmd_build checks c h a = (Inr r, h')"
  shows "accepted c h' None (r_out_path r)"
    and "a_sign a = Some k \<Longrightarrow> load_key32 h k = Inr seed \<Longrightarrow>
      accepted c h' (Some (ed25519_public_from_seed c seed)) (r_out_path r)"
proof -
  obtain opts b where o: "build_opts_of checks c h a = Inr opts" and b: "build c opts = Inr b"
    and w: "writable (prepare_out h (a_out a) (a_out_dir a)) (r_out_path r)"
    and h': "h' = snd (fs_write (prepare_out h (a_out a) (a_out_dir a)) (r_out_path r) (bt_bytes b))"
    by (rule cmd_build_ok [OF assms])
  note v = built_verifies [OF assms(1) b]
  have f: "file_at h' (r_out_path r) = Some (bt_bytes b)" using w by (simp add: h')
  show "accepted c h' None (r_out_path r)" using f v by (simp add: accepted_def)
  assume "a_sign a = Some k" and "load_key32 h k = Inr seed"
  then have "o_sign_seed opts = Some seed" using build_opts_sign [OF o] by simp
  from built_signer [OF assms(1) b this] f v
  show "accepted c h' (Some (ed25519_public_from_seed c seed)) (r_out_path r)" by (simp add: accepted_def)
qed

lemma keygen_build_verify:
  assumes "crypto_ok c" and "hex_ok c h" and "length rand = 32"
    and "cmd_keygen c rand h (Some k) = (Inr shown, h1)"
    and "cmd_build checks c h1 a = (Inr r, h2)" and "a_sign a = Some k"
    and "r_out_path r \<noteq> k @ ascii ''.pub''"
  shows "\<exists>lns. cmd_verify c h2 (Some (k @ ascii ''.pub'')) [r_out_path r] = Inr (True, lns)"
proof -
  let ?pub = "ed25519_public_from_seed c rand"
  note key = keygen_files [OF assms(1-4)]
  obtain b :: built where h2: "h2 = snd (fs_write (prepare_out h1 (a_out a) (a_out_dir a)) (r_out_path r) (bt_bytes b))"
    by (rule cmd_build_ok [OF assms(1,5)]) (rule that)
  have "file_at h2 (k @ ascii ''.pub'') = Some (hex_upper c ?pub @ [10])"
    using key(7) assms(7) by (simp add: h2)
  then have "load_key32 h2 (k @ ascii ''.pub'') = Inr ?pub"
    by (rule load_hex_key [rotated]) (use key(3) assms(1) in \<open>simp_all add: h2 hex_ok_write crypto_ok_lengths\<close>)
  then have "transpose_opt (load_key32 h2) (Some (k @ ascii ''.pub'')) = Inr (Some ?pub)" by simp
  moreover have "accepted c h2 (Some ?pub) (r_out_path r)"
    by (rule built_file_accepted(2) [OF assms(1,5,6) key(1)])
  ultimately show ?thesis unfolding cmd_verify_success by (intro exI [of _ "Some ?pub"]) simp
qed

section \<open>The inspect command\<close>

lemma cmd_inspect_parsed:
  assumes "file_at h file = Some blob" and "manifest_parse c blob = Inr m"
  shows "\<exists>r. cmd_inspect c h file = Inr r \<and> ir_manifest r = m"
proof -
  obtain target where t: "package_target_label c m blob = Inr target" using package_target_label_ok by blast
  have "\<exists>i. inspect_identity c m blob = Inr i" if "is_bootloader m"
    using parsed_payload [OF assms(2)] that by (auto simp: inspect_identity_def is_ok_iff)
  then obtain i where i: "(if is_bootloader m then bindr (inspect_identity c m blob) (\<lambda>b. Inr (Some b)) else Inr None) = Inr i"
    by (cases "is_bootloader m") auto
  show ?thesis
    unfolding cmd_inspect_def assms(1) of_opt_simps bindr_simps
    using assms(2) by (simp add: context_msg_def t i del: bindr_Inr)
qed

lemma cmd_inspect_total:
  "(\<exists>r. cmd_inspect c h file = Inr r \<and> ir_manifest r = m) \<longleftrightarrow>
    (\<exists>blob. file_at h file = Some blob \<and> manifest_parse c blob = Inr m)"
proof
  assume "\<exists>r. cmd_inspect c h file = Inr r \<and> ir_manifest r = m"
  then obtain r where r: "cmd_inspect c h file = Inr r" "ir_manifest r = m" by blast
  obtain blob where f: "file_at h file = Some blob"
    using r(1) by (cases "file_at h file") (simp_all add: cmd_inspect_def)
  obtain m' where p: "manifest_parse c blob = Inr m'"
    using r(1) f by (cases "manifest_parse c blob") (auto simp: cmd_inspect_def context_msg_def split: err.splits)
  with cmd_inspect_parsed [OF f p] r f show "\<exists>blob. file_at h file = Some blob \<and> manifest_parse c blob = Inr m" by auto
qed (use cmd_inspect_parsed in blast)

lemma cmd_inspect_no_panic: "cmd_inspect c h file \<noteq> Inl Panic"
proof (cases "file_at h file")
  case (Some blob)
  show ?thesis
  proof (cases "manifest_parse c blob")
    case (Inl e)
    then show ?thesis using Some manifest_parse_no_panic [of c blob]
      by (cases e) (simp_all add: cmd_inspect_def context_msg_def)
  next
    case (Inr m)
    with cmd_inspect_parsed [OF Some Inr] show ?thesis by auto
  qed
qed (simp add: cmd_inspect_def)

section \<open>The serve command\<close>

lemma folder_lines_total: "\<exists>ls. folder_lines c ss = Inr ls \<and> length ls = length ss"
proof (induction ss)
  case (Cons s ss)
  then show ?case using package_target_label_ok [of c "s_manifest s" "s_bytes s"]
    by (auto simp: folder_line_def Let_def)
qed simp

lemma seeded_core_no_panic: "seeded_core c h a motas \<noteq> Inl Panic"
  using parsed_payload(1) manifest_parse_no_panic
  by (fastforce simp: seeded_core_def bindr_Panic Let_def split: option.splits)

lemma open_link_no_panic: "s_tcp a \<noteq> None \<or> s_serial a \<noteq> None \<Longrightarrow> open_link s a \<noteq> Inl Panic"
  by (auto simp: open_link_def tcp_address_def bindr_Panic open_no_panic split: option.splits prod.splits)

lemma cmd_serve_no_panic:
  assumes "s_tcp a \<noteq> None \<or> s_serial a \<noteq> None"
  shows "cmd_serve c e h s a stop clock stop2 d \<noteq> Inl Panic"
proof -
  have r: "send_tempradio l r \<noteq> Inl Panic" for l r by (simp add: send_tempradio_def split: option.splits prod.splits)
  have f: "folder_lines c ms \<noteq> Inl Panic" for ms using folder_lines_total [of c ms] by auto
  have g: "folder_scan c es \<noteq> Inl Panic" for es using folder_scan_Inr [of c es] by auto
  have t: "serve_session e core v enable stop clock stop2 l d \<noteq> Inl Panic" for core v enable l
    using serve_session_ok [of e core v enable stop clock stop2 l d] by auto
  show ?thesis
    using f g r t seeded_core_no_panic open_link_no_panic [OF assms]
    by (auto simp: cmd_serve_def bindr_Panic Let_def split: prod.splits)
qed

lemma cmd_serve_transcript:
  assumes "cmd_serve c e h s a stop clock stop2 d = Inr sr"
  shows "\<exists>l0 motas warns n rs. open_link s a = Inr l0 \<and>
    folder_scan c (walk s (s_dir a) (\<not> s_no_recursive a)) = Inr (motas, warns) \<and> length (sr_folder sr) = length motas \<and>
    l_out (sr_link sr) = l_out l0 @ (case s_tempradio a of None \<Rightarrow> [] | Some t \<Rightarrow> [ascii ''tempradio '' @ t @ [13, 10]]) @
      (if l_broken l0 then [] else replicate n FOLDER_ON @ rs @ (if s_tcp a = None \<and> \<not> s_no_enable a then [FOLDER_OFF] else [])) \<and>
    n \<le> 3 \<and> (\<forall>f \<in> set rs. is_response f)"
proof -
  let ?enable = "s_tcp a = None \<and> \<not> s_no_enable a"
  obtain motas warns listing core l0 l outcome lines l' d' where
    m: "folder_scan c (walk s (s_dir a) (\<not> s_no_recursive a)) = Inr (motas, warns)"
    and f: "folder_lines c motas = Inr listing"
    and l0: "open_link s a = Inr l0" and l: "send_tempradio l0 (s_tempradio a) = Inr l"
    and ss: "serve_session e core (s_verbose a) ?enable stop clock stop2 l d = Inr (outcome, lines, l', d')"
    and sr: "sr_folder sr = listing" "sr_link sr = l'"
    using assms by (auto simp: cmd_serve_def Let_def)
  have w: "l_broken l = l_broken l0"
    "l_out l = l_out l0 @ (case s_tempradio a of None \<Rightarrow> [] | Some t \<Rightarrow> [ascii ''tempradio '' @ t @ [13, 10]])"
    using l by (auto simp: send_tempradio_def send_console_def write_all_def split: option.splits if_splits prod.splits)
  have "length listing = length motas" using folder_lines_total [of c motas] f by auto
  moreover have "transcript ?enable l l'"
    using serve_session_ok [of e core "s_verbose a" ?enable stop clock stop2 l d] ss by auto
  ultimately show ?thesis
    using m l0 sr w unfolding transcript_def by (fastforce simp: append_assoc)
qed

section \<open>Findings\<close>

text \<open>
  The file name of a package starts with the hardware tag, which comes from the firmware image unless it
  is given. With a tag that starts with a slash the package is written outside the output directory.
\<close>

lemma absolute_hw_id_escapes:
  "hw_id ident = 47 # rest \<Longrightarrow>
    out_path None dir (suggested_name c ident cd r) = suggested_name c ident cd r"
  by (simp add: out_path_def path_join_def suggested_name_def Let_def)

section \<open>The effect of the build commands\<close>

text \<open>The internal check of a fresh package never fails.\<close>

lemma checked_build_build:
  "crypto_ok c \<Longrightarrow> checked_build c msg (bindr (build_opts_of checks c h a) (build c)) = bindr (build_opts_of checks c h a) (build c)"
  by (rule checked_build_verified) (auto intro: built_verifies(1))

lemma checked_build_bootloader: "crypto_ok c \<Longrightarrow> checked_build c msg (bootloader_input c h a) = bootloader_input c h a"
  by (rule checked_build_verified) (use bootloader_input_built bootloader_built_verifies in blast)

text \<open>
  The effect of a build command on the files. Nothing but the output file changes; when its path is writable once
  the directories are created, the command succeeds, reports that path and leaves there the container, which
  verifies, and otherwise it fails with what a failed write leaves behind.
\<close>

definition writes_output ::
  "crypto \<Rightarrow> cli_host \<Rightarrow> bytes option \<Rightarrow> bytes \<Rightarrow> built \<Rightarrow> ('r \<Rightarrow> bytes) \<Rightarrow> 'r result \<times> cli_host \<Rightarrow> bool"
where
  "writes_output c h out dir b reported run \<longleftrightarrow>
    (let p = (case out of Some q \<Rightarrow> q | None \<Rightarrow> path_join dir (bt_suggested_name b)); h' = snd run in
     (\<forall>q. q \<noteq> p \<longrightarrow> file_at h' q = file_at h q) \<and>
     (if writable (prepare_out h out dir) p
      then (\<exists>r. fst run = Inr r \<and> reported r = p) \<and> file_at h' p = Some (bt_bytes b) \<and> accepted c h' None p
      else fst run = Inl (Bail ''cannot write'') \<and> file_at h' p = torn h p (file_at h p) (bt_bytes b)))"

lemma torn_prepare_out [simp]: "torn (prepare_out h out dir) = torn h"
  by (simp add: prepare_out_def create_dir_all_def split: option.splits)

lemma fs_write_output:
  fixes b :: built
  defines "p \<equiv> \<lambda>out dir. out_path out dir (bt_suggested_name b)"
  assumes "verify c (bt_bytes b) = Inr []" and "manifest_parse c (bt_bytes b) = Inr m"
    and "writable (prepare_out h out dir) (p out dir) \<Longrightarrow> \<exists>r. res = Inr r \<and> reported r = p out dir"
    and "\<not> writable (prepare_out h out dir) (p out dir) \<Longrightarrow> res = Inl (Bail ''cannot write'')"
  shows "writes_output c h out dir b reported (res, snd (fs_write (prepare_out h out dir) (p out dir) (bt_bytes b)))"
  using assms(2-5) by (auto simp: writes_output_def p_def out_path_def Let_def accepted_def)

lemma cmd_build_outcome:
  assumes "crypto_ok c"
  shows "case bindr (build_opts_of checks c h a) (build c) of
      Inl e \<Rightarrow> cmd_build checks c h a = (Inl e, h)
    | Inr b \<Rightarrow> writes_output c h (a_out a) (a_out_dir a) b r_out_path (cmd_build checks c h a)"
proof (cases "bindr (build_opts_of checks c h a) (build c)")
  case (Inl e)
  then show ?thesis unfolding cmd_build_eq [OF assms] by simp
next
  case (Inr b)
  then obtain opts where "build c opts = Inr b" by auto
  note v = built_verifies [OF assms this]
  show ?thesis unfolding cmd_build_eq [OF assms] Inr sum.case Let_def
    by (rule fs_write_output [OF v(1,2)]) simp_all
qed

lemma cmd_build_bootloader_outcome:
  assumes "crypto_ok c"
  shows "case bootloader_input c h a of
      Inl e \<Rightarrow> cmd_build_bootloader c h a = (Inl e, h)
    | Inr b \<Rightarrow> writes_output c h (b_out a) (b_out_dir a) b br_out_path (cmd_build_bootloader c h a)"
proof (cases "bootloader_input c h a")
  case (Inl e)
  then show ?thesis unfolding cmd_build_bootloader_eq [OF assms] by simp
next
  case (Inr b)
  then obtain opts where o: "build_bootloader c opts = Inr b" using bootloader_input_built by blast
  note v = bootloader_built_verifies [OF assms o]
  show ?thesis unfolding cmd_build_bootloader_eq [OF assms] Inr sum.case Let_def
    using bootloader_summary_ok [OF assms o, of a] v by (intro fs_write_output) auto
qed

end
