(* ===== verification/Mota_Store.thy ===== *)
theory Mota_Store
  imports Mota_Commands
begin

text \<open>
  The capture store of \<open>SeederCore\<close> (\<open>src/serve.rs\<close>) seen from outside. \<open>serving\<close> is the step relation of a
  node that sends requests in any order; every event loop, the handshake and the whole serve command stay
  inside it, so its invariants hold whatever bytes arrive. \<open>capture_op\<close> is the abstract store, a map from ids
  to captures; on a file system whose operations succeed (\<open>storage_ok\<close>) the handler on files simulates it
  request by request. The invariants hold with any faults.
\<close>

section \<open>The disks a node can reach\<close>

text \<open>Whatever requests arrive, in any order: one step is one request the handler answers.\<close>

inductive serving :: "host \<Rightarrow> seeder_core \<Rightarrow> disk \<Rightarrow> disk \<Rightarrow> bool" for h core where
  serving_refl [simp, intro]: "serving h core d d"
| serving_step: "serving h core d d1 \<Longrightarrow> handle h core d1 op args = Inr (r, d2) \<Longrightarrow> serving h core d d2"

lemma serving_handle: "handle h core d op args = Inr (r, d') \<Longrightarrow> serving h core d d'"
  by (blast intro: serving.intros)

lemma serving_trans: "serving h core d1 d2 \<Longrightarrow> serving h core d d1 \<Longrightarrow> serving h core d d2"
  by (induction rule: serving.induct) (auto intro: serving_step)

definition store_file :: "host \<Rightarrow> path \<Rightarrow> path \<Rightarrow> bool" where
  "store_file h dir p \<longleftrightarrow> (\<exists>mid part. p = store_path h dir mid part)"

lemma serving_published:
  "serving h core d d' \<Longrightarrow> d' (store_path h dir mid False) = d (store_path h dir mid False) \<or>
    (\<exists>f. d' (store_path h dir mid False) = Some f \<and> header_ok f)"
proof (induction rule: serving.induct)
  case (serving_step d d1 op args r d2)
  then show ?case using handle_keeps_published [OF serving_step.hyps(2), of dir mid] by metis
qed simp

lemma serving_outside:
  "serving h core d d' \<Longrightarrow> (\<And>dir. c_store_dir core = Some dir \<Longrightarrow> \<not> store_file h dir p) \<Longrightarrow> d' p = d p"
proof (induction rule: serving.induct)
  case (serving_step d d1 op args r d2)
  have "p \<noteq> part_file h core args" "p \<noteq> done_file h core args" if "c_store_dir core \<noteq> None"
    using that serving_step.prems by (auto simp: store_file_def part_file_def done_file_def)
  then have "d2 p = d1 p" using handle_effect [OF serving_step.hyps(2)] by auto
  with serving_step show ?case by simp
qed simp

section \<open>A session reaches no other disk\<close>

lemma answer_serving: "answer_request h core verbose op args l d = Inr (log, l', d') \<Longrightarrow> serving h core d d'"
  by (auto simp: answer_request_def Let_def intro: serving_handle split: option.splits prod.splits)

lemma pump_byte_serving:
  "pump_byte h core verbose b st l d = Inr (ev, st', l', d') \<Longrightarrow> serving h core d d'"
  by (auto simp: pump_byte_def Let_def intro: answer_serving
      split: if_splits prod.splits request_read.splits option.splits)

lemma pump_serving: "pump h core verbose st l d = Inr (ev, st', l', d') \<Longrightarrow> serving h core d d'"
  by (auto simp: pump_def intro: pump_byte_serving split: option.splits prod.splits byte_read.splits)

text \<open>
  What one event keeps, the loops keep: a reflexive and transitive relation on link and disk that holds
  across an event and across a written line holds across the serving loop, the handshake and a session.
\<close>

locale link_relation =
  fixes h :: host and core :: seeder_core and R :: "link \<times> disk \<Rightarrow> link \<times> disk \<Rightarrow> bool"
  assumes R_refl: "R x x"
    and R_trans: "R y z \<Longrightarrow> R x y \<Longrightarrow> R x z"
    and R_pump: "pump h core verbose st l d = Inr (ev, st', l', d') \<Longrightarrow> R (l, d) (l', d')"
    and R_write: "write_all l ln = Some l' \<Longrightarrow> R (l, d) (l', d)"
begin

lemma send_R: "R (l, d) (snd (send_console what text l), d)"
  by (auto simp: send_console_def R_refl intro: R_write split: option.splits)

lemma serve_loop_R':
  "serve_loop h0 core0 verbose stop k st l d lines = Inr (lines', l', d') \<Longrightarrow> h0 = h \<Longrightarrow> core0 = core \<Longrightarrow> R (l, d) (l', d')"
proof (induction h0 core0 verbose stop k st l d lines rule: serve_loop.induct)
  case (1 h0 core0 verbose stop k st l d lines)
  obtain ev st1 l1 d1 where p: "pump h0 core0 verbose st l d = Inr (ev, st1, l1, d1)"
    using pump_ok [of h0 core0 verbose st l d] by blast
  have s: "R (l, d) (l1, d1)" using p 1 by (simp add: R_pump)
  consider "stop k" | "\<not> stop k" "ev = LinkClosed" | "\<not> stop k" "ev \<noteq> LinkClosed" by blast
  then show ?case
  proof cases
    case 1
    then show ?thesis using "1.prems" R_refl by (simp add: serve_loop_end)
  next
    case 2
    then show ?thesis using "1.prems"(1) p s by (simp add: serve_loop_end)
  next
    case 3
    have "R (l1, d1) (l', d')"
      by (rule "1.IH" [OF 3(1) p refl refl refl 3(2) _ "1.prems"(2,3)])
        (use "1.prems"(1) in \<open>simp add: serve_loop_step [where stop = stop and k = k, OF 3(1) p 3(2)]\<close>)
    then show ?thesis using s by (rule R_trans)
  qed
qed

lemmas serve_loop_R = serve_loop_R' [OF _ refl refl]

lemma attach_loop_R':
  "attach_loop h0 core0 verbose stop clock policy deadline k attempts retry_at seen st l d lines = Inr (outcome, lines', l', d') \<Longrightarrow>
    h0 = h \<Longrightarrow> core0 = core \<Longrightarrow> R (l, d) (l', d')"
proof (induction h0 core0 verbose stop clock policy deadline k attempts retry_at seen st l d lines rule: attach_loop.induct)
  case (1 h0 core0 verbose stop clock policy deadline k attempts retry_at seen st l d lines)
  obtain ev st1 l1 d1 where p: "pump h0 core0 verbose st l d = Inr (ev, st1, l1, d1)"
    using pump_ok [of h0 core0 verbose st l d] by blast
  have s: "R (l, d) (l1, d1)" using p 1 by (simp add: R_pump)
  let ?seen = "seen \<or> (\<exists>log. ev = SeederFrame log)"
  show ?case
  proof (cases "stop (k + 1) \<or> deadline \<le> clock (2 * k + 1) \<or> ev = LinkClosed \<or> line_verdict ev \<noteq> None")
    case True
    then show ?thesis using "1.prems"(1) p s R_refl
      by (subst (asm) attach_loop.simps) (auto simp: Let_def split: if_splits)
  next
    case False
    then have go: "\<not> stop (k + 1)" "\<not> deadline \<le> clock (2 * k + 1)" "ev \<noteq> LinkClosed" "line_verdict ev = None" by auto
    have "R (l1, d1) (l', d')"
    proof (cases "\<not> ?seen \<and> \<not> pending_m st1 \<and> attempts < max_attempts policy \<and> retry_at \<le> clock (2 * k + 2)")
      case retry: True
      show ?thesis
      proof (cases "send_folder_on l1")
        case (Pair failure l2)
        have w: "R (l1, d1) (l2, d1)"
          using send_R [of l1 d1 "''`ota folder on`''" FOLDER_ON] Pair by (simp add: send_folder_on_def)
        show ?thesis
        proof (cases failure)
          case None
          have "R (l2, d1) (l', d')"
            by (rule "1.IH"(1) [OF go(1,2) p refl refl refl go(3) refl refl go(4) refl retry Pair [symmetric] None _ "1.prems"(2,3)])
              (use "1.prems"(1) go retry p Pair None in \<open>subst (asm) attach_loop.simps, simp add: Let_def\<close>)
          then show ?thesis using w by (rule R_trans)
        next
          case (Some msg)
          then show ?thesis using "1.prems"(1) go retry p Pair w by (subst (asm) attach_loop.simps) (simp add: Let_def)
        qed
      qed
    next
      case wait: False
      show ?thesis
        by (rule "1.IH"(2) [OF go(1,2) p refl refl refl go(3) refl refl go(4) refl wait _ "1.prems"(2,3)])
          (use "1.prems"(1) go wait p in \<open>subst (asm) attach_loop.simps, auto simp: Let_def\<close>)
    qed
    then show ?thesis using s by (rule R_trans)
  qed
qed

lemmas attach_loop_R = attach_loop_R' [OF _ refl refl]

lemma attach_R:
  assumes "attach_serial_folder_with_policy h core verbose stop clock policy l d = Inr (outcome, lines, l', d')"
  shows "R (l, d) (l', d')"
proof (cases "send_folder_on l")
  case (Pair failure l1)
  have "R (l, d) (l1, d)"
    using send_R [of l d "''`ota folder on`''" FOLDER_ON] Pair by (simp add: send_folder_on_def)
  then show ?thesis using assms Pair R_refl
    by (auto simp: attach_serial_folder_with_policy_def intro: R_trans [OF attach_loop_R] split: if_splits option.splits)
qed

lemma detach_R: "R (l, d) (snd (detach_serial_folder l), d)"
  by (simp add: detach_serial_folder_def send_R)

lemma session_R:
  assumes "serve_session h core verbose enable stop clock stop2 l d = Inr (outcome, lines, l', d')"
  shows "R (l, d) (l', d')"
proof -
  obtain res lines1 l1 d1 where a: "(if enable then attach_serial_folder h core verbose stop clock l d else Inr (Attached, [], l, d)) =
      Inr (res, lines1, l1, d1)"
    using assms by (cases "if enable then attach_serial_folder h core verbose stop clock l d else Inr (Attached, [], l, d)")
      (auto simp: serve_session_def)
  have s: "R (l, d) (l1, d1)"
    using a attach_R R_refl by (auto simp: attach_serial_folder_def split: if_splits)
  show ?thesis
  proof (cases res)
    case (Failed msg)
    then have "d' = d1" "l' = snd (detach_serial_folder l1)"
      using assms unfolding serve_session_def a by auto
    then show ?thesis using R_trans [OF detach_R s] by simp
  next
    case Attached
    then obtain lines2 l2 where "serve_loop h core verbose stop2 0 stream_default l1 d1 lines1 = Inr (lines2, l2, d')"
      and "l' = l2 \<or> l' = snd (detach_serial_folder l2)"
      using assms unfolding serve_session_def a by (auto split: if_splits prod.splits)
    then show ?thesis using R_trans [OF serve_loop_R s] R_trans [OF detach_R] by auto
  qed
qed

end

interpretation store_rel: link_relation h core "\<lambda>x y. serving h core (snd x) (snd y)" for h core
  by unfold_locales (auto intro: serving_trans pump_serving)

text \<open>The same for the link: input is consumed in order, output only grows, and a link does not change its health.\<close>

definition link_grows :: "link \<Rightarrow> link \<Rightarrow> bool" where
  "link_grows l l' \<longleftrightarrow> (\<exists>n. l_in l' = drop n (l_in l)) \<and> (\<exists>fs. l_out l' = l_out l @ fs) \<and> l_broken l' = l_broken l"

lemma link_grows_refl: "link_grows l l"
  by (auto simp: link_grows_def intro: exI [of _ 0])

lemma link_grows_trans: "link_grows l1 l2 \<Longrightarrow> link_grows l l1 \<Longrightarrow> link_grows l l2"
  by (auto simp: link_grows_def)

lemma write_grows: "write_all l ln = Some l' \<Longrightarrow> link_grows l l'"
  by (auto simp: link_grows_def write_all_def intro: exI [of _ 0] split: if_splits)

lemma pump_grows: "pump h core verbose st l d = Inr (ev, st', l', d') \<Longrightarrow> link_grows l l'"
  using pump_ok [of h core verbose st l d] by (auto simp: responds_def link_grows_def)

interpretation link_rel: link_relation h core "\<lambda>x y. link_grows (fst x) (fst y)" for h core
  by unfold_locales (auto intro: link_grows_refl link_grows_trans pump_grows write_grows)

text \<open>The serve command, whatever arrives on its link.\<close>

lemma cmd_serve_store:
  fixes e :: host
  assumes "cmd_serve c e h s a stop clock stop2 d = Inr sr"
  shows "sr_disk sr (store_path e [s_dir a] mid False) = d (store_path e [s_dir a] mid False) \<or>
      (\<exists>f. sr_disk sr (store_path e [s_dir a] mid False) = Some f \<and> header_ok f)"
    and "\<not> store_file e [s_dir a] p \<Longrightarrow> sr_disk sr p = d p"
proof -
  obtain motas core l outcome lines l' where core: "seeded_core c h a motas = Inr core"
    and ss: "serve_session e core (s_verbose a) (s_tcp a = None \<and> \<not> s_no_enable a) stop clock stop2 l d = Inr (outcome, lines, l', sr_disk sr)"
    using assms by (auto simp: cmd_serve_def Let_def)
  note s = store_rel.session_R [OF ss, unfolded snd_conv]
  have dir: "c_store_dir core = Some [s_dir a]"
    using core by (auto simp: seeded_core_def seeder_new_def set_seed_def Let_def split: option.splits)
  show "sr_disk sr (store_path e [s_dir a] mid False) = d (store_path e [s_dir a] mid False) \<or>
      (\<exists>f. sr_disk sr (store_path e [s_dir a] mid False) = Some f \<and> header_ok f)"
    by (rule serving_published [OF s])
  show "\<not> store_file e [s_dir a] p \<Longrightarrow> sr_disk sr p = d p"
    by (rule serving_outside [OF s]) (simp add: dir)
qed

section \<open>The capture store as a map of captures\<close>

text \<open>
  What the store promises, without files: every id has at most one capture in progress and at most one
  published one, and a request concerns the id it names.
\<close>

record capture =
  in_progress :: "bytes option"
  published :: "bytes option"

definition staged :: "(bytes \<times> u32) option \<Rightarrow> nat \<Rightarrow> bytes" where
  "staged seed n =
    (let buf = replicate n 0xFF in
     case seed of None \<Rightarrow> buf
     | Some (payload, block_count) \<Rightarrow>
         let off = HEADER_LEN + MFL + unat block_count * 4 in
         if off < n then put off (take (min (length payload) (n - off)) payload) buf else buf)"

definition read_capture :: "nat \<Rightarrow> nat \<Rightarrow> bytes \<Rightarrow> reply" where
  "read_capture off len f =
    (if len = 0 then (STATUS_OK, []) else if off + len \<le> length f then (STATUS_OK, slice off (off + len) f) else (STATUS_ERR, []))"

definition capture_op :: "(bytes \<times> u32) option \<Rightarrow> u8 \<Rightarrow> bytes \<Rightarrow> capture \<Rightarrow> reply \<times> capture" where
  "capture_op seed op args cap =
    (let off = unat (u32_le (slice 4 8 args)); len = unat (u16_le [args ! 8, args ! 9]) in
     if op = OP_STAT then
       ((STATUS_OK, (case published cap of Some f \<Rightarrow> 1 # le_u32 (of_nat (length f))
          | None \<Rightarrow> (case in_progress cap of Some f \<Rightarrow> 1 # le_u32 (of_nat (length f)) | None \<Rightarrow> 0 # le_u32 0))), cap)
     else if op = OP_BEGIN then ((STATUS_OK, []), cap\<lparr>in_progress := Some (staged seed off)\<rparr>)
     else if op = OP_WRITE then
       (case in_progress cap of None \<Rightarrow> ((STATUS_ERR, []), cap)
        | Some f \<Rightarrow> ((STATUS_OK, []), cap\<lparr>in_progress := Some (file_write off (drop 10 args) f)\<rparr>))
     else if op = OP_SREAD then
       ((case in_progress cap of Some f \<Rightarrow> read_capture off len f
         | None \<Rightarrow> (case published cap of Some f \<Rightarrow> read_capture off len f | None \<Rightarrow> (STATUS_ERR, []))), cap)
     else
       (case in_progress cap of None \<Rightarrow> ((STATUS_ERR, []), cap)
        | Some f \<Rightarrow> if header_ok f then ((STATUS_OK, []), \<lparr>in_progress = None, published = Some f\<rparr>)
                   else ((STATUS_ERR, []), cap)))"

fun capture_all :: "(bytes \<times> u32) option \<Rightarrow> (u8 \<times> bytes) list \<Rightarrow> (bytes \<Rightarrow> capture) \<Rightarrow> reply option list \<times> (bytes \<Rightarrow> capture)"
where
  "capture_all seed [] s = ([], s)"
| "capture_all seed ((op, args) # rs) s =
    (let (r, cap) = capture_op seed op args (s (take 4 args));
         (rs', s') = capture_all seed rs (s(take 4 args := cap)) in (Some r # rs', s'))"

definition captures :: "host \<Rightarrow> path \<Rightarrow> disk \<Rightarrow> bytes \<Rightarrow> capture" where
  "captures h dir d mid = \<lparr>in_progress = d (store_path h dir mid True), published = d (store_path h dir mid False)\<rparr>"

section \<open>The files implement the map\<close>

lemma store_path_inject:
  "inj (hex_lower h) \<Longrightarrow> store_path h dir mid part = store_path h dir mid' part' \<longleftrightarrow> mid = mid' \<and> part = part'"
  using part_not_done_any [of h dir mid dir mid'] part_not_done_any [of h dir mid' dir mid]
  by (cases part; cases part') (auto simp: store_path_def dest: injD)

lemma captures_update:
  assumes "inj (hex_lower h)"
  shows "captures h dir (d(store_path h dir mid True := x)) = (captures h dir d)(mid := (captures h dir d mid)\<lparr>in_progress := x\<rparr>)"
    and "captures h dir (d(store_path h dir mid True := x, store_path h dir mid False := y)) =
      (captures h dir d)(mid := \<lparr>in_progress = x, published = y\<rparr>)"
  by (auto simp: captures_def fun_eq_iff store_path_inject [OF assms])

lemma begin_part_staged: "begin_part h core d part n = write_file h d part (staged (c_seed core) (unat n))"
  by (simp add: begin_part_def staged_def Let_def split: option.splits)

lemma publish_eq:
  "storage_ok h \<Longrightarrow> publish h d part fin = (case d part of None \<Rightarrow> (False, d)
    | Some f \<Rightarrow> if header_ok f then (True, d(part := None, fin \<mapsto> f)) else (False, d))"
  by (auto simp: publish_def header_ok_def storage_ok_def split: option.splits)

lemma read_at_capture:
  "storage_ok h \<Longrightarrow> (case read_at h d p off len of Some buf \<Rightarrow> (STATUS_OK, buf) | None \<Rightarrow> (STATUS_ERR, [])) =
    (case d p of None \<Rightarrow> (STATUS_ERR, []) | Some f \<Rightarrow> read_capture off len f)"
  by (simp add: read_at_def read_capture_def storage_ok_def split: option.splits)

lemma storage_refines:
  assumes "inj (hex_lower h)" and "c_store_dir core = Some dir" and "request_ok op args"
    and "op \<in> {OP_STAT, OP_BEGIN, OP_WRITE, OP_SREAD, OP_FIN}" and "storage_ok h"
  shows "\<exists>d'. handle_storage h core d op args =
      Inr (fst (capture_op (c_seed core) op args (captures h dir d (take 4 args))), d') \<and>
    captures h dir d' = (captures h dir d)(take 4 args := snd (capture_op (c_seed core) op args (captures h dir d (take 4 args))))"
proof -
  let ?mid = "take 4 args"
  let ?part = "store_path h dir ?mid True" and ?done = "store_path h dir ?mid False"
  note l = request_lengths [OF assms(3)]
  note up = captures_update [OF assms(1), where d = d and mid = "?mid"]
  have c: "in_progress (captures h dir d ?mid) = d ?part" "published (captures h dir d ?mid) = d ?done"
    by (simp_all add: captures_def)
  have r4: "rng args 0 4 = Inr ?mid" if "4 \<le> length args" using that by (simp add: rng_def slice_def)
  have r8: "rd_u32 args 4 = Inr (u32_le (slice 4 8 args))" if "8 \<le> length args" using that by (simp add: rd_u32_ok)
  have r10: "idx args 8 = Inr (args ! 8)" "idx args 9 = Inr (args ! 9)" if "10 \<le> length args" using that by (simp_all add: idx_def)
  have same: "captures h dir d = (captures h dir d)(?mid := captures h dir d ?mid)" by simp
  from assms(4) consider "op = OP_STAT" | "op = OP_BEGIN" | "op = OP_WRITE" | "op = OP_SREAD" | "op = OP_FIN" by auto
  then show ?thesis
  proof cases
    case 1
    have "4 \<le> length args" using l(3) [OF 1] by simp
    then show ?thesis
      by (auto simp: handle_storage_def assms(2) r4 1 request_lens capture_op_def c Let_def split: option.splits)
  next
    case 2
    have "8 \<le> length args" "4 \<le> length args" using l(5) [OF 2] by simp_all
    then show ?thesis
      by (simp add: handle_storage_def assms(2) r4 r8 2 request_lens capture_op_def begin_part_staged write_file_ok [OF assms(5)] up(1))
  next
    case 3
    let ?len = "unat (u16_le [args ! 8, args ! 9])"
    have n: "length args = 10 + ?len" using l(8) [OF 3] .
    then have n': "10 \<le> length args" "8 \<le> length args" "4 \<le> length args" by simp_all
    have "slice 10 (10 + ?len) args = drop 10 args" using n by (simp add: slice_def)
    then show ?thesis
      using n n' by (cases "d ?part")
        (simp_all add: handle_storage_def assms(2) r4 r8 r10 3 request_lens capture_op_def write_at_def write_file_ok [OF assms(5)] c up(1) Let_def)
  next
    case 4
    have "10 \<le> length args" "8 \<le> length args" "4 \<le> length args" using l(6) [OF 4] by simp_all
    note n = this
    have x: "(case r of None \<Rightarrow> Inr ((STATUS_ERR, []), d) | Some buf \<Rightarrow> Inr ((STATUS_OK, buf), d)) =
      (Inr (case r of Some buf \<Rightarrow> (STATUS_OK, buf) | None \<Rightarrow> (STATUS_ERR, []), d) :: (reply \<times> disk) result)" for r
      by (cases r) simp_all
    show ?thesis
      using n by (cases "d ?part")
        (simp_all add: handle_storage_def assms(2) r4 r8 r10 4 capture_op_def c x read_at_capture [OF assms(5)] Let_def,
         simp_all add: request_lens)
  next
    case 5
    have "4 \<le> length args" using l(4) [OF 5] by simp
    then show ?thesis
      by (cases "d ?part")
        (simp_all add: handle_storage_def assms(2) r4 5 request_lens capture_op_def publish_eq [OF assms(5)] c up(2) Let_def)
  qed
qed

definition storage_request :: "u8 \<Rightarrow> bytes \<Rightarrow> bool" where
  "storage_request op args \<longleftrightarrow> request_ok op args \<and> op \<in> {OP_STAT, OP_BEGIN, OP_WRITE, OP_SREAD, OP_FIN}"

lemma store_refines_captures:
  assumes "inj (hex_lower h)" and "c_store_dir core = Some dir" and "storage_ok h"
  shows "\<forall>(op, args) \<in> set rs. storage_request op args \<Longrightarrow>
    \<exists>d'. handle_all h core d rs = Inr (fst (capture_all (c_seed core) rs (captures h dir d)), d') \<and>
      captures h dir d' = snd (capture_all (c_seed core) rs (captures h dir d))"
proof (induction rs arbitrary: d)
  case (Cons x rs)
  obtain op args where x: "x = (op, args)" by (cases x)
  let ?seed = "c_seed core"
  obtain r cap where oc: "capture_op ?seed op args (captures h dir d (take 4 args)) = (r, cap)" by fastforce
  from Cons.prems have q: "request_ok op args" "op \<in> {OP_STAT, OP_BEGIN, OP_WRITE, OP_SREAD, OP_FIN}"
    by (simp_all add: x storage_request_def)
  obtain d1 where s: "handle_storage h core d op args = Inr (r, d1)"
    and c1: "captures h dir d1 = (captures h dir d)(take 4 args := cap)"
    using storage_refines [OF assms(1,2) q assms(3), of d] by (auto simp: oc)
  have hd: "handle h core d op args = Inr (Some r, d1)" using s q(2) by (simp add: storage_ops)
  obtain d' where "handle_all h core d1 rs = Inr (fst (capture_all ?seed rs (captures h dir d1)), d')"
    "captures h dir d' = snd (capture_all ?seed rs (captures h dir d1))"
    using Cons.IH [of d1] Cons.prems by auto
  then show ?case by (simp add: x hd oc c1 split: prod.splits)
qed simp

end
