(* ===== verification/Mota_Main.thy ===== *)
theory Mota_Main
  imports Mota_Store
begin

text \<open>
  \<open>main\<close> of \<open>src/main.rs\<close>: the dispatch of a parsed command line to its command, and the exit code.
\<close>

section \<open>The program\<close>

datatype command =
    Build build_args
  | BuildBootloader bootloader_args
  | Verify "bytes list" "bytes option"
  | Inspect bytes
  | Keygen "bytes option"
  | Serve serve_args
  | TransportSize bytes nat

text \<open>The exit code of a result: \<open>True\<close> for \<open>SUCCESS\<close>; a panic stays one.\<close>

definition exit_code :: "'a result \<Rightarrow> bool result" where
  "exit_code r = (case r of Inr _ \<Rightarrow> Inr True | Inl (Bail _) \<Rightarrow> Inr False | Inl Panic \<Rightarrow> Inl Panic)"

text \<open>Everything outside the program: encoders, the links and the walk of a folder, the clock, the stop flags, a seed.\<close>

record world =
  w_encoders :: host
  w_serve :: serve_host
  w_rand :: bytes
  w_stop :: "nat \<Rightarrow> bool"
  w_clock :: "nat \<Rightarrow> nat"
  w_stop2 :: "nat \<Rightarrow> bool"

definition run_main :: "bool \<Rightarrow> crypto \<Rightarrow> world \<Rightarrow> command \<Rightarrow> cli_host \<Rightarrow> disk \<Rightarrow> bool result \<times> cli_host \<times> disk" where
  "run_main checks c w cmd h d =
    (case cmd of
       Build a \<Rightarrow> (case cmd_build checks c h a of (r, h') \<Rightarrow> (exit_code r, h', d))
     | BuildBootloader a \<Rightarrow> (case cmd_build_bootloader c h a of (r, h') \<Rightarrow> (exit_code r, h', d))
     | Verify files pub_key \<Rightarrow> (bindr (cmd_verify c h pub_key files) (\<lambda>(success, _). Inr success), h, d)
     | Inspect path \<Rightarrow> (exit_code (cmd_inspect c h path), h, d)
     | Keygen out \<Rightarrow> (case cmd_keygen c (w_rand w) h out of (r, h') \<Rightarrow> (exit_code r, h', d))
     | Serve a \<Rightarrow>
         (case cmd_serve c (w_encoders w) h (w_serve w) a (w_stop w) (w_clock w) (w_stop2 w) d of
            Inl e \<Rightarrow> (exit_code (Inl e :: unit result), h, d)
          | Inr sr \<Rightarrow> (Inr (sr_outcome sr = None), h, sr_disk sr))
     | TransportSize payload bs \<Rightarrow> (exit_code (cmd_transport_size (w_encoders w) h payload bs), h, d))"

lemma exit_code_panic [simp]: "exit_code r = Inl Panic \<longleftrightarrow> r = Inl Panic"
  by (auto simp: exit_code_def split: sum.splits err.splits)

lemma exit_code_success [simp]: "exit_code r = Inr True \<longleftrightarrow> is_ok r"
  by (auto simp: exit_code_def is_ok_def split: sum.splits err.splits)

lemma pack_version_no_panic: "pack_version s \<noteq> Inl Panic"
proof -
  have "pack_loop toks parts n \<noteq> Inl Panic" for toks parts n
    by (induction toks parts n rule: pack_loop.induct) auto
  then show ?thesis by (auto simp: pack_version_def bindr_Panic split: prod.splits)
qed

lemma parse_u32_auto_no_panic: "parse_u32_auto s \<noteq> Inl Panic"
  by (simp add: parse_u32_auto_def Let_def)

lemma transpose_no_panic: "(\<And>x. f x \<noteq> Inl Panic) \<Longrightarrow> transpose_opt f v \<noteq> Inl Panic"
  by (cases v) (simp_all add: bindr_Panic)

text \<open>
  The conditions on the inputs under which no command panics: the \<open>ihex\<close> crate returns records of at most 255
  bytes (the length field is a byte), and no file or download named \<open>.hex\<close> has a data record that reaches the end
  of the address space.
\<close>

definition inputs_ok :: "cli_host \<Rightarrow> bool" where
  "inputs_ok h \<longleftrightarrow> (\<forall>bs. short_records (hex_reader (inputs h) bs)) \<and> hex_sources_fit (inputs h)"

lemma inputs_ok_read: "inputs_ok h \<Longrightarrow> read_input checks (inputs h) src \<noteq> Inl Panic"
  by (simp add: inputs_ok_def read_input_no_panic)

lemma build_opts_no_panic: "inputs_ok h \<Longrightarrow> build_opts_of checks c h a \<noteq> Inl Panic"
  unfolding build_opts_of_def bindr_Panic
  by (auto simp: inputs_ok_read bindr_Panic transpose_no_panic parse_u32_auto_no_panic pack_version_no_panic load_key32_no_panic
      split: option.splits)

lemma cmd_build_no_panic:
  assumes "crypto_ok c" and "inputs_ok h"
  shows "fst (cmd_build checks c h a) \<noteq> Inl Panic"
proof -
  have "bindr (build_opts_of checks c h a) (build c) \<noteq> Inl Panic"
    using build_opts_no_panic [OF assms(2)] build_no_panic by (auto simp: bindr_Panic)
  note n = this
  show ?thesis
  proof (cases "bindr (build_opts_of checks c h a) (build c)")
    case (Inl e)
    then show ?thesis using n unfolding cmd_build_eq [OF assms(1)] by simp
  next
    case (Inr b)
    show ?thesis unfolding cmd_build_eq [OF assms(1)] unfolding Inr by (simp add: Let_def)
  qed
qed

lemma bootloader_input_no_panic:
  assumes "crypto_ok c" and "inputs_ok h"
  shows "bootloader_input c h a \<noteq> Inl Panic"
proof -
  have i: "read_bootloader_hex (inputs h) src \<noteq> Inl Panic" for src
    using assms(2) read_bootloader_no_panic by (simp add: inputs_ok_def)
  have b: "build_bootloader c opts \<noteq> Inl Panic" for opts
    using profile_no_panic by (auto simp: build_bootloader_eq [OF assms(1)] bindr_Panic)
  have v: "assert_version s v \<noteq> Inl Panic" for s v
    by (auto simp: assert_version_def bindr_Panic pack_version_no_panic split: option.splits)
  show ?thesis
    using i b v load_key32_no_panic by (auto simp: bootloader_input_def bindr_Panic split: prod.splits)
qed

lemma cmd_build_bootloader_no_panic:
  assumes "crypto_ok c" and "inputs_ok h"
  shows "fst (cmd_build_bootloader c h a) \<noteq> Inl Panic"
proof (cases "bootloader_input c h a")
  case (Inl e)
  then show ?thesis using bootloader_input_no_panic [OF assms, of a]
    unfolding cmd_build_bootloader_eq [OF assms(1)] by auto
next
  case (Inr b)
  obtain opts where "build_bootloader c opts = Inr b" using bootloader_input_built [OF Inr] by blast
  from bootloader_summary_ok [OF assms(1) this, of a] show ?thesis
    unfolding cmd_build_bootloader_eq [OF assms(1)] Inr
    by (auto simp: Let_def split: if_splits) (metis sum.distinct(1))
qed

lemma run_main_no_panic:
  assumes "crypto_ok c" and "inputs_ok h" and "\<And>a. cmd = Serve a \<Longrightarrow> s_tcp a \<noteq> None \<or> s_serial a \<noteq> None"
  shows "fst (run_main checks c w cmd h d) \<noteq> Inl Panic"
proof (cases cmd)
  case (Build a)
  then show ?thesis using cmd_build_no_panic [OF assms(1,2), of checks a]
    by (cases "cmd_build checks c h a") (simp add: run_main_def)
next
  case (BuildBootloader a)
  then show ?thesis using cmd_build_bootloader_no_panic [OF assms(1,2), of a]
    by (cases "cmd_build_bootloader c h a") (simp add: run_main_def)
next
  case (Verify fs pub)
  then show ?thesis using cmd_verify_total [of c h pub fs] by (auto simp: run_main_def)
next
  case (Inspect p)
  then show ?thesis using cmd_inspect_no_panic by (simp add: run_main_def)
next
  case (Keygen out)
  have "fst (cmd_keygen c (w_rand w) h out) \<noteq> Inl Panic"
    by (cases out) (simp_all add: cmd_keygen_eq, simp add: cmd_keygen_def ed25519_keygen_def Let_def)
  then show ?thesis by (cases "cmd_keygen c (w_rand w) h out") (simp add: Keygen run_main_def)
next
  case (Serve a)
  then show ?thesis using cmd_serve_no_panic [OF assms(3) [OF Serve]]
    by (auto simp: run_main_def split: sum.splits)
next
  case (TransportSize p bs)
  have "cmd_transport_size (w_encoders w) h p bs \<noteq> Inl Panic"
    using transport_no_panic by (auto simp: cmd_transport_size_def bindr_Panic)
  then show ?thesis by (simp add: TransportSize run_main_def)
qed

text \<open>Every result but a panic is an exit code.\<close>

lemma exit_code_total: "exit_code r = Inl Panic \<or> (\<exists>success. exit_code r = Inr success)"
  by (auto simp: exit_code_def split: sum.splits err.splits)

lemma run_main_code: "run_main checks c w cmd h d = (r, h', d') \<Longrightarrow> r = Inl Panic \<or> (\<exists>success. r = Inr success)"
proof (cases cmd)
  case (Verify fs pub)
  then show "run_main checks c w cmd h d = (r, h', d') \<Longrightarrow> ?thesis"
    using cmd_verify_total [of c h pub fs] by (auto simp: run_main_def)
qed (use exit_code_total in \<open>fastforce simp: run_main_def split: prod.splits sum.splits\<close>)+

end
