(* ===== verification/Mota_Args.thy ===== *)
theory Mota_Args
  imports Mota_Main
begin

text \<open>
  The command line of \<open>src/main.rs\<close>: the arguments its structs declare to the \<open>clap\<close> crate, the command
  that is read out of the values given, and the program from \<open>argv\<close> to its exit code. Splitting \<open>argv\<close>
  and enforcing the declarations is the crate's work; it is a parameter, with what its documentation says of
  \<open>required\<close>, \<open>required_unless_present\<close>, \<open>requires\<close> and \<open>conflicts_with\<close> as the law \<open>clap_ok\<close>.
\<close>

section \<open>Declared arguments\<close>

datatype arg_form = Valued | Switch | Single | Many

text \<open>The identifier is the name of the field; a positional argument has no long name.\<close>

record arg_spec =
  ar_id :: string
  ar_form :: arg_form
  ar_long :: string
  ar_short :: "char option"
  ar_required :: bool
  ar_default :: "bytes option"
  ar_conflicts :: "string list"
  ar_requires :: "string list"
  ar_unless :: "string list"

definition an_arg :: "arg_form \<Rightarrow> string \<Rightarrow> string \<Rightarrow> arg_spec" where
  "an_arg form ident name =
    \<lparr>ar_id = ident, ar_form = form, ar_long = name, ar_short = None, ar_required = False, ar_default = None,
     ar_conflicts = [], ar_requires = [], ar_unless = []\<rparr>"

definition BUILD_BOOTLOADER_ARGS :: "arg_spec list" where
  "BUILD_BOOTLOADER_ARGS =
    [(an_arg Valued ''fw'' ''fw'')\<lparr>ar_required := True\<rparr>,
     (an_arg Valued ''board'' ''board'')\<lparr>ar_required := True\<rparr>,
     (an_arg Valued ''sign'' ''sign'')\<lparr>ar_required := True\<rparr>,
     an_arg Valued ''fw_version'' ''fw-version'',
     (an_arg Valued ''out_dir'' ''out-dir'')\<lparr>ar_default := Some (ascii ''.'')\<rparr>,
     an_arg Valued ''out'' ''out'']"

definition BUILD_ARGS :: "arg_spec list" where
  "BUILD_ARGS =
    [(an_arg Valued ''fw'' ''fw'')\<lparr>ar_required := True\<rparr>,
     an_arg Valued ''base'' ''base'',
     (an_arg Valued ''patch_type'' ''patch-type'')\<lparr>ar_default := Some (ascii ''sequential'')\<rparr>,
     an_arg Valued ''inplace_memory'' ''inplace-memory'',
     (an_arg Valued ''segment_size'' ''segment-size'')\<lparr>ar_default := Some (dec 4096)\<rparr>,
     (an_arg Valued ''target_env'' ''target-env'')\<lparr>ar_conflicts := [''target_id'']\<rparr>,
     an_arg Valued ''target_id'' ''target-id'',
     an_arg Valued ''fw_version'' ''fw-version'',
     an_arg Valued ''hw_id'' ''hw-id'',
     an_arg Valued ''sign'' ''sign'',
     (an_arg Valued ''block_size'' ''block-size'')\<lparr>ar_default := Some (dec (unat DEFAULT_BLOCK_SIZE))\<rparr>,
     an_arg Switch ''force'' ''force'',
     (an_arg Valued ''out_dir'' ''out-dir'')\<lparr>ar_default := Some (ascii ''.'')\<rparr>,
     an_arg Valued ''out'' ''out'']"

definition VERIFY_ARGS :: "arg_spec list" where
  "VERIFY_ARGS = [(an_arg Many ''files'' [])\<lparr>ar_required := True\<rparr>, an_arg Valued ''pub_key'' ''pub'']"

definition INSPECT_ARGS :: "arg_spec list" where
  "INSPECT_ARGS = [(an_arg Single ''file'' [])\<lparr>ar_required := True\<rparr>]"

definition KEYGEN_ARGS :: "arg_spec list" where
  "KEYGEN_ARGS = [an_arg Valued ''out'' ''out'']"

definition SERVE_ARGS :: "arg_spec list" where
  "SERVE_ARGS =
    [(an_arg Valued ''dir'' ''dir'')\<lparr>ar_required := True\<rparr>,
     (an_arg Valued ''serial'' ''serial'')\<lparr>ar_unless := [''tcp''], ar_conflicts := [''tcp'']\<rparr>,
     an_arg Valued ''tcp'' ''tcp'',
     (an_arg Valued ''baud'' ''baud'')\<lparr>ar_default := Some (dec 115200)\<rparr>,
     an_arg Switch ''no_recursive'' ''no-recursive'',
     an_arg Switch ''no_enable'' ''no-enable'',
     (an_arg Valued ''tempradio'' ''tempradio'')\<lparr>ar_requires := [''serial'']\<rparr>,
     (an_arg Switch ''_companion_terminal'' ''companion-terminal'')\<lparr>ar_requires := [''serial'']\<rparr>,
     an_arg Valued ''seed'' ''seed'',
     (an_arg Switch ''verbose'' ''verbose'')\<lparr>ar_short := Some (CHR ''v'')\<rparr>]"

definition TRANSPORT_SIZE_ARGS :: "arg_spec list" where
  "TRANSPORT_SIZE_ARGS =
    [(an_arg Valued ''payload'' ''payload'')\<lparr>ar_required := True\<rparr>,
     (an_arg Valued ''block_size'' ''block-size'')\<lparr>ar_default := Some (dec (unat DEFAULT_BLOCK_SIZE))\<rparr>]"

definition SUBCOMMANDS :: "(string \<times> arg_spec list) list" where
  "SUBCOMMANDS =
    [(''build'', BUILD_ARGS), (''build-bootloader'', BUILD_BOOTLOADER_ARGS), (''verify'', VERIFY_ARGS),
     (''inspect'', INSPECT_ARGS), (''keygen'', KEYGEN_ARGS), (''serve'', SERVE_ARGS),
     (''transport-size'', TRANSPORT_SIZE_ARGS)]"

section \<open>What the crate lets through\<close>

text \<open>The values given on the command line, by identifier; a switch that is given has one value.\<close>

type_synonym matches = "string \<Rightarrow> bytes list"

definition given :: "matches \<Rightarrow> string \<Rightarrow> bool" where
  "given m ident \<longleftrightarrow> m ident \<noteq> []"

text \<open>A conflict counts in both directions.\<close>

definition conflicting :: "arg_spec list \<Rightarrow> matches \<Rightarrow> string \<Rightarrow> bool" where
  "conflicting specs m ident \<longleftrightarrow>
    list_ex (\<lambda>s. (ar_id s = ident \<and> list_ex (given m) (ar_conflicts s)) \<or>
                 (given m (ar_id s) \<and> ident \<in> set (ar_conflicts s))) specs"

definition needed :: "arg_spec list \<Rightarrow> matches \<Rightarrow> arg_spec \<Rightarrow> bool" where
  "needed specs m s \<longleftrightarrow>
    ar_required s \<or> (ar_unless s \<noteq> [] \<and> \<not> list_ex (given m) (ar_unless s)) \<or>
    list_ex (\<lambda>r. given m (ar_id r) \<and> ar_id s \<in> set (ar_requires r)) specs"

text \<open>As documented: conflicting arguments exclude each other, and a conflict takes precedence over being required.\<close>

definition admitted :: "arg_spec list \<Rightarrow> matches \<Rightarrow> bool" where
  "admitted specs m \<longleftrightarrow>
    list_all (\<lambda>s. (given m (ar_id s) \<longrightarrow> \<not> conflicting specs m (ar_id s)) \<and>
                  (needed specs m s \<longrightarrow> given m (ar_id s) \<or> conflicting specs m (ar_id s)) \<and>
                  (ar_form s \<noteq> Many \<longrightarrow> length (m (ar_id s)) \<le> 1)) specs"

text \<open>
  The crate: \<open>argv\<close> gives a subcommand with its values, or ends the program (\<open>True\<close> after a help or version
  request, \<open>False\<close> after a usage error); and the value parsers of \<open>u32\<close> and \<open>usize\<close>.
\<close>

record clap =
  cl_matches :: "(string \<times> arg_spec list) list \<Rightarrow> bytes list \<Rightarrow> bool + string \<times> matches"
  cl_u32 :: "bytes \<Rightarrow> u32 option"
  cl_usize :: "bytes \<Rightarrow> nat option"

definition clap_ok :: "clap \<Rightarrow> bool" where
  "clap_ok cl \<longleftrightarrow>
    (\<forall>cmds argv name m. cl_matches cl cmds argv = Inr (name, m) \<longrightarrow>
       (\<exists>specs. map_of cmds name = Some specs \<and> admitted specs m)) \<and>
    (\<forall>n < 2 ^ 32. cl_u32 cl (dec n) = Some (of_nat n) \<and> cl_usize cl (dec n) = Some n)"

section \<open>The command that is read\<close>

definition default_of :: "arg_spec list \<Rightarrow> string \<Rightarrow> bytes option" where
  "default_of specs ident = Option.bind (List.find (\<lambda>s. ar_id s = ident) specs) ar_default"

definition arg_value :: "arg_spec list \<Rightarrow> matches \<Rightarrow> string \<Rightarrow> bytes option" where
  "arg_value specs m ident = (case m ident of v # _ \<Rightarrow> Some v | [] \<Rightarrow> default_of specs ident)"

definition text_value :: "bytes \<Rightarrow> bytes result" where
  "text_value v = ensure (utf8_ok v) ''invalid UTF-8'' (Inr v)"

definition required_value :: "arg_spec list \<Rightarrow> matches \<Rightarrow> string \<Rightarrow> bytes result" where
  "required_value specs m ident = of_opt ''missing argument'' (arg_value specs m ident)"

definition text_arg :: "arg_spec list \<Rightarrow> matches \<Rightarrow> string \<Rightarrow> bytes result" where
  "text_arg specs m ident = bindr (required_value specs m ident) text_value"

definition opt_arg :: "arg_spec list \<Rightarrow> matches \<Rightarrow> string \<Rightarrow> bytes option result" where
  "opt_arg specs m ident = transpose_opt text_value (arg_value specs m ident)"

definition typed_arg :: "(bytes \<Rightarrow> 'a option) \<Rightarrow> arg_spec list \<Rightarrow> matches \<Rightarrow> string \<Rightarrow> 'a result" where
  "typed_arg parser specs m ident =
    bindr (required_value specs m ident) (\<lambda>v. of_opt ''invalid value'' (parser v))"

fun texts :: "bytes list \<Rightarrow> bytes list result" where
  "texts [] = Inr []"
| "texts (v # vs) = bindr (text_value v) (\<lambda>x. bindr (texts vs) (\<lambda>xs. Inr (x # xs)))"

text \<open>The names of the value enums, with the aliases of the two XIAO boards.\<close>

fun value_aliases :: "cli_bootloader_board \<Rightarrow> string list" where
  "value_aliases CliXiaoNrf52840Ble = [''xiao-nrf52840-ble'']"
| "value_aliases CliXiaoNrf52840BleSense = [''xiao-nrf52840-ble-sense'']"
| "value_aliases _ = []"

definition board_named :: "bytes \<Rightarrow> cli_bootloader_board option" where
  "board_named v = List.find (\<lambda>b. v \<in> set (map ascii (value_name b # value_aliases b))) all_names"

definition patch_type_named :: "bytes \<Rightarrow> cli_patch_type option" where
  "patch_type_named v =
    (if v = ascii ''sequential'' then Some CliSequential
     else if v = ascii ''in-place'' then Some CliInPlace else None)"

definition build_args_of :: "clap \<Rightarrow> matches \<Rightarrow> build_args result" where
  "build_args_of cl m =
    (let specs = BUILD_ARGS in
     bindr (text_arg specs m ''fw'') (\<lambda>fw.
     bindr (opt_arg specs m ''base'') (\<lambda>base.
     bindr (typed_arg patch_type_named specs m ''patch_type'') (\<lambda>patch.
     bindr (opt_arg specs m ''inplace_memory'') (\<lambda>memory.
     bindr (typed_arg (cl_u32 cl) specs m ''segment_size'') (\<lambda>segment.
     bindr (opt_arg specs m ''target_env'') (\<lambda>env.
     bindr (opt_arg specs m ''target_id'') (\<lambda>tid.
     bindr (opt_arg specs m ''fw_version'') (\<lambda>version.
     bindr (opt_arg specs m ''hw_id'') (\<lambda>hw.
     bindr (opt_arg specs m ''sign'') (\<lambda>sign.
     bindr (typed_arg (cl_u32 cl) specs m ''block_size'') (\<lambda>bs.
     bindr (text_arg specs m ''out_dir'') (\<lambda>out_dir.
     bindr (opt_arg specs m ''out'') (\<lambda>out.
     Inr \<lparr>a_fw = fw, a_base = base, a_patch_type = patch, a_inplace_memory = memory, a_segment_size = segment,
          a_target_env = env, a_target_id = tid, a_fw_version = version, a_hw_id = hw, a_sign = sign,
          a_block_size = bs, a_force = given m ''force'', a_out_dir = out_dir, a_out = out\<rparr>))))))))))))))"

definition bootloader_args_of :: "matches \<Rightarrow> bootloader_args result" where
  "bootloader_args_of m =
    (let specs = BUILD_BOOTLOADER_ARGS in
     bindr (text_arg specs m ''fw'') (\<lambda>fw.
     bindr (typed_arg board_named specs m ''board'') (\<lambda>board.
     bindr (text_arg specs m ''sign'') (\<lambda>sign.
     bindr (opt_arg specs m ''fw_version'') (\<lambda>version.
     bindr (text_arg specs m ''out_dir'') (\<lambda>out_dir.
     bindr (opt_arg specs m ''out'') (\<lambda>out.
     Inr \<lparr>b_fw = fw, b_board = board, b_sign = sign, b_fw_version = version, b_out_dir = out_dir, b_out = out\<rparr>)))))))"

definition serve_args_of :: "clap \<Rightarrow> matches \<Rightarrow> serve_args result" where
  "serve_args_of cl m =
    (let specs = SERVE_ARGS in
     bindr (text_arg specs m ''dir'') (\<lambda>dir.
     bindr (opt_arg specs m ''serial'') (\<lambda>serial.
     bindr (opt_arg specs m ''tcp'') (\<lambda>tcp.
     bindr (typed_arg (cl_u32 cl) specs m ''baud'') (\<lambda>baud.
     bindr (opt_arg specs m ''tempradio'') (\<lambda>radio.
     bindr (opt_arg specs m ''seed'') (\<lambda>seed.
     Inr \<lparr>s_dir = dir, s_serial = serial, s_tcp = tcp, s_baud = baud, s_no_recursive = given m ''no_recursive'',
          s_no_enable = given m ''no_enable'', s_tempradio = radio, s_seed = seed, s_verbose = given m ''verbose''\<rparr>)))))))"

definition command_of :: "clap \<Rightarrow> string \<Rightarrow> matches \<Rightarrow> command result" where
  "command_of cl name m =
    (if name = ''build'' then bindr (build_args_of cl m) (\<lambda>a. Inr (Build a))
     else if name = ''build-bootloader'' then bindr (bootloader_args_of m) (\<lambda>a. Inr (BuildBootloader a))
     else if name = ''verify'' then
       bindr (texts (m ''files'')) (\<lambda>files. bindr (opt_arg VERIFY_ARGS m ''pub_key'') (\<lambda>pub. Inr (Verify files pub)))
     else if name = ''inspect'' then bindr (text_arg INSPECT_ARGS m ''file'') (\<lambda>file. Inr (Inspect file))
     else if name = ''keygen'' then bindr (opt_arg KEYGEN_ARGS m ''out'') (\<lambda>out. Inr (Keygen out))
     else if name = ''serve'' then bindr (serve_args_of cl m) (\<lambda>a. Inr (Serve a))
     else if name = ''transport-size'' then
       bindr (required_value TRANSPORT_SIZE_ARGS m ''payload'') (\<lambda>payload.
       bindr (typed_arg (cl_usize cl) TRANSPORT_SIZE_ARGS m ''block_size'') (\<lambda>bs. Inr (TransportSize payload bs)))
     else Inl (Bail ''unrecognized subcommand''))"

text \<open>The program. A usage error exits without success and touches nothing.\<close>

definition program ::
  "bool \<Rightarrow> crypto \<Rightarrow> clap \<Rightarrow> world \<Rightarrow> bytes list \<Rightarrow> cli_host \<Rightarrow> disk \<Rightarrow> bool result \<times> cli_host \<times> disk"
where
  "program checks c cl w argv h d =
    (case cl_matches cl SUBCOMMANDS argv of
       Inl success \<Rightarrow> (Inr success, h, d)
     | Inr (name, m) \<Rightarrow>
         case command_of cl name m of
           Inl e \<Rightarrow> (exit_code (Inl e :: unit result), h, d)
         | Inr cmd \<Rightarrow> run_main checks c w cmd h d)"

section \<open>Reading never panics\<close>

lemma arg_no_panic [simp]:
  "required_value specs m i \<noteq> Inl Panic" "text_value v \<noteq> Inl Panic" "text_arg specs m i \<noteq> Inl Panic"
  "opt_arg specs m i \<noteq> Inl Panic" "typed_arg p specs m i \<noteq> Inl Panic"
  by (auto simp: required_value_def text_value_def text_arg_def opt_arg_def typed_arg_def bindr_Panic transpose_no_panic)

lemma texts_no_panic [simp]: "texts vs \<noteq> Inl Panic"
  by (induction vs) (auto simp: bindr_Panic)

lemma command_of_no_panic: "command_of cl name m \<noteq> Inl Panic"
  by (simp add: command_of_def build_args_of_def bootloader_args_of_def serve_args_of_def Let_def bindr_Panic)

section \<open>The constraints of the declarations\<close>

lemma arg_value_given: "given m i \<Longrightarrow> arg_value specs m i = Some (hd (m i)) \<and> hd (m i) \<in> set (m i)"
  by (cases "m i") (simp_all add: given_def arg_value_def)

lemma arg_value_absent: "\<not> given m i \<Longrightarrow> arg_value specs m i = default_of specs i"
  by (simp add: given_def arg_value_def)

lemma opt_arg_Inr: "opt_arg specs m i = Inr v \<longleftrightarrow> v = arg_value specs m i \<and> (\<forall>t. v = Some t \<longrightarrow> utf8_ok t)"
  by (cases "arg_value specs m i") (auto simp: opt_arg_def text_value_def)

lemma opt_arg_given: "opt_arg specs m i = Inr v \<Longrightarrow> default_of specs i = None \<Longrightarrow> v \<noteq> None \<longleftrightarrow> given m i"
  by (cases "given m i") (simp_all add: opt_arg_Inr arg_value_given arg_value_absent)

lemmas arg_tables = BUILD_ARGS_def BUILD_BOOTLOADER_ARGS_def SERVE_ARGS_def VERIFY_ARGS_def INSPECT_ARGS_def
  KEYGEN_ARGS_def TRANSPORT_SIZE_ARGS_def an_arg_def

lemma defaults:
  "default_of BUILD_ARGS ''patch_type'' = Some (ascii ''sequential'')" "default_of BUILD_ARGS ''segment_size'' = Some (dec 4096)"
  "default_of BUILD_ARGS ''block_size'' = Some (dec 2048)" "default_of BUILD_ARGS ''out_dir'' = Some (ascii ''.'')"
  "default_of BUILD_BOOTLOADER_ARGS ''out_dir'' = Some (ascii ''.'')" "default_of SERVE_ARGS ''baud'' = Some (dec 115200)"
  "default_of TRANSPORT_SIZE_ARGS ''block_size'' = Some (dec 2048)"
  by (simp_all add: default_of_def arg_tables mota_const)

lemma no_defaults:
  "default_of SERVE_ARGS ''serial'' = None" "default_of SERVE_ARGS ''tcp'' = None" "default_of SERVE_ARGS ''tempradio'' = None"
  "default_of SERVE_ARGS ''seed'' = None" "default_of BUILD_ARGS ''target_env'' = None" "default_of BUILD_ARGS ''target_id'' = None"
  "default_of BUILD_ARGS ''base'' = None" "default_of BUILD_ARGS ''inplace_memory'' = None" "default_of BUILD_ARGS ''fw_version'' = None"
  "default_of BUILD_ARGS ''hw_id'' = None" "default_of BUILD_ARGS ''sign'' = None" "default_of BUILD_ARGS ''out'' = None"
  "default_of BUILD_BOOTLOADER_ARGS ''fw_version'' = None" "default_of BUILD_BOOTLOADER_ARGS ''out'' = None"
  "default_of VERIFY_ARGS ''pub_key'' = None" "default_of KEYGEN_ARGS ''out'' = None"
  by (simp_all add: default_of_def arg_tables)

lemma admittedD:
  assumes "admitted specs m" and "s \<in> set specs"
  shows "given m (ar_id s) \<Longrightarrow> \<not> conflicting specs m (ar_id s)"
    and "needed specs m s \<Longrightarrow> given m (ar_id s) \<or> conflicting specs m (ar_id s)"
  using assms by (auto simp: admitted_def list_all_iff)

lemma conflicting_serve:
  "conflicting SERVE_ARGS m i \<longleftrightarrow> (i = ''serial'' \<and> given m ''tcp'') \<or> (i = ''tcp'' \<and> given m ''serial'')"
  by (auto simp: conflicting_def SERVE_ARGS_def an_arg_def)

lemma needed_serve:
  "needed SERVE_ARGS m s \<longleftrightarrow> ar_required s \<or> (ar_unless s \<noteq> [] \<and> \<not> list_ex (given m) (ar_unless s)) \<or>
    (ar_id s = ''serial'' \<and> (given m ''tempradio'' \<or> given m ''_companion_terminal''))"
  by (auto simp: needed_def SERVE_ARGS_def an_arg_def)

lemma admitted_serve:
  "admitted SERVE_ARGS m \<longleftrightarrow> given m ''dir'' \<and> given m ''serial'' \<noteq> given m ''tcp'' \<and>
    list_all (\<lambda>s. length (m (ar_id s)) \<le> 1) SERVE_ARGS"
  unfolding admitted_def conflicting_serve needed_serve
  by (simp add: SERVE_ARGS_def an_arg_def) blast

lemma serve_link_chosen: "admitted SERVE_ARGS m \<Longrightarrow> given m ''serial'' \<noteq> given m ''tcp''"
  unfolding admitted_serve by blast

lemma serve_args_link:
  assumes "serve_args_of cl m = Inr a" and "admitted SERVE_ARGS m"
  shows "(s_serial a \<noteq> None) \<noteq> (s_tcp a \<noteq> None)"
proof -
  have "opt_arg SERVE_ARGS m ''serial'' = Inr (s_serial a)" "opt_arg SERVE_ARGS m ''tcp'' = Inr (s_tcp a)"
    using assms(1) by (auto simp: serve_args_of_def Let_def)
  from this [THEN opt_arg_given] show ?thesis using serve_link_chosen [OF assms(2)] by (simp add: no_defaults)
qed

lemma build_targets_exclusive:
  assumes "build_args_of cl m = Inr a" and "admitted BUILD_ARGS m"
  shows "a_target_env a = None \<or> a_target_id a = None"
proof -
  have "opt_arg BUILD_ARGS m ''target_env'' = Inr (a_target_env a)" "opt_arg BUILD_ARGS m ''target_id'' = Inr (a_target_id a)"
    using assms(1) by (auto simp: build_args_of_def Let_def)
  moreover have "\<not> (given m ''target_env'' \<and> given m ''target_id'')"
  proof -
    let ?s = "(an_arg Valued ''target_env'' ''target-env'')\<lparr>ar_conflicts := [''target_id'']\<rparr>"
    have s: "?s \<in> set BUILD_ARGS" and i: "ar_id ?s = ''target_env''" by (simp_all add: BUILD_ARGS_def an_arg_def)
    have "conflicting BUILD_ARGS m ''target_env'' \<longleftrightarrow> given m ''target_id''" by (simp add: conflicting_def arg_tables)
    then show ?thesis using admittedD(1) [OF assms(2) s] unfolding i by blast
  qed
  ultimately show ?thesis using opt_arg_given by (fastforce simp: no_defaults)
qed

lemma texts_length: "texts vs = Inr xs \<Longrightarrow> xs = vs"
  by (induction vs arbitrary: xs) (auto simp: text_value_def)

lemma required_given:
  "admitted BUILD_ARGS m \<Longrightarrow> given m ''fw''"
  "admitted BUILD_BOOTLOADER_ARGS m \<Longrightarrow> given m ''fw''" "admitted BUILD_BOOTLOADER_ARGS m \<Longrightarrow> given m ''board''"
  "admitted BUILD_BOOTLOADER_ARGS m \<Longrightarrow> given m ''sign''" "admitted VERIFY_ARGS m \<Longrightarrow> given m ''files''"
  "admitted INSPECT_ARGS m \<Longrightarrow> given m ''file''" "admitted SERVE_ARGS m \<Longrightarrow> given m ''dir''"
  "admitted TRANSPORT_SIZE_ARGS m \<Longrightarrow> given m ''payload''"
  by (simp_all add: admitted_def arg_tables conflicting_def needed_def)

text \<open>What holds of every command that is read.\<close>

fun command_wf :: "command \<Rightarrow> bool" where
  "command_wf (Serve a) \<longleftrightarrow> (s_serial a \<noteq> None) \<noteq> (s_tcp a \<noteq> None)"
| "command_wf (Build a) \<longleftrightarrow> a_target_env a = None \<or> a_target_id a = None"
| "command_wf (Verify files _) \<longleftrightarrow> files \<noteq> []"
| "command_wf _ \<longleftrightarrow> True"

lemma subcommand_specs:
  "map_of SUBCOMMANDS ''build'' = Some BUILD_ARGS" "map_of SUBCOMMANDS ''build-bootloader'' = Some BUILD_BOOTLOADER_ARGS"
  "map_of SUBCOMMANDS ''verify'' = Some VERIFY_ARGS" "map_of SUBCOMMANDS ''inspect'' = Some INSPECT_ARGS"
  "map_of SUBCOMMANDS ''keygen'' = Some KEYGEN_ARGS" "map_of SUBCOMMANDS ''serve'' = Some SERVE_ARGS"
  "map_of SUBCOMMANDS ''transport-size'' = Some TRANSPORT_SIZE_ARGS"
  by (simp_all add: SUBCOMMANDS_def)

lemma command_of_wf:
  assumes "command_of cl name m = Inr cmd" and "map_of SUBCOMMANDS name = Some specs" and "admitted specs m"
  shows "command_wf cmd"
proof (cases cmd)
  case (Serve a)
  then have "name = ''serve''" "serve_args_of cl m = Inr a" using assms(1) by (auto simp: command_of_def split: if_splits)
  then show ?thesis using serve_args_link assms(2,3) Serve by (simp add: subcommand_specs)
next
  case (Build a)
  then have "name = ''build''" "build_args_of cl m = Inr a" using assms(1) by (auto simp: command_of_def split: if_splits)
  then show ?thesis using build_targets_exclusive assms(2,3) Build by (simp add: subcommand_specs)
next
  case (Verify files pub)
  then have n: "name = ''verify''" and "texts (m ''files'') = Inr files"
    using assms(1) by (auto simp: command_of_def split: if_splits)
  then have "files = m ''files''" using texts_length by blast
  then show ?thesis using required_given(5) assms(2,3) Verify n by (simp add: subcommand_specs given_def)
qed simp_all

section \<open>Only a value can be wrong\<close>

text \<open>The values that the parser of an argument accepts.\<close>

definition valid_value :: "clap \<Rightarrow> string \<Rightarrow> string \<Rightarrow> bytes \<Rightarrow> bool" where
  "valid_value cl name ident v \<longleftrightarrow>
    (if ident = ''patch_type'' then patch_type_named v \<noteq> None
     else if ident = ''board'' then board_named v \<noteq> None
     else if ident = ''segment_size'' \<or> ident = ''baud'' then cl_u32 cl v \<noteq> None
     else if ident = ''block_size'' then (if name = ''build'' then cl_u32 cl v \<noteq> None else cl_usize cl v \<noteq> None)
     else ident = ''payload'' \<or> utf8_ok v)"

lemma arg_value_cases:
  assumes "given m i \<or> default_of specs i \<noteq> None" and "\<And>v. v \<in> set (m i) \<Longrightarrow> P v" and "\<And>v. default_of specs i = Some v \<Longrightarrow> P v"
  obtains v where "arg_value specs m i = Some v" and "P v"
  using assms arg_value_given [of m i] arg_value_absent [of m i] by (cases "given m i") fastforce+

lemma text_arg_ok:
  assumes "given m i \<or> default_of specs i \<noteq> None" and "\<And>v. v \<in> set (m i) \<Longrightarrow> utf8_ok v"
    and "\<And>v. default_of specs i = Some v \<Longrightarrow> utf8_ok v"
  shows "\<exists>x. text_arg specs m i = Inr x"
  by (rule arg_value_cases [OF assms]) (simp_all add: text_arg_def required_value_def text_value_def)

lemma typed_arg_ok:
  assumes "given m i \<or> default_of specs i \<noteq> None" and "\<And>v. v \<in> set (m i) \<Longrightarrow> p v \<noteq> None"
    and "\<And>v. default_of specs i = Some v \<Longrightarrow> p v \<noteq> None"
  shows "\<exists>x. typed_arg p specs m i = Inr x"
  by (rule arg_value_cases [of m i specs "\<lambda>v. p v \<noteq> None", OF assms]) (auto simp: typed_arg_def required_value_def)

lemma opt_arg_ok:
  assumes "\<And>v. v \<in> set (m i) \<Longrightarrow> utf8_ok v" and "default_of specs i = None"
  shows "\<exists>x. opt_arg specs m i = Inr x"
  using assms arg_value_given [of m i specs] arg_value_absent [of m i specs]
  by (cases "given m i") (simp_all add: opt_arg_Inr)

lemma texts_ok: "(\<And>v. v \<in> set vs \<Longrightarrow> utf8_ok v) \<Longrightarrow> texts vs = Inr vs"
  by (induction vs) (simp_all add: text_value_def)

lemma command_of_ok:
  assumes "clap_ok cl" and "map_of SUBCOMMANDS name = Some specs" and "admitted specs m"
    and v: "\<And>i v. v \<in> set (m i) \<Longrightarrow> valid_value cl name i v"
  shows "\<exists>cmd. command_of cl name m = Inr cmd"
proof -
  have n: "n < 2 ^ 32 \<Longrightarrow> cl_u32 cl (dec n) = Some (of_nat n) \<and> cl_usize cl (dec n) = Some n" for n
    using assms(1) by (simp add: clap_ok_def)
  have t: "\<And>v. v \<in> set (m i) \<Longrightarrow> utf8_ok v"
    if "i \<notin> {''patch_type'', ''board'', ''segment_size'', ''baud'', ''block_size'', ''payload''}" for i
    using v that by (force simp: valid_value_def)
  have dot: "utf8_ok (ascii ''.'')" by code_simp
  have o: "\<exists>x. opt_arg s m i = Inr x"
    if "i \<notin> {''patch_type'', ''board'', ''segment_size'', ''baud'', ''block_size'', ''payload''}" and "default_of s i = None" for i s
    using opt_arg_ok t [OF that(1)] that(2) by blast
  have out_dir: "\<exists>x. text_arg s m ''out_dir'' = Inr x" if "default_of s ''out_dir'' = Some (ascii ''.'')" for s
    by (rule text_arg_ok) (use that dot t [of "''out_dir''"] in auto)
  have g: "\<exists>x. text_arg s m i = Inr x"
    if "i \<notin> {''patch_type'', ''board'', ''segment_size'', ''baud'', ''block_size'', ''payload''}" and "given m i" for i s
    using that(2) arg_value_given [of m i s] t [OF that(1)] by (auto simp: text_arg_def required_value_def text_value_def)
  from assms(2) consider
    "name = ''build''" "specs = BUILD_ARGS" | "name = ''build-bootloader''" "specs = BUILD_BOOTLOADER_ARGS"
    | "name = ''verify''" "specs = VERIFY_ARGS" | "name = ''inspect''" "specs = INSPECT_ARGS"
    | "name = ''keygen''" "specs = KEYGEN_ARGS" | "name = ''serve''" "specs = SERVE_ARGS"
    | "name = ''transport-size''" "specs = TRANSPORT_SIZE_ARGS"
    by (auto simp: SUBCOMMANDS_def split: if_splits)
  then show ?thesis
  proof cases
    case 1
    have p: "\<exists>x. typed_arg patch_type_named BUILD_ARGS m ''patch_type'' = Inr x"
      by (rule typed_arg_ok) (use v [of _ "''patch_type''"] in \<open>auto simp: defaults valid_value_def patch_type_named_def\<close>)
    have s: "\<exists>x. typed_arg (cl_u32 cl) BUILD_ARGS m ''segment_size'' = Inr x"
      by (rule typed_arg_ok) (use v [of _ "''segment_size''"] n [of 4096] in \<open>auto simp: defaults valid_value_def\<close>)
    have b: "\<exists>x. typed_arg (cl_u32 cl) BUILD_ARGS m ''block_size'' = Inr x"
      by (rule typed_arg_ok) (use v [of _ "''block_size''"] n [of 2048] 1 in \<open>auto simp: defaults valid_value_def\<close>)
    have "given m ''fw''" using required_given(1) assms(3) 1 by simp
    from g [OF _ this, of BUILD_ARGS] p s b out_dir [OF defaults(4)]
      o [of "''base''" BUILD_ARGS] o [of "''inplace_memory''" BUILD_ARGS] o [of "''target_env''" BUILD_ARGS]
      o [of "''target_id''" BUILD_ARGS] o [of "''fw_version''" BUILD_ARGS] o [of "''hw_id''" BUILD_ARGS]
      o [of "''sign''" BUILD_ARGS] o [of "''out''" BUILD_ARGS]
    show ?thesis using 1 by (auto simp: command_of_def build_args_of_def Let_def no_defaults)
  next
    case 2
    note r = required_given(2-4) [OF assms(3) [unfolded 2]]
    have b: "\<exists>x. typed_arg board_named BUILD_BOOTLOADER_ARGS m ''board'' = Inr x"
      using r(2) arg_value_given [OF r(2), of BUILD_BOOTLOADER_ARGS] v [of _ "''board''"]
      by (fastforce simp: typed_arg_def required_value_def valid_value_def)
    from g [OF _ r(1), of BUILD_BOOTLOADER_ARGS] g [OF _ r(3), of BUILD_BOOTLOADER_ARGS] b out_dir [OF defaults(5)]
      o [of "''fw_version''" BUILD_BOOTLOADER_ARGS] o [of "''out''" BUILD_BOOTLOADER_ARGS]
    show ?thesis using 2 by (auto simp: command_of_def bootloader_args_of_def Let_def no_defaults)
  next
    case 3
    from texts_ok [OF t [of "''files''"]] o [of "''pub_key''" VERIFY_ARGS]
    show ?thesis using 3 by (auto simp: command_of_def no_defaults)
  next
    case 4
    from g [OF _ required_given(6) [OF assms(3) [unfolded 4]], of INSPECT_ARGS]
    show ?thesis using 4 by (auto simp: command_of_def)
  next
    case 5
    from o [of "''out''" KEYGEN_ARGS] show ?thesis using 5 by (auto simp: command_of_def no_defaults)
  next
    case 6
    have b: "\<exists>x. typed_arg (cl_u32 cl) SERVE_ARGS m ''baud'' = Inr x"
      by (rule typed_arg_ok) (use v [of _ "''baud''"] n [of 115200] in \<open>auto simp: defaults valid_value_def\<close>)
    from g [OF _ required_given(7) [OF assms(3) [unfolded 6]], of SERVE_ARGS] b o [of "''serial''" SERVE_ARGS]
      o [of "''tcp''" SERVE_ARGS] o [of "''tempradio''" SERVE_ARGS] o [of "''seed''" SERVE_ARGS]
    show ?thesis using 6 by (auto simp: command_of_def serve_args_of_def Let_def no_defaults)
  next
    case 7
    have b: "\<exists>x. typed_arg (cl_usize cl) TRANSPORT_SIZE_ARGS m ''block_size'' = Inr x"
      by (rule typed_arg_ok) (use v [of _ "''block_size''"] n [of 2048] 7 in \<open>auto simp: defaults valid_value_def\<close>)
    from arg_value_given [OF required_given(8) [OF assms(3) [unfolded 7]], of TRANSPORT_SIZE_ARGS] b
    show ?thesis using 7 by (auto simp: command_of_def required_value_def)
  qed
qed

lemma program_no_panic:
  assumes "crypto_ok c" and "inputs_ok h" and "clap_ok cl"
  shows "fst (program checks c cl w argv h d) \<noteq> Inl Panic"
proof (cases "cl_matches cl SUBCOMMANDS argv")
  case (Inr r)
  obtain name m where r: "r = (name, m)" by fastforce
  obtain specs where s: "map_of SUBCOMMANDS name = Some specs" "admitted specs m"
    using assms(3) Inr unfolding r clap_ok_def by blast
  show ?thesis
  proof (cases "command_of cl name m")
    case (Inl e)
    then show ?thesis using Inr command_of_no_panic [of cl name m] by (auto simp: program_def r exit_code_def split: err.splits)
  next
    case cmd: (Inr cmd)
    have "fst (run_main checks c w cmd h d) \<noteq> Inl Panic"
      using command_of_wf [OF cmd s] by (intro run_main_no_panic assms(1,2)) auto
    then show ?thesis using Inr by (simp add: program_def r cmd)
  qed
qed (simp add: program_def)

lemma program_code:
  assumes "program checks c cl w argv h d = (r, h', d')"
  shows "r = Inl Panic \<or> (\<exists>success. r = Inr success)"
proof (cases "cl_matches cl SUBCOMMANDS argv")
  case (Inl success)
  then show ?thesis using assms by (auto simp: program_def)
next
  case (Inr x)
  obtain name m where x: "x = (name, m)" by fastforce
  show ?thesis
  proof (cases "command_of cl name m")
    case (Inl e)
    then show ?thesis using assms Inr exit_code_total [of "Inl e :: unit result"] by (auto simp: program_def x)
  next
    case cmd: (Inr cmd)
    show ?thesis using assms Inr run_main_code [of checks c w cmd h d] by (simp add: program_def x cmd)
  qed
qed

section \<open>Names of boards\<close>

lemma alias_board: "a \<in> set (value_aliases b) \<Longrightarrow> b = CliXiaoNrf52840Ble \<and> a = ''xiao-nrf52840-ble'' \<or>
    b = CliXiaoNrf52840BleSense \<and> a = ''xiao-nrf52840-ble-sense''"
  by (cases b) simp_all

lemma alias_no_name: "a \<in> set (value_aliases b) \<Longrightarrow> a \<noteq> value_name b'"
  using alias_board [of a b] by (cases b') auto

lemma names_unique:
  assumes "s \<in> set (value_name b # value_aliases b)" and "s \<in> set (value_name b' # value_aliases b')"
  shows "b = b'"
proof (cases "s \<in> set (value_aliases b) \<and> s \<in> set (value_aliases b')")
  case True
  then show ?thesis using alias_board [of s b] alias_board [of s b'] by auto
next
  case False
  then have "s = value_name b \<or> s = value_name b'" using assms by auto
  then have "value_name b = value_name b'"
    using assms alias_no_name [of s b b'] alias_no_name [of s b' b] by auto
  then show ?thesis by (rule value_name_inject)
qed

lemma board_named_iff: "board_named v = Some b \<longleftrightarrow> v \<in> ascii ` set (value_name b # value_aliases b)"
proof -
  have u: "b' = b" if "v \<in> ascii ` set (value_name b # value_aliases b)" and "v \<in> ascii ` set (value_name b' # value_aliases b')" for b'
  proof -
    from that obtain s s' where "v = ascii s" "s \<in> set (value_name b # value_aliases b)"
      "v = ascii s'" "s' \<in> set (value_name b' # value_aliases b')" by (elim imageE)
    then show ?thesis using names_unique [of s b b'] by (simp only: ascii_inject)
  qed
  show ?thesis
  proof
    show "board_named v = Some b \<Longrightarrow> v \<in> ascii ` set (value_name b # value_aliases b)"
      by (auto simp: board_named_def find_Some_iff)
    assume v: "v \<in> ascii ` set (value_name b # value_aliases b)"
    then obtain b' where "board_named v = Some b'"
      using all_names_complete [of b] by (cases "board_named v") (auto simp: board_named_def find_None_iff)
    moreover from this have "v \<in> ascii ` set (value_name b' # value_aliases b')" by (auto simp: board_named_def find_Some_iff)
    ultimately show "board_named v = Some b" using u [OF v] by simp
  qed
qed

text \<open>
  A temporary radio window is declared to require a serial port; as the port conflicts with an address, and
  conflicts take precedence, it is let through with an address, and the command then writes the console
  line to the seeder port.
\<close>

lemma tempradio_over_tcp: "admitted SERVE_ARGS ((\<lambda>_. [])(''dir'' := [dir], ''tcp'' := [hp], ''tempradio'' := [radio]))"
  unfolding admitted_serve by (simp add: SERVE_ARGS_def an_arg_def given_def)

end
