(* ===== verification/Mota_Attach.thy ===== *)
theory Mota_Attach
  imports Mota_Store "HOL-Library.Stream"
begin

text \<open>
  The attach handshake and the serving loop over time (\<open>attach_serial_folder_with_policy\<close>, \<open>serve_loop\<close> of \<open>serve.rs\<close>).
  The list of reads of a link is what has been observed of it: a node may go on for ever, silent or not. A step of a
  loop reads a link at most 525 times and does not see what comes after, so the handshake on an endless stream of
  reads is the handshake on any prefix that is long enough; it ends by the deadline, not with the reads. The last
  section computes the run on console lines that arrive before the first retry.
\<close>

section \<open>Reads of a link\<close>

text \<open>
  The link with further reads behind those it has. An operation that reads at most \<open>n\<close> times does not see what
  comes after the first \<open>n\<close> reads.
\<close>

definition with_more :: "byte_read list \<Rightarrow> link \<Rightarrow> link" where
  "with_more ys l = l\<lparr>l_in := l_in l @ ys\<rparr>"

definition reads_at_most :: "nat \<Rightarrow> (link \<Rightarrow> 'a \<times> link) \<Rightarrow> bool" where
  "reads_at_most n f \<longleftrightarrow> (\<forall>l ys. n \<le> length (l_in l) \<longrightarrow>
    f (with_more ys l) = (fst (f l), with_more ys (snd (f l))) \<and> length (l_in l) \<le> length (l_in (snd (f l))) + n)"

lemma with_more_fields [simp]:
  "l_in (with_more ys l) = l_in l @ ys" "l_out (with_more ys l) = l_out l" "l_broken (with_more ys l) = l_broken l"
  "l_stuck (with_more ys l) = l_stuck l"
  by (simp_all add: with_more_def)

lemma reads_at_mostI:
  "(\<And>l ys r l'. n \<le> length (l_in l) \<Longrightarrow> f l = (r, l') \<Longrightarrow>
      f (with_more ys l) = (r, with_more ys l') \<and> length (l_in l) \<le> length (l_in l') + n) \<Longrightarrow> reads_at_most n f"
  unfolding reads_at_most_def by (metis prod.collapse)

lemma reads_at_mostD:
  assumes "reads_at_most n f" and "n \<le> length (l_in l)" and "f l = (r, l')"
  shows "f (with_more ys l) = (r, with_more ys l')" and "length (l_in l) \<le> length (l_in l') + n"
  using assms unfolding reads_at_most_def by force+

text \<open>Composition: a read, then one that depends on its value.\<close>

lemma reads_at_most_bind:
  assumes "reads_at_most m f" and "\<And>r. reads_at_most n (g r)"
  shows "reads_at_most (m + n) (\<lambda>l. case f l of (r, l1) \<Rightarrow> g r l1)"
proof (rule reads_at_mostI)
  fix l ys r l'
  assume le: "m + n \<le> length (l_in l)" and e: "(case f l of (r, l1) \<Rightarrow> g r l1) = (r, l')"
  obtain r1 l1 where f: "f l = (r1, l1)" by fastforce
  have g: "g r1 l1 = (r, l')" using e f by simp
  from le have "m \<le> length (l_in l)" by simp
  note f1 = reads_at_mostD [OF assms(1) this f]
  have "n \<le> length (l_in l1)" using f1(2) le by simp
  note g1 = reads_at_mostD [OF assms(2) this g]
  show "(case f (with_more ys l) of (r, l1) \<Rightarrow> g r l1) = (r, with_more ys l') \<and> length (l_in l) \<le> length (l_in l') + (m + n)"
    using f1 g1(1) g1(2) by simp
qed

lemma reads_at_most_pure: "reads_at_most n (\<lambda>l. (r, l))"
  by (simp add: reads_at_most_def)

lemma reads_at_most_mono:
  assumes "reads_at_most m f" and "m \<le> n"
  shows "reads_at_most n f"
proof (rule reads_at_mostI)
  fix l ys r l'
  assume le: "n \<le> length (l_in l)" and f: "f l = (r, l')"
  have "m \<le> length (l_in l)" using le assms(2) by simp
  from reads_at_mostD [OF assms(1) this f] show "f (with_more ys l) = (r, with_more ys l') \<and> length (l_in l) \<le> length (l_in l') + n"
    using assms(2) by simp
qed

lemma read_byte_reads: "reads_at_most 1 read_byte"
  by (rule reads_at_mostI) (auto simp: read_byte_def with_more_def split: list.splits)

lemma read_frame_bytes_reads: "reads_at_most n (\<lambda>l. read_frame_bytes l n)"
proof (induction n)
  case (Suc n)
  have s: "(\<lambda>l. read_frame_bytes l (Suc n)) =
      (\<lambda>l. case read_byte l of (r, l1) \<Rightarrow> (case r of
        Got b \<Rightarrow> (\<lambda>l1. case read_frame_bytes l1 n of (bs, l2) \<Rightarrow> (map_option (\<lambda>bs. b # bs) bs, l2))
      | _ \<Rightarrow> (\<lambda>l1. (None, l1))) l1)"
    by (simp add: fun_eq_iff read_frame_bytes.simps(2) split: byte_read.splits prod.splits)
  have "reads_at_most (n + 0) (\<lambda>l. case read_frame_bytes l n of (bs, l2) \<Rightarrow> (map_option (\<lambda>bs. b # bs) bs, l2))" for b
    by (rule reads_at_most_bind [OF Suc reads_at_most_pure])
  then have "reads_at_most n (case r of
        Got b \<Rightarrow> (\<lambda>l1. case read_frame_bytes l1 n of (bs, l2) \<Rightarrow> (map_option (\<lambda>bs. b # bs) bs, l2))
      | _ \<Rightarrow> (\<lambda>l1. (None, l1)))" for r
    by (cases r) (simp_all add: reads_at_most_pure)
  from reads_at_most_bind [OF read_byte_reads this] show ?case unfolding s by simp
qed (simp add: reads_at_most_pure read_frame_bytes.simps(1))

lemma read_checksum_reads: "reads_at_most 1 (\<lambda>l. read_checksum l op args)"
proof -
  have s: "(\<lambda>l. read_checksum l op args) = (\<lambda>l. case read_frame_bytes l 1 of (r, l1) \<Rightarrow>
      (case r of Some (xsum # _) \<Rightarrow> (if xsum = xor_bytes args op then Valid op args else MalformedKnown) | _ \<Rightarrow> MalformedKnown, l1))"
    by (auto simp: read_checksum_def split: prod.splits option.splits list.splits)
  show ?thesis unfolding s
    using reads_at_most_bind [OF read_frame_bytes_reads [of 1] reads_at_most_pure [of 0]] by simp
qed

lemma read_write_data_reads: "reads_at_most WRITE_MAX (\<lambda>l. read_write_data l args)"
proof -
  let ?n = "unat (u16_le [args ! 8, args ! 9])"
  have "reads_at_most (?n + 0) (\<lambda>l. case read_frame_bytes l ?n of (data, l1) \<Rightarrow> (map_option (\<lambda>x. args @ x) data, l1))"
    by (rule reads_at_most_bind [OF read_frame_bytes_reads reads_at_most_pure])
  then have small: "?n \<le> WRITE_MAX \<Longrightarrow>
      reads_at_most WRITE_MAX (\<lambda>l. case read_frame_bytes l ?n of (data, l1) \<Rightarrow> (map_option (\<lambda>x. args @ x) data, l1))"
    by (intro reads_at_most_mono [of ?n _ WRITE_MAX]) simp_all
  consider "WRITE_MAX < ?n" | "?n = 0" | "0 < ?n" "\<not> WRITE_MAX < ?n" by linarith
  then show ?thesis
    using small by cases (simp_all add: read_write_data_def Let_def reads_at_most_pure)
qed

lemma header_at_most_10: "request_header_len op = Some n \<Longrightarrow> n \<le> 10"
  by (auto simp: request_header_len_def split: if_splits)

lemma request_body_reads:
  assumes "request_header_len op = Some n"
  shows "reads_at_most 523 (\<lambda>l1. case read_frame_bytes l1 n of (r, l2) \<Rightarrow> (case r of
      Some args \<Rightarrow> (\<lambda>l2. if op = OP_WRITE then
          (case read_write_data l2 args of (data, l3) \<Rightarrow> (case data of
             Some args' \<Rightarrow> (\<lambda>l3. read_checksum l3 op args') | None \<Rightarrow> (\<lambda>l3. (MalformedKnown, l3))) l3)
        else read_checksum l2 op args)
    | None \<Rightarrow> (\<lambda>l2. (MalformedKnown, l2))) l2)"
proof -
  have data: "reads_at_most 1 (case data of Some args' \<Rightarrow> (\<lambda>l3. read_checksum l3 op args') | None \<Rightarrow> (\<lambda>l3. (MalformedKnown, l3)))" for data
    by (cases data) (simp_all add: reads_at_most_pure read_checksum_reads [simplified])
  have wr: "reads_at_most 513 (\<lambda>l2. case read_write_data l2 args of (data, l3) \<Rightarrow> (case data of
      Some args' \<Rightarrow> (\<lambda>l3. read_checksum l3 op args') | None \<Rightarrow> (\<lambda>l3. (MalformedKnown, l3))) l3)" for args
    using reads_at_most_bind [OF read_write_data_reads data] by (simp add: mota_const)
  have args: "reads_at_most 513 (case r of
      Some args \<Rightarrow> (\<lambda>l2. if op = OP_WRITE then
          (case read_write_data l2 args of (data, l3) \<Rightarrow> (case data of
             Some args' \<Rightarrow> (\<lambda>l3. read_checksum l3 op args') | None \<Rightarrow> (\<lambda>l3. (MalformedKnown, l3))) l3)
        else read_checksum l2 op args)
    | None \<Rightarrow> (\<lambda>l2. (MalformedKnown, l2)))" for r
    using wr reads_at_most_mono [OF read_checksum_reads, of 513]
    by (cases r; cases "op = OP_WRITE") (simp_all add: reads_at_most_pure)
  show ?thesis
    using reads_at_most_mono [OF reads_at_most_bind [OF read_frame_bytes_reads [of n] args], of 523] header_at_most_10 [OF assms]
    by simp
qed

lemma read_request_reads: "reads_at_most 524 read_request"
proof -
  define body where "body op n = (\<lambda>l1. case read_frame_bytes l1 n of (r, l2) \<Rightarrow> (case r of
      Some args \<Rightarrow> (\<lambda>l2. if op = OP_WRITE then
          (case read_write_data l2 args of (data, l3) \<Rightarrow> (case data of
             Some args' \<Rightarrow> (\<lambda>l3. read_checksum l3 op args') | None \<Rightarrow> (\<lambda>l3. (MalformedKnown, l3))) l3)
        else read_checksum l2 op args)
    | None \<Rightarrow> (\<lambda>l2. (MalformedKnown, l2))) l2)" for op n
  define rest where "rest r = (case r of
      Some (op # _) \<Rightarrow> (case request_header_len op of None \<Rightarrow> (\<lambda>l1. (Unknown op, l1)) | Some n \<Rightarrow> body op n)
    | _ \<Rightarrow> (\<lambda>l1. (MalformedKnown, l1)))" for r
  have s: "read_request = (\<lambda>l. case read_frame_bytes l 1 of (r, l1) \<Rightarrow> rest r l1)"
    by (auto simp: fun_eq_iff read_request_def rest_def body_def split: prod.splits option.splits list.splits)
  have "reads_at_most 523 (rest r)" for r
    using request_body_reads by (auto simp: rest_def body_def reads_at_most_pure split: option.splits list.splits)
  from reads_at_most_bind [OF read_frame_bytes_reads [of 1] this] show ?thesis unfolding s by simp
qed

lemma send_response_more: "send_response (with_more ys l) op status payload = with_more ys (send_response l op status payload)"
  by (simp add: send_response_def write_all_def with_more_def)

lemma answer_more:
  assumes "answer_request h core verbose op args l d = Inr (log, l', d')"
  shows "answer_request h core verbose op args (with_more ys l) d = Inr (log, with_more ys l', d') \<and> l_in l' = l_in l"
proof (cases "handle h core d op args")
  case (Inr r)
  obtain reply d1 where r: "r = (reply, d1)" by fastforce
  show ?thesis
  proof (cases reply)
    case (Some x)
    then show ?thesis using assms by (cases x) (auto simp: answer_request_def Let_def send_response_more Inr r)
  qed (use assms in \<open>simp add: answer_request_def Inr r\<close>)
qed (use assms in \<open>simp add: answer_request_def\<close>)

lemma pump_byte_reads:
  assumes "pump_byte h core verbose b st l d = Inr (ev, st', l', d')" and "524 \<le> length (l_in l)"
  shows "pump_byte h core verbose b st (with_more ys l) d = Inr (ev, st', with_more ys l', d') \<and>
    length (l_in l) \<le> length (l_in l') + 524"
proof (cases "pending_m st \<and> b = REQ_MAGIC ! 1")
  case True
  obtain r l1 where r: "read_request l = (r, l1)" by fastforce
  note m = reads_at_mostD [OF read_request_reads assms(2) r]
  show ?thesis
  proof (cases r)
    case (Valid op args)
    from assms(1) True r Valid obtain log where a: "answer_request h core verbose op args l1 d = Inr (log, l', d')"
      and s: "ev = SeederFrame log" "st' = st\<lparr>pending_m := False, line := []\<rparr>"
      by (auto simp: pump_byte_def Let_def)
    show ?thesis using answer_more [OF a, of ys] m s True Valid by (simp add: pump_byte_def Let_def)
  next
    case (Unknown op)
    then show ?thesis using assms(1) True r m
      by (auto simp: pump_byte_def Let_def split: option.splits prod.splits)
  qed (use assms(1) True r m in \<open>auto simp: pump_byte_def Let_def\<close>)
next
  case False
  then show ?thesis using assms(1) by (auto simp: pump_byte_def Let_def split: option.splits prod.splits if_splits)
qed

lemma pump_reads:
  assumes "pump h core verbose st l d = Inr (ev, st', l', d')" and "525 \<le> length (l_in l)"
  shows "pump h core verbose st (with_more ys l) d = Inr (ev, st', with_more ys l', d') \<and>
    length (l_in l) \<le> length (l_in l') + 525"
proof (cases "deferred st")
  case (Some b)
  then have "pump_byte h core verbose b (st\<lparr>deferred := None\<rparr>) l d = Inr (ev, st', l', d')" using assms(1) by (simp add: pump_def)
  from pump_byte_reads [OF this, of ys] Some assms(2) show ?thesis by (simp add: pump_def)
next
  case None
  obtain x l1 where x: "read_byte l = (x, l1)" by fastforce
  have "1 \<le> length (l_in l)" using assms(2) by simp
  note m = reads_at_mostD [OF read_byte_reads this x]
  show ?thesis
  proof (cases x)
    case (Got b)
    then have b: "pump_byte h core verbose b st l1 d = Inr (ev, st', l', d')" using assms(1) None x by (simp add: pump_def)
    have "524 \<le> length (l_in l1)" using m(2) assms(2) by simp
    from pump_byte_reads [OF b this, of ys] show ?thesis using None m Got by (simp add: pump_def)
  qed (use assms(1) None x m in \<open>auto simp: pump_def\<close>)
qed

section \<open>The handshake on an endless link\<close>

text \<open>
  The loop ends at the first query of the clock that shows the deadline, however long the link goes on: with \<open>K\<close>
  steps to go and 525 reads in hand for each, it ends without seeing what comes after them.
\<close>

lemma send_folder_on_more:
  "send_folder_on (with_more ys l) = (fst (send_folder_on l), with_more ys (snd (send_folder_on l)))"
  "l_in (snd (send_folder_on l)) = l_in l"
  by (simp_all add: send_folder_on_def send_console_def write_all_def with_more_def)

lemma attach_loop_reads:
  assumes "deadline \<le> clock (2 * (k + K) + 1)" and "525 * K \<le> length (l_in l)"
  shows "\<exists>outcome lines' l' d'.
    attach_loop h core verbose stop clock policy deadline k attempts retry_at seen st l d lines = Inr (outcome, lines', l', d') \<and>
    attach_loop h core verbose stop clock policy deadline k attempts retry_at seen st (with_more ys l) d lines =
      Inr (outcome, lines', with_more ys l', d') \<and> length (l_in l) \<le> length (l_in l') + 525 * K"
  using assms
proof (induction K arbitrary: k attempts retry_at seen st l d lines)
  case 0
  then show ?case by (subst (1 2) attach_loop.simps) (auto simp: Let_def)
next
  case (Suc K)
  note IH = Suc.IH [where k = "k + 1"]
  have dl: "deadline \<le> clock (2 * (k + 1 + K) + 1)" using Suc.prems(1) by simp
  consider (over) "stop (k + 1) \<or> deadline \<le> clock (2 * k + 1)" | (go) "\<not> stop (k + 1)" "\<not> deadline \<le> clock (2 * k + 1)" by blast
  then show ?case
  proof cases
    case over
    then show ?thesis by (subst (1 2) attach_loop.simps) auto
  next
    case go
    obtain ev st1 l1 d1 where p: "pump h core verbose st l d = Inr (ev, st1, l1, d1)"
      using pump_ok [of h core verbose st l d] by blast
    have "525 \<le> length (l_in l)" using Suc.prems(2) by simp
    note q = pump_reads [OF p this, of ys]
    have room: "525 * K \<le> length (l_in l1)" using q Suc.prems(2) by simp
    show ?thesis
    proof (cases "ev = LinkClosed")
      case True
      then show ?thesis using go p q by (subst (1 2) attach_loop.simps) simp
    next
      case open_link: False
      show ?thesis
      proof (cases "line_verdict ev")
        case (Some outcome)
        then show ?thesis using go p q open_link by (subst (1 2) attach_loop.simps) (simp add: Let_def)
      next
        case None
        let ?seen = "seen \<or> (\<exists>log. ev = SeederFrame log)" and ?now = "clock (2 * k + 2)"
        obtain failure l2 where s: "send_folder_on l1 = (failure, l2)" by fastforce
        have s2: "send_folder_on (with_more ys l1) = (failure, with_more ys l2)" "l_in l2 = l_in l1"
          using send_folder_on_more(1) [of ys l1] send_folder_on_more(2) [of l1] s by simp_all
        show ?thesis
        proof (cases "\<not> ?seen \<and> \<not> pending_m st1 \<and> attempts < max_attempts policy \<and> retry_at \<le> ?now")
          case True
          then show ?thesis
            using go p q open_link None s s2 room
              IH [OF dl, where l = l2 and attempts = "attempts + 1" and retry_at = "?now + retry_after policy" and seen = ?seen and st = st1
                and d = d1 and lines = "lines @ event_line ev"]
            by (subst (1 2) attach_loop.simps) (cases failure; auto simp: Let_def)
        next
          case False
          then show ?thesis
            using go p q open_link None room IH [OF dl, where l = l1 and attempts = attempts and retry_at = retry_at and seen = ?seen and st = st1
                and d = d1 and lines = "lines @ event_line ev"]
            by (subst (1 2) attach_loop.simps) (auto simp: Let_def)
        qed
      qed
    qed
  qed
qed

lemma attach_reads:
  assumes "clock 0 + timeout policy \<le> clock (2 * K + 1)" and "525 * K \<le> length (l_in l)"
  shows "\<exists>outcome lines n l' d'. n \<le> 525 * K \<and> l_in l' = drop n (l_in l) \<and>
    attach_serial_folder_with_policy h core verbose stop clock policy l d = Inr (outcome, lines, l', d') \<and>
    (\<forall>ys. attach_serial_folder_with_policy h core verbose stop clock policy (with_more ys l) d = Inr (outcome, lines, with_more ys l', d'))"
proof -
  obtain failure l1 where s: "send_folder_on l = (failure, l1)" by fastforce
  have s1: "send_folder_on (with_more ys l) = (failure, with_more ys l1)" "l_in l1 = l_in l" for ys
    using send_folder_on_more(1) [of ys l] send_folder_on_more(2) [of l] s by simp_all
  show ?thesis
  proof (cases "stop 0 \<or> failure \<noteq> None")
    case True
    then consider "stop 0" | msg where "\<not> stop 0" "failure = Some msg" by blast
    then show ?thesis
    proof cases
      case 1
      then show ?thesis by (intro exI [of _ 0] exI) (auto simp: attach_serial_folder_with_policy_def)
    next
      case 2
      then show ?thesis using s s1 by (intro exI [of _ 0] exI [of _ l1] exI) (auto simp: attach_serial_folder_with_policy_def)
    qed
  next
    case False
    let ?run = "\<lambda>l. attach_loop h core verbose stop clock policy (clock 0 + timeout policy) 0 1 (clock 0 + retry_after policy) False
      stream_default l d []"
    have eq: "attach_serial_folder_with_policy h core verbose stop clock policy l d = ?run l1"
      "attach_serial_folder_with_policy h core verbose stop clock policy (with_more ys l) d = ?run (with_more ys l1)" for ys
      using False s s1 by (simp_all add: attach_serial_folder_with_policy_def)
    have room: "525 * K \<le> length (l_in l1)" using assms(2) s1 by simp
    have "clock 0 + timeout policy \<le> clock (2 * (0 + K) + 1)" using assms(1) by simp
    note r = attach_loop_reads [where k = 0 and K = K and clock = clock and deadline = "clock 0 + timeout policy" and l = l1 and
      stop = stop and d = d and policy = policy and attempts = 1 and retry_at = "clock 0 + retry_after policy" and
      seen = False and st = stream_default and lines = "[]" and h = h and core = core and verbose = verbose, OF this room]
    from r obtain outcome lines l' d' where run: "?run l1 = Inr (outcome, lines, l', d')"
      and len: "length (l_in l1) \<le> length (l_in l') + 525 * K" by blast
    have more: "?run (with_more ys l1) = Inr (outcome, lines, with_more ys l', d')" for ys
      using r [of ys] run by auto
    obtain n where n: "l_in l' = drop n (l_in l)"
      using link_rel.attach_loop_R [OF run] s1(2) by (auto simp: link_grows_def)
    let ?n = "length (l_in l) - length (l_in l')"
    have "l_in l' = drop ?n (l_in l)" using n by (cases "n \<le> length (l_in l)") simp_all
    moreover have "?n \<le> 525 * K" using len s1(2) by simp
    ultimately show ?thesis using run more unfolding eq by (intro exI [of _ outcome] exI [of _ lines] exI [of _ ?n] exI [of _ l'] exI [of _ d']) simp
  qed
qed

text \<open>So on an endless link the handshake ends, and every longer prefix of the reads gives the same run.\<close>

lemma attach_endless:
  assumes "clock 0 + timeout policy \<le> clock (2 * K + 1)"
  shows "\<exists>outcome lines n l' d'. n \<le> 525 * K \<and>
    (\<forall>N \<ge> 525 * K. attach_serial_folder_with_policy h core verbose stop clock policy (l\<lparr>l_in := stake N s\<rparr>) d =
      Inr (outcome, lines, l'\<lparr>l_in := stake (N - n) (sdrop n s)\<rparr>, d'))"
proof -
  let ?M = "525 * K"
  let ?l = "l\<lparr>l_in := stake ?M s\<rparr>"
  have "?M \<le> length (l_in ?l)" by simp
  from attach_reads [OF assms this, of h core verbose stop d] obtain outcome lines n l' d' where
    n: "n \<le> ?M" "l_in l' = drop n (stake ?M s)" and
    r: "\<And>ys. attach_serial_folder_with_policy h core verbose stop clock policy (with_more ys ?l) d = Inr (outcome, lines, with_more ys l', d')"
    by auto
  have "attach_serial_folder_with_policy h core verbose stop clock policy (l\<lparr>l_in := stake N s\<rparr>) d =
      Inr (outcome, lines, l'\<lparr>l_in := stake (N - n) (sdrop n s)\<rparr>, d')" if N: "N \<ge> ?M" for N
  proof -
    let ?ys = "stake (N - ?M) (sdrop ?M s)"
    have s: "stake N s = stake ?M s @ ?ys" using stake_add [of ?M s "N - ?M"] N by simp
    have "with_more ?ys ?l = l\<lparr>l_in := stake N s\<rparr>" by (simp add: with_more_def s)
    moreover have "with_more ?ys l' = l'\<lparr>l_in := stake (N - n) (sdrop n s)\<rparr>"
    proof -
      have "l_in l' @ ?ys = drop n (stake ?M s @ ?ys)" using n by (simp del: stake_add)
      also have "\<dots> = drop n (stake N s)" by (simp only: s)
      also have "\<dots> = stake (N - n) (sdrop n s)" by (simp add: drop_stake)
      finally show ?thesis by (simp add: with_more_def)
    qed
    ultimately show ?thesis using r [of ?ys] by simp
  qed
  with n(1) show ?thesis by blast
qed

text \<open>The serving loop likewise ends at the first query of the stop flag that is set.\<close>

lemma serve_loop_reads:
  assumes "stop (k + K)" and "525 * K \<le> length (l_in l)"
  shows "\<exists>lines' l' d'. serve_loop h core verbose stop k st l d lines = Inr (lines', l', d') \<and>
    serve_loop h core verbose stop k st (with_more ys l) d lines = Inr (lines', with_more ys l', d') \<and>
    length (l_in l) \<le> length (l_in l') + 525 * K"
  using assms
proof (induction K arbitrary: k st l d lines)
  case 0
  then show ?case by (simp add: serve_loop_end)
next
  case (Suc K)
  obtain ev st1 l1 d1 where p: "pump h core verbose st l d = Inr (ev, st1, l1, d1)"
    using pump_ok [of h core verbose st l d] by blast
  have "525 \<le> length (l_in l)" using Suc.prems(2) by simp
  note q = pump_reads [OF p this, of ys]
  consider "stop k" | "\<not> stop k" "ev = LinkClosed" | "\<not> stop k" "ev \<noteq> LinkClosed" by blast
  then show ?case
  proof cases
    case 3
    have "stop (k + 1 + K)" "525 * K \<le> length (l_in l1)" using Suc.prems q by simp_all
    from Suc.IH [OF this, of st1 d1 "lines @ event_line ev"] show ?thesis
      using serve_loop_step [where stop = stop and k = k, OF 3(1) p 3(2)]
        serve_loop_step [where stop = stop and k = k, OF 3(1) conjunct1 [OF q] 3(2)] q by auto
  qed (use p q in \<open>auto simp: serve_loop_end\<close>)
qed

section \<open>An answer in time\<close>

lemma trim_newline [simp]: "trim_line_end (cs @ [10]) = trim_line_end cs"
  by (simp add: trim_line_end_def)

text \<open>
  Between requests the stream state holds the console line so far: the bytes kept, and an \<open>M\<close> that may start a request.
\<close>

definition console :: "stream_state \<Rightarrow> bytes \<Rightarrow> bool" where
  "console st t \<longleftrightarrow> deferred st = None \<and> line st @ (if pending_m st then [REQ_MAGIC ! 0] else []) = t"

lemma console_start: "console stream_default []"
  by (simp add: console_def stream_default_def)

lemma push_text_short_line: "b \<noteq> 10 \<Longrightarrow> utf8_len (line st @ [b]) \<le> 512 \<Longrightarrow> push_text st b = (None, st\<lparr>line := line st @ [b]\<rparr>)"
  by (simp add: push_text_def Let_def)

lemma push_text_newline:
  "push_text st 10 = (if trim_line_end (line st) = [] then None else Some (trim_line_end (line st)), st\<lparr>line := []\<rparr>)"
  by (simp add: push_text_def Let_def)

lemma accept_console:
  assumes "pending_m st = False" and "deferred st = None" and "b \<noteq> 10" and "utf8_len (line st @ [b]) \<le> 512"
  shows "\<exists>st1. console st1 (line st @ [b]) \<and> accept_unframed st b = (Activity, st1)"
  using assms push_text_short_line [OF assms(3,4)] by (auto simp: accept_unframed_def console_def)

lemma pump_console:
  assumes "console st t" and "l_in l = Got b # rest" and "b \<noteq> 10" and "utf8_len (t @ [b]) \<le> 512"
    and "\<forall>u. t @ [b] \<noteq> u @ [77, 83]"
  shows "\<exists>st1. console st1 (t @ [b]) \<and> pump h core verbose st l d = Inr (Activity, st1, l\<lparr>l_in := rest\<rparr>, d)"
proof (cases "pending_m st")
  case True
  have t: "t = line st @ [77]" using assms(1) True by (simp add: console_def req_magic)
  then have b: "b \<noteq> 83" using assms(5) by auto
  let ?st = "st\<lparr>pending_m := False, line := t\<rparr>"
  have "utf8_len (line (st\<lparr>pending_m := False\<rparr>) @ [77]) \<le> 512" using assms(4) t by (simp only: utf8_len_append) simp
  from push_text_short_line [OF _ this] have p: "push_text (st\<lparr>pending_m := False\<rparr>) 77 = (None, ?st)" by (simp add: t)
  obtain st1 where "console st1 (t @ [b])" "accept_unframed ?st b = (Activity, st1)"
    using accept_console [of ?st b] assms(1,3,4) by (auto simp: console_def)
  then show ?thesis using assms(1,2) True b p
    by (auto simp: pump_def read_byte_def pump_byte_def Let_def console_def req_magic)
next
  case False
  then have "t = line st" "deferred st = None" using assms(1) by (simp_all add: console_def)
  then obtain st1 where "console st1 (t @ [b])" "accept_unframed st b = (Activity, st1)"
    using accept_console [of st b] assms(3,4) False by auto
  then show ?thesis using assms(1,2) False by (auto simp: pump_def read_byte_def pump_byte_def console_def)
qed

lemma accept_newline:
  assumes "pending_m st = False" and "deferred st = None"
  shows "accept_unframed st 10 =
    (if trim_line_end (line st) = [] then Activity else DeviceLine (trim_line_end (line st)), stream_default)"
proof -
  have "st\<lparr>line := []\<rparr> = stream_default" using assms by (cases st) (simp add: stream_default_def)
  then show ?thesis by (simp add: accept_unframed_def push_text_newline req_magic)
qed

lemma pump_newline:
  assumes "console st t" and "l_in l = Got 10 # rest" and "utf8_len t \<le> 512"
  shows "pump h core verbose st l d =
    Inr (if trim_line_end t = [] then Activity else DeviceLine (trim_line_end t), stream_default, l\<lparr>l_in := rest\<rparr>, d)"
proof (cases "pending_m st")
  case True
  have t: "t = line st @ [77]" using assms(1) True by (simp add: console_def req_magic)
  let ?st = "st\<lparr>pending_m := False, line := t\<rparr>"
  have "utf8_len (line (st\<lparr>pending_m := False\<rparr>) @ [77]) \<le> 512" using assms(3) t by simp
  from push_text_short_line [OF _ this] have p: "push_text (st\<lparr>pending_m := False\<rparr>) 77 = (None, ?st)" by (simp add: t)
  have "accept_unframed ?st 10 = (if trim_line_end t = [] then Activity else DeviceLine (trim_line_end t), stream_default)"
    using accept_newline [of ?st] assms(1) by (simp add: console_def)
  then show ?thesis using assms(1,2) True p
    by (simp add: pump_def read_byte_def pump_byte_def Let_def console_def req_magic)
next
  case False
  then have "t = line st" "deferred st = None" using assms(1) by (simp_all add: console_def)
  then show ?thesis using accept_newline [of st] assms(2) False by (simp add: pump_def read_byte_def pump_byte_def)
qed

text \<open>For the first \<open>n\<close> steps the clock stays before the first retry and before the deadline, and nobody interrupts.\<close>

definition in_time :: "(nat \<Rightarrow> bool) \<Rightarrow> (nat \<Rightarrow> nat) \<Rightarrow> nat \<Rightarrow> nat \<Rightarrow> nat \<Rightarrow> bool" where
  "in_time stop clock n deadline retry_at \<longleftrightarrow> (\<forall>j \<le> 2 * n. \<not> stop j \<and> clock j < deadline \<and> clock j < retry_at)"

lemma in_time_step:
  assumes "in_time stop clock n deadline retry_at" and "k < n"
  shows "\<not> stop (Suc k)" and "\<not> deadline \<le> clock (Suc (2 * k))" and "\<not> retry_at \<le> clock (Suc (Suc (2 * k)))"
proof -
  have "Suc k \<le> 2 * n" "Suc (2 * k) \<le> 2 * n" "Suc (Suc (2 * k)) \<le> 2 * n" using assms(2) by simp_all
  then show "\<not> stop (Suc k)" "\<not> deadline \<le> clock (Suc (2 * k))" "\<not> retry_at \<le> clock (Suc (Suc (2 * k)))"
    using assms(1) unfolding in_time_def not_le by blast+
qed

lemma line_verdict_quiet [simp]: "line_verdict Activity = None" "line_verdict NoByte = None" "line_verdict (DeviceLine []) = None"
  by (auto simp: line_verdict_def Let_def normalize_console_reply_def strip_prefix_def is_attach_ok_def
      has_reply_prefix_def is_attach_err_def ascii_def)

lemma attach_loop_event:
  assumes "in_time stop clock n deadline retry_at" and "k < n"
    and "pump h core verbose st l d = Inr (ev, st1, l1, d1)" and "ev \<in> {Activity, NoByte} \<or> (\<exists>ln. ev = DeviceLine ln)"
  shows "attach_loop h core verbose stop clock policy deadline k attempts retry_at seen st l d lines =
    (case line_verdict ev of
       Some outcome \<Rightarrow> Inr (outcome, lines @ event_line ev, l1, d1)
     | None \<Rightarrow> attach_loop h core verbose stop clock policy deadline (k + 1) attempts retry_at seen st1 l1 d1 (lines @ event_line ev))"
  using in_time_step [OF assms(1,2)] assms(3,4)
  by (subst attach_loop.simps) (auto simp: Let_def split: option.splits)

text \<open>One console line, with read timeouts anywhere in it.\<close>

lemma attach_loop_line:
  assumes "in_time stop clock n deadline retry_at"
  shows "filter (\<lambda>x. x \<noteq> Timeout) pre = map Got cs \<Longrightarrow> l_in l = pre @ Got 10 # rest \<Longrightarrow> console st t \<Longrightarrow>
    10 \<notin> set cs \<Longrightarrow> utf8_len (t @ cs) \<le> 512 \<Longrightarrow> \<forall>u v. t @ cs \<noteq> u @ [77, 83] @ v \<Longrightarrow> k + length pre < n \<Longrightarrow>
    attach_loop h core verbose stop clock policy deadline k attempts retry_at seen st l d lines =
    (let ln = trim_line_end (t @ cs) in
     case line_verdict (DeviceLine ln) of
       Some outcome \<Rightarrow> Inr (outcome, lines @ [ln], l\<lparr>l_in := rest\<rparr>, d)
     | None \<Rightarrow> attach_loop h core verbose stop clock policy deadline (k + length pre + 1) attempts retry_at seen stream_default
         (l\<lparr>l_in := rest\<rparr>) d (lines @ (if ln = [] then [] else [ln])))"
proof (induction pre arbitrary: cs t st l k)
  case Nil
  then have "cs = []" "l_in l = Got 10 # rest" "utf8_len t \<le> 512" "k < n" by simp_all
  with attach_loop_event [OF assms \<open>k < n\<close> pump_newline [OF Nil.prems(3) \<open>l_in l = Got 10 # rest\<close> \<open>utf8_len t \<le> 512\<close>, of h core verbose d],
      of policy attempts seen lines]
  show ?case
    by (cases "trim_line_end t = []"; cases "line_verdict (DeviceLine (trim_line_end t))") (simp_all add: Let_def event_line_def)
next
  case (Cons x pre)
  have kn: "k < n" using Cons.prems(7) by simp
  let ?l1 = "l\<lparr>l_in := pre @ Got 10 # rest\<rparr>"
  have "x \<noteq> Closed" using Cons.prems(1) by (auto simp: Cons_eq_map_conv split: if_splits)
  then consider "x = Timeout" | b where "x = Got b" by (cases x) auto
  then show ?case
  proof cases
    case 1
    have p: "pump h core verbose st l d = Inr (NoByte, st, ?l1, d)"
      using Cons.prems(2,3) 1 by (simp add: pump_def read_byte_def console_def)
    have "attach_loop h core verbose stop clock policy deadline k attempts retry_at seen st l d lines =
        attach_loop h core verbose stop clock policy deadline (k + 1) attempts retry_at seen st ?l1 d lines"
      using attach_loop_event [OF assms kn p] by (simp add: event_line_def)
    also note Cons.IH [of cs ?l1 st t "k + 1"]
    finally show ?thesis using Cons.prems 1
      by (cases "line_verdict (DeviceLine (trim_line_end (t @ cs)))") (simp_all add: Let_def)
  next
    case (2 b)
    then obtain cs1 where cs: "cs = b # cs1" "filter (\<lambda>x. x \<noteq> Timeout) pre = map Got cs1"
      using Cons.prems(1) by (auto simp: Cons_eq_map_conv)
    have m: "\<forall>u. t @ [b] \<noteq> u @ [77, 83]"
      using Cons.prems(6) unfolding cs(1) by (metis append.assoc append_Cons append_Nil)
    have n: "utf8_len (t @ [b]) \<le> 512" using Cons.prems(5) utf8_len_append [of "[b]" cs1] by (simp add: cs(1))
    have r: "l_in l = Got b # pre @ Got 10 # rest" "b \<noteq> 10" using Cons.prems(2,4) 2 cs(1) by auto
    obtain st1 where st1: "console st1 (t @ [b])" and p: "pump h core verbose st l d = Inr (Activity, st1, ?l1, d)"
      using pump_console [OF Cons.prems(3) r n m, of h core verbose d] by blast
    have "attach_loop h core verbose stop clock policy deadline k attempts retry_at seen st l d lines =
        attach_loop h core verbose stop clock policy deadline (k + 1) attempts retry_at seen st1 ?l1 d lines"
      using attach_loop_event [OF assms kn p] by (simp add: event_line_def)
    also note Cons.IH [OF cs(2) _ st1, of ?l1 "k + 1"]
    finally show ?thesis using Cons.prems
      by (cases "line_verdict (DeviceLine (trim_line_end (t @ cs)))") (simp_all add: Let_def cs(1))
  qed
qed

text \<open>The first line of the reads, and what comes after it.\<close>

lemma first_line:
  assumes "filter (\<lambda>x. x \<noteq> Timeout) reads = map Got (c @ 10 # us)"
  shows "\<exists>pre reads'. reads = pre @ Got 10 # reads' \<and> filter (\<lambda>x. x \<noteq> Timeout) pre = map Got c \<and>
    filter (\<lambda>x. x \<noteq> Timeout) reads' = map Got us"
  using assms
proof (induction reads arbitrary: c)
  case (Cons x reads)
  show ?case
  proof (cases "x = Timeout")
    case True
    then obtain pre reads' where "reads = pre @ Got 10 # reads'" "filter (\<lambda>x. x \<noteq> Timeout) pre = map Got c"
      "filter (\<lambda>x. x \<noteq> Timeout) reads' = map Got us" using Cons.IH [of c] Cons.prems by auto
    then show ?thesis using True by (intro exI [of _ "x # pre"] exI [of _ reads']) simp
  next
    case False
    show ?thesis
    proof (cases c)
      case Nil
      then show ?thesis using Cons.prems False by (intro exI [of _ "[]"] exI [of _ reads]) simp
    next
      case (Cons b c1)
      then have x: "x = Got b" and "filter (\<lambda>x. x \<noteq> Timeout) reads = map Got (c1 @ 10 # us)"
        using Cons.prems False by auto
      then obtain pre reads' where "reads = pre @ Got 10 # reads'" "filter (\<lambda>x. x \<noteq> Timeout) pre = map Got c1"
        "filter (\<lambda>x. x \<noteq> Timeout) reads' = map Got us" using Cons.IH [of c1] by auto
      then show ?thesis using False x Cons by (intro exI [of _ "x # pre"] exI [of _ reads']) simp
    qed
  qed
qed simp

text \<open>A console line that the stream reader takes whole: no request starts in it, and it fits the line buffer.\<close>

definition console_line :: "bytes \<Rightarrow> bool" where
  "console_line c \<longleftrightarrow> 10 \<notin> set c \<and> utf8_len c \<le> 512 \<and> (\<forall>u v. c \<noteq> u @ [77, 83] @ v)"

lemma attach_loop_lines:
  assumes "in_time stop clock n deadline retry_at" and "line_verdict (DeviceLine (trim_line_end cs)) = Some outcome"
  shows "filter (\<lambda>x. x \<noteq> Timeout) reads = map Got (concat (map (\<lambda>c. c @ [10]) (ls @ [cs]))) \<Longrightarrow>
    last reads \<noteq> Timeout \<Longrightarrow> l_in l = reads @ rest \<Longrightarrow> \<forall>c \<in> set (ls @ [cs]). console_line c \<Longrightarrow>
    \<forall>c \<in> set ls. line_verdict (DeviceLine (trim_line_end c)) = None \<Longrightarrow> k + length reads \<le> n \<Longrightarrow>
    attach_loop h core verbose stop clock policy deadline k attempts retry_at seen stream_default l d lines =
    Inr (outcome, lines @ filter (\<lambda>c. c \<noteq> []) (map trim_line_end (ls @ [cs])), l\<lparr>l_in := rest\<rparr>, d)"
proof (induction ls arbitrary: reads l k lines)
  case Nil
  from first_line [of reads cs "[]"] Nil.prems(1) obtain pre reads' where r: "reads = pre @ Got 10 # reads'"
    "filter (\<lambda>x. x \<noteq> Timeout) pre = map Got cs" "filter (\<lambda>x. x \<noteq> Timeout) reads' = []" by auto
  have "reads' = []"
  proof (rule ccontr)
    assume "reads' \<noteq> []"
    then have "last reads \<in> set reads'" using r(1) by simp
    then show False using r(3) Nil.prems(2) by (auto simp: filter_empty_conv)
  qed
  moreover have "trim_line_end cs \<noteq> []" using assms(2) by (cases "trim_line_end cs = []") simp_all
  ultimately show ?case
    using attach_loop_line [OF assms(1) r(2), of l rest stream_default "[]" k] Nil.prems r(1) assms(2) console_start
    by (simp add: console_line_def)
next
  case (Cons c ls)
  let ?more = "concat (map (\<lambda>c. c @ [10]) (ls @ [cs]))"
  from first_line [of reads c ?more] Cons.prems(1) obtain pre reads' where r: "reads = pre @ Got 10 # reads'"
    "filter (\<lambda>x. x \<noteq> Timeout) pre = map Got c" "filter (\<lambda>x. x \<noteq> Timeout) reads' = map Got ?more" by auto
  have ne: "reads' \<noteq> []" using r(3) by auto
  have "attach_loop h core verbose stop clock policy deadline k attempts retry_at seen stream_default l d lines =
      attach_loop h core verbose stop clock policy deadline (k + length pre + 1) attempts retry_at seen stream_default
        (l\<lparr>l_in := reads' @ rest\<rparr>) d (lines @ (if trim_line_end c = [] then [] else [trim_line_end c]))"
    using attach_loop_line [OF assms(1) r(2), of l "reads' @ rest" stream_default "[]" k] Cons.prems r(1) console_start
    by (simp add: console_line_def)
  also note Cons.IH [OF r(3)]
  finally show ?case using Cons.prems r(1) ne by simp
qed

lemma attach_answer:
  assumes "\<forall>j \<le> 2 * length reads. \<not> stop j \<and> clock j < clock 0 + 2000"
    and "l_in l = reads @ rest" and "\<not> l_broken l \<and> \<not> l_stuck l"
    and "filter (\<lambda>x. x \<noteq> Timeout) reads = map Got (concat (map (\<lambda>c. c @ [10]) (ls @ [cs])))" and "last reads \<noteq> Timeout"
    and "\<forall>c \<in> set (ls @ [cs]). console_line c"
    and "\<forall>c \<in> set ls. line_verdict (DeviceLine (trim_line_end c)) = None"
    and "line_verdict (DeviceLine (trim_line_end cs)) = Some outcome"
  shows "attach_serial_folder h core verbose stop clock l d =
    Inr (outcome, filter (\<lambda>c. c \<noteq> []) (map trim_line_end (ls @ [cs])), l\<lparr>l_in := rest, l_out := l_out l @ [FOLDER_ON]\<rparr>, d)"
proof -
  let ?l1 = "l\<lparr>l_out := l_out l @ [FOLDER_ON]\<rparr>"
  have t: "in_time stop clock (length reads) (clock 0 + timeout default_policy) (clock 0 + retry_after default_policy)"
    using assms(1) by (fastforce simp: in_time_def default_policy_def mota_const)
  have s: "\<not> stop 0" using assms(1) by simp
  have "l_in ?l1 = reads @ rest" using assms(2) by simp
  from attach_loop_lines [OF t assms(8,4,5) this assms(6,7), of 0] s assms(3) show ?thesis
    by (simp add: attach_serial_folder_def attach_serial_folder_with_policy_def send_folder_on_def send_console_def write_all_def)
qed

end
