(* ===== verification/Mota_Contract.thy ===== *)
theory Mota_Contract
  imports Mota_Package
begin

text \<open>
  What \<open>validate_bootloader_image\<close> of \<open>src/bootloader.rs\<close> accepts, stated without its scans: the identity record, the
  continuity extension and the capability marker as byte strings, the checksum as the bitwise CRC-32 of the image
  with the field zeroed, and that there is one record of each kind. The lemmas relate each to the scan that reads it.
\<close>

section \<open>The checksum, bit by bit\<close>

text \<open>
  CRC-32 as it is specified: the message is shifted in bit by bit, least significant bit first, into a register that
  starts with ones, is reduced by the reflected polynomial, and is inverted at the end.
\<close>

definition crc32_step :: "u32 \<Rightarrow> bool \<Rightarrow> u32" where
  "crc32_step r x = (if bit r 0 \<noteq> x then drop_bit 1 r XOR 0xEDB88320 else drop_bit 1 r)"

definition crc32_spec :: "bytes \<Rightarrow> u32" where
  "crc32_spec bs = NOT (foldl crc32_step 0xFFFFFFFF (concat (map (\<lambda>b. map (bit b) [0..<8]) bs)))"

lemma crc32_step_bit: "crc32_step r x = crc_bit (r XOR of_bool x)"
proof -
  have "drop_bit 1 (r XOR of_bool x) = drop_bit 1 r" by (simp add: drop_bit_xor)
  moreover have "bit (r XOR of_bool x) 0 \<longleftrightarrow> bit r 0 \<noteq> x" by (auto simp: bit_simps)
  ultimately show ?thesis by (simp add: crc32_step_def crc_bit_alt)
qed

lemma crc_bits_push_bit: "n \<le> 24 \<Longrightarrow> (crc_bit ^^ n) (push_bit n (of_bool x)) = of_bool x"
  using crc_bits_push [of n "of_bool x"] by (cases x) simp_all

lemma take_bit_next: "take_bit (Suc n) (w :: u32) = take_bit n w XOR push_bit n (of_bool (bit w n))"
  by (rule bit_word_eqI) (auto simp: bit_simps less_Suc_eq)

lemma crc32_bits: "n \<le> 8 \<Longrightarrow> foldl crc32_step r (map (bit b) [0..<n]) = (crc_bit ^^ n) (r XOR take_bit n (ucast (b :: u8)))"
proof (induction n)
  case (Suc n)
  let ?x = "bit b n"
  have x: "bit (ucast b :: u32) n = ?x" using Suc.prems by (simp add: bit_simps)
  have "foldl crc32_step r (map (bit b) [0..<Suc n]) = crc32_step (foldl crc32_step r (map (bit b) [0..<n])) ?x" by simp
  also have "\<dots> = crc32_step ((crc_bit ^^ n) (r XOR take_bit n (ucast b))) ?x" using Suc by simp
  also have "\<dots> = crc_bit ((crc_bit ^^ n) (r XOR take_bit n (ucast b)) XOR of_bool ?x)" by (rule crc32_step_bit)
  also have "\<dots> = crc_bit ((crc_bit ^^ n) (r XOR take_bit n (ucast b) XOR push_bit n (of_bool ?x)))"
    using crc_bits_push_bit [of n ?x] Suc.prems by (simp add: crc_bits_xor xor.assoc)
  also have "\<dots> = (crc_bit ^^ Suc n) (r XOR take_bit (Suc n) (ucast b))"
    by (simp add: take_bit_next x xor.assoc)
  finally show ?case .
qed simp

lemma crc32_byte: "foldl crc32_step r (map (bit b) [0..<8]) = crc_byte r (b :: u8)"
proof -
  have "take_bit 8 (ucast b :: u32) = ucast b"
    by (rule bit_word_eqI) (auto simp: bit_simps dest: bit_imp_le_length)
  then show ?thesis using crc32_bits [of 8 r b] by (simp add: crc_byte_def)
qed

lemma crc32_spec_run: "crc32_spec bs = NOT (crc_run 0xFFFFFFFF bs)"
proof -
  have "foldl crc32_step r (concat (map (\<lambda>b. map (bit b) [0..<8]) bs)) = crc_run r bs" for r
    by (induction bs arbitrary: r) (simp_all add: crc32_byte crc_run_def)
  then show ?thesis by (simp add: crc32_spec_def)
qed

lemma crc32_zeroed_spec:
  "lo \<le> hi \<Longrightarrow> hi \<le> length bs \<Longrightarrow> crc32_with_zeroed bs lo hi = crc32_spec (take lo bs @ replicate (hi - lo) 0 @ drop hi bs)"
  by (simp add: crc32_zeroed crc32_spec_run zeroed_take_drop)

section \<open>The records of an image\<close>

text \<open>An identity record: its fields, the padded device name, and the checksum of the image with the checksum field zero.\<close>

definition manifest_head :: "u32 \<Rightarrow> bytes \<Rightarrow> bytes" where
  "manifest_head b n = ascii ''BLMFCRC1'' @ le_u16 1 @ le_u16 44 @ le_u32 0x000F4000 @ le_u32 40960 @ le_u32 b @
     n @ replicate (16 - length n) 0"

definition manifest_at :: "bytes \<Rightarrow> nat \<Rightarrow> u32 \<Rightarrow> bytes \<Rightarrow> bool" where
  "manifest_at img off b n \<longleftrightarrow> b \<noteq> 0 \<and> b \<noteq> 0xFFFFFFFF \<and> name_ok n \<and>
    (\<exists>pre rest. length pre = off \<and>
      img = pre @ manifest_head b n @ le_u32 (crc32_spec (pre @ manifest_head b n @ [0, 0, 0, 0] @ rest)) @ rest)"

text \<open>A capability marker: the format ABI, the codecs (bits 0 and 2 at least), the storage byte and three zero bytes.\<close>

definition marker_at :: "bytes \<Rightarrow> nat \<Rightarrow> u8 \<Rightarrow> bool" where
  "marker_at img off s \<longleftrightarrow>
    (s = 0x16 \<or> 8 \<le> s \<and> s < 16) \<and>
    (\<exists>pre abi codecs rest. length pre = off \<and>
      img = pre @ ascii ''MOTABLDR'' @ le_u16 abi @ le_u16 codecs @ [s, 0, 0, 0] @ rest \<and>
      (if s = 0x16 then 2 else 3) \<le> abi \<and> abi \<noteq> 0xFFFF \<and> bit codecs 0 \<and> bit codecs 2)"

text \<open>The continuity extension: version, SoftDevice family and id, application base, layout ABI.\<close>

definition continuity_at :: "bytes \<Rightarrow> nat \<Rightarrow> u32 \<Rightarrow> u16 \<Rightarrow> u16 \<Rightarrow> u32 \<Rightarrow> u16 \<Rightarrow> bool" where
  "continuity_at img off v family fwid app_base abi \<longleftrightarrow>
    version_valid v \<and> family \<noteq> 0 \<and> fwid \<noteq> 0 \<and> app_base \<noteq> 0 \<and> abi \<noteq> 0 \<and>
    (\<exists>pre rest. length pre = off \<and>
      img = pre @ ascii ''BLM2SOFT'' @ le_u16 2 @ le_u16 32 @ le_u32 v @ le_u16 family @ le_u16 fwid @ le_u32 app_base @
        le_u16 abi @ [0, 0, 0, 0, 0, 0] @ rest)"

text \<open>Reading fields at their offsets, and an image as the fields read.\<close>

lemma le_at:
  "m = k + 2 \<Longrightarrow> m \<le> length img \<Longrightarrow> slice k m img = le_u16 (u16_at img k)"
  "m = k + 4 \<Longrightarrow> m \<le> length img \<Longrightarrow> slice k m img = le_u32 (u32_at img k)"
  by (simp_all add: u16_at_def u32_at_def u16f.enc_dec u32f.enc_dec)

lemma at_pre:
  assumes "length pre = off"
  shows "slice (off + a) (off + b) (pre @ xs) = slice a b xs" and "slice off (off + b) (pre @ xs) = slice 0 b xs"
    and "u16_at (pre @ xs) (off + a) = u16_at xs a" and "u32_at (pre @ xs) (off + a) = u32_at xs a"
  using assms by (simp_all add: u16_at_def u32_at_def slice_append_right)

lemma guarded_Some:
  assumes "(if a then None else if b then None else Some x) = Some y"
  shows "\<not> a" and "\<not> b" and "y = x"
  using assms by (auto split: if_splits)

lemma valid_device_name_raw:
  assumes "valid_device_name b raw = Some n" and "length raw = 16"
  shows "raw = n @ replicate (16 - length n) 0" and "length n \<le> 15"
proof -
  let ?pre = "takeWhile (\<lambda>b. b \<noteq> 0) raw"
  have "raw = n @ replicate (16 - length n) 0 \<and> length n \<le> 15"
  proof (cases "b \<in> {XIAO_BASE, XIAO_SENSE} \<and> raw = ascii ''XIAO_DFU'' @ replicate 8 0")
    case True
    then have "n = ascii ''XIAO_DFU''" using assms(1) by (auto simp: valid_device_name_def split: if_splits)
    then show ?thesis using True by simp
  next
    case False
    have nb: "\<not> (b = 0 \<or> b = 0xFFFFFFFF)" using assms(1) by (intro notI) (simp add: valid_device_name_def)
    note v = assms(1) [unfolded valid_device_name_def Let_def if_not_P [OF nb] if_not_P [OF False]]
    note g = guarded_Some [OF v]
    have n: "n = ?pre" and nul: "0 \<in> set raw" using g(1,3) by simp_all
    have z: "\<forall>x \<in> set (drop (length ?pre) raw). x = 0" using g(2) by (simp only: list_ex_iff de_Morgan_disj) blast
    have "0 \<notin> set ?pre" using set_takeWhileD [of 0 "\<lambda>b. b \<noteq> 0" raw] by blast
    then have "?pre \<noteq> raw" using nul by (intro notI) simp
    moreover have "?pre = raw" if "length ?pre = 16"
      using takeWhile_eq_take [of "\<lambda>b. b \<noteq> 0" raw] assms(2) that by simp
    moreover have "length ?pre \<le> 16" using length_takeWhile_le [of "\<lambda>b. b \<noteq> 0" raw] assms(2) by simp
    ultimately have l: "length ?pre < 16" by fastforce
    have "drop (length ?pre) raw = replicate (length (drop (length ?pre) raw)) 0"
      using z by (simp only: replicate_length_same)
    moreover have "length (drop (length ?pre) raw) = 16 - length ?pre" using assms(2) by simp
    moreover have "raw = ?pre @ drop (length ?pre) raw" using append_take_drop_id [of "length ?pre" raw]
      unfolding takeWhile_eq_take [of "\<lambda>b. b \<noteq> 0" raw, symmetric] by (rule sym)
    ultimately have "raw = ?pre @ replicate (16 - length ?pre) 0" by metis
    then show ?thesis using l by (simp add: n)
  qed
  then show "raw = n @ replicate (16 - length n) 0" "length n \<le> 15" by simp_all
qed

lemma length_manifest_head: "length n \<le> 15 \<Longrightarrow> length (manifest_head b n) = 40"
  by (simp add: manifest_head_def)

lemma manifest_fields:
  fixes b crc :: u32 and rest :: bytes
  assumes "length n \<le> 15"
  defines "m \<equiv> manifest_head b n @ le_u32 crc @ rest"
  shows "slice 0 8 m = MANIFEST_MAGIC" and "u16_at m 8 = 1" and "u16_at m 10 = 44" and "u32_at m 12 = 0x000F4000"
    and "u32_at m 16 = 40960" and "u32_at m 20 = b" and "slice 24 40 m = n @ replicate (16 - length n) 0" and "u32_at m 40 = crc"
  using assms(1) by (simp_all add: m_def manifest_head_def u16_at_def u32_at_def slice_def MANIFEST_MAGIC_def)

lemma manifest_at_iff:
  "manifest_at img off b n \<longleftrightarrow> off + 44 \<le> length img \<and> identity_record img off = Some (b, n)"
proof
  assume "manifest_at img off b n"
  then obtain pre rest where b: "b \<noteq> 0" "b \<noteq> 0xFFFFFFFF" "name_ok n" and pre: "length pre = off"
    and img: "img = pre @ manifest_head b n @ le_u32 (crc32_spec (pre @ manifest_head b n @ [0, 0, 0, 0] @ rest)) @ rest"
    unfolding manifest_at_def by blast
  have n: "length n \<le> 15" using b(3) by (simp add: name_ok_def)
  let ?crc = "crc32_spec (pre @ manifest_head b n @ [0, 0, 0, 0] @ rest)"
  note f = manifest_fields [OF n, of b ?crc rest]
  have l: "off + 44 \<le> length img" using pre by (simp add: img length_manifest_head [OF n])
  have "crc32_with_zeroed img (off + 40) (off + 44) = ?crc"
    using crc32_zeroed_spec [of "off + 40" "off + 44" img] l pre
    by (simp add: img length_manifest_head [OF n] numeral_eq_Suc)
  then have "identity_record img off = Some (b, n)"
    using f valid_device_name_padded [OF n, of b] b
    by (simp add: identity_record_def img at_pre [OF pre] Let_def mota_const)
  then show "off + 44 \<le> length img \<and> identity_record img off = Some (b, n)" using l by simp
next
  assume "off + 44 \<le> length img \<and> identity_record img off = Some (b, n)"
  then have l: "off + 44 \<le> length img" and r: "identity_record img off = Some (b, n)" by simp_all
  let ?raw = "slice (off + 24) (off + 40) img"
  have f: "slice off (off + 8) img = MANIFEST_MAGIC" "u16_at img (off + 8) = 1" "unat (u16_at img (off + 10)) = 44"
    "u32_at img (off + 12) = 0x000F4000" "unat (u32_at img (off + 16)) = 40960" "u32_at img (off + 20) = b"
    "valid_device_name b ?raw = Some n" "u32_at img (off + 40) = crc32_with_zeroed img (off + 40) (off + 44)"
    using r by (auto simp: identity_record_def Let_def mota_const split: if_splits option.splits)
  have "length ?raw = 16" using l by simp
  note name = valid_device_name_raw [OF f(7) this]
  have bn: "b \<noteq> 0" "b \<noteq> 0xFFFFFFFF" "name_ok n"
    using valid_device_name_padded [OF name(2), of b] f(7) name(1) by simp_all
  have u: "u16_at img (off + 10) = 44" "u32_at img (off + 16) = 40960"
    using f(3,5) by (simp_all add: word_unat_eq_iff)
  let ?pre = "take off img" and ?rest = "drop (off + 44) img"
  have head: "manifest_head b n = slice off (off + 40) img"
  proof -
    have "manifest_head b n = slice off (off + 8) img @ slice (off + 8) (off + 10) img @ slice (off + 10) (off + 12) img @
        slice (off + 12) (off + 16) img @ slice (off + 16) (off + 20) img @ slice (off + 20) (off + 24) img @ ?raw"
      using l f(1,2,4,6) u name(1) by (simp add: le_at manifest_head_def MANIFEST_MAGIC_def)
    also have "\<dots> = slice off (off + 40) img" by (simp add: slice_join)
    finally show ?thesis .
  qed
  have "drop off img = slice off (off + 40) img @ drop (off + 40) img"
    and "drop (off + 40) img = slice (off + 40) (off + 44) img @ ?rest" by (rule slice_drop_split; simp)+
  then have img: "?pre @ slice off (off + 40) img @ slice (off + 40) (off + 44) img @ ?rest = img"
    by (metis append_take_drop_id)
  have "crc32_with_zeroed img (off + 40) (off + 44) = crc32_spec (?pre @ slice off (off + 40) img @ [0, 0, 0, 0] @ ?rest)"
  proof -
    have "take (off + 40) img = ?pre @ slice off (off + 40) img" by (simp add: slice_def take_add)
    then show ?thesis using crc32_zeroed_spec [of "off + 40" "off + 44" img] l by (simp add: numeral_eq_Suc)
  qed
  then have crc: "slice (off + 40) (off + 44) img = le_u32 (crc32_spec (?pre @ manifest_head b n @ [0, 0, 0, 0] @ ?rest))"
    using l f(8) by (simp add: le_at head)
  have "length ?pre = off" using l by simp
  then show "manifest_at img off b n" unfolding manifest_at_def using bn img [symmetric] crc head by metis
qed

lemma storage_bits:
  "s AND NOT 0x1F \<noteq> 0 \<or> s AND 0x10 \<noteq> 0 \<and> s \<noteq> 0x16 \<or> s AND 8 = 0 \<and> s \<noteq> 0x16 \<longleftrightarrow>
    \<not> (s = 0x16 \<or> 8 \<le> s \<and> s < (16 :: u8))"
proof -
  let ?P = "\<lambda>s :: u8. (s AND NOT 0x1F \<noteq> 0 \<or> s AND 0x10 \<noteq> 0 \<and> s \<noteq> 0x16 \<or> s AND 8 = 0 \<and> s \<noteq> 0x16) =
    (\<not> (s = 0x16 \<or> 8 \<le> s \<and> s < 16))"
  have all: "list_all ?P (map of_nat [0..<256])" by code_simp
  have "s = of_nat (unat s)" "unat s < 256" using unsigned_less [of s] by simp_all
  then have "s \<in> set (map of_nat [0..<256])" by (metis atLeastLessThan_iff image_eqI list.set_map set_upt zero_le)
  then show ?thesis using all by (simp only: list_all_iff)
qed

lemma codec_bits: "codecs AND REQUIRED_APP_CODEC_MASK = REQUIRED_APP_CODEC_MASK \<longleftrightarrow> bit codecs 0 \<and> bit codecs 2"
proof -
  have m: "bit REQUIRED_APP_CODEC_MASK i \<longleftrightarrow> i = 0 \<or> i = 2" for i
    unfolding REQUIRED_APP_CODEC_MASK_def by (simp only: bit_or_iff bit_push_bit_iff bit_1_iff) auto
  have "codecs AND M = M \<longleftrightarrow> (\<forall>i. bit M i \<longrightarrow> bit codecs i)" for M
    by (metis bit_and_iff bit_eqI)
  then show ?thesis using m by auto
qed

lemma marker_fields:
  fixes abi codecs :: u16 and s :: u8 and rest :: bytes
  defines "m \<equiv> ascii ''MOTABLDR'' @ le_u16 abi @ le_u16 codecs @ [s, 0, 0, 0] @ rest"
  shows "slice 0 8 m = CAPS_MAGIC" and "u16_at m 8 = abi" and "u16_at m 10 = codecs" and "m ! 12 = s"
    and "slice 13 16 m = [0, 0, 0]"
  by (simp_all add: m_def u16_at_def slice_def CAPS_MAGIC_def nth_append)

lemma byte_at: "m = k + 1 \<Longrightarrow> k < length img \<Longrightarrow> slice k m img = [img ! k]"
  using nth_slice [of k img] by simp

lemma capability_record_Some:
  "capability_record img off = Some s \<longleftrightarrow>
    slice off (off + 8) img = CAPS_MAGIC \<and> img ! (off + 12) = s \<and> slice (off + 13) (off + 16) img = [0, 0, 0] \<and>
    (s = 0x16 \<or> 8 \<le> s \<and> s < 16) \<and> (if s = 0x16 then 2 else 3) \<le> u16_at img (off + 8) \<and> u16_at img (off + 8) \<noteq> 0xFFFF \<and>
    bit (u16_at img (off + 10)) 0 \<and> bit (u16_at img (off + 10)) 2"
proof -
  have r: "STORAGE_RAK_AUTO_RECOVERY = 0x16" by (simp add: mota_const)
  note b = storage_bits [of "img ! (off + 12)"]
  show ?thesis
    unfolding capability_record_def Let_def codec_bits r STORAGE_KNOWN_def STORAGE_HEADER_W25_def STORAGE_UPDATE_def REQUIRED_FORMAT_ABI_def
    using b by (auto simp: not_less)
qed

lemma marker_at_iff:
  "marker_at img off s \<longleftrightarrow> off + 16 \<le> length img \<and> capability_record img off = Some s"
proof
  assume "marker_at img off s"
  then obtain pre abi codecs rest where s: "s = 0x16 \<or> 8 \<le> s \<and> s < 16" and pre: "length pre = off"
    and img: "img = pre @ ascii ''MOTABLDR'' @ le_u16 abi @ le_u16 codecs @ [s, 0, 0, 0] @ rest"
    and c: "(if s = 0x16 then 2 else 3) \<le> abi" "abi \<noteq> 0xFFFF" "bit codecs 0" "bit codecs 2"
    unfolding marker_at_def by blast
  note f = marker_fields [of abi codecs s rest]
  have "off + 16 \<le> length img" using pre by (simp add: img)
  moreover have "img ! (off + 12) = s" using f(4) pre by (simp add: img nth_append)
  ultimately show "off + 16 \<le> length img \<and> capability_record img off = Some s"
    unfolding capability_record_Some using s c f by (simp only: img at_pre [OF pre] simp_thms)
next
  assume "off + 16 \<le> length img \<and> capability_record img off = Some s"
  then have l: "off + 16 \<le> length img" and r: "capability_record img off = Some s" by simp_all
  note f = r [unfolded capability_record_Some]
  let ?pre = "take off img" and ?rest = "drop (off + 16) img"
  let ?abi = "u16_at img (off + 8)" and ?codecs = "u16_at img (off + 10)"
  have "drop off img = slice off (off + 8) img @ drop (off + 8) img"
    and "drop (off + 8) img = slice (off + 8) (off + 10) img @ drop (off + 10) img"
    and "drop (off + 10) img = slice (off + 10) (off + 12) img @ drop (off + 12) img"
    and "drop (off + 12) img = slice (off + 12) (off + 13) img @ drop (off + 13) img"
    and "drop (off + 13) img = slice (off + 13) (off + 16) img @ ?rest" by (rule slice_drop_split; simp)+
  moreover have "slice (off + 12) (off + 13) img = [s]" using f l by (simp add: byte_at)
  moreover have "slice (off + 8) (off + 10) img = le_u16 ?abi" "slice (off + 10) (off + 12) img = le_u16 ?codecs"
    using l by (simp_all add: le_at)
  ultimately have "drop off img = ascii ''MOTABLDR'' @ le_u16 ?abi @ le_u16 ?codecs @ [s, 0, 0, 0] @ ?rest"
    using f by (simp add: CAPS_MAGIC_def)
  then have "img = ?pre @ ascii ''MOTABLDR'' @ le_u16 ?abi @ le_u16 ?codecs @ [s, 0, 0, 0] @ ?rest"
    using append_take_drop_id [of off img] by simp
  moreover have "length ?pre = off" using l by simp
  ultimately show "marker_at img off s" unfolding marker_at_def using f by blast
qed

lemma continuity_fields:
  fixes v app_base :: u32 and family fwid abi :: u16 and rest :: bytes
  defines "m \<equiv> ascii ''BLM2SOFT'' @ le_u16 2 @ le_u16 32 @ le_u32 v @ le_u16 family @ le_u16 fwid @ le_u32 app_base @
    le_u16 abi @ le_u16 0 @ le_u32 0 @ rest"
  shows "slice 0 8 m = CONTINUITY_MAGIC" and "u16_at m 8 = 2" and "u16_at m 10 = 32" and "u32_at m 12 = v"
    and "u16_at m 16 = family" and "u16_at m 18 = fwid" and "u32_at m 20 = app_base" and "u16_at m 24 = abi"
    and "u16_at m 26 = 0" and "u32_at m 28 = 0"
  by (simp_all add: m_def u16_at_def u32_at_def slice_def CONTINUITY_MAGIC_def)

lemma zero_fields: "[0, 0, 0, 0, 0, 0] @ rest = le_u16 0 @ le_u32 0 @ rest"
proof -
  have "le_u16 0 = [0, 0]" "le_u32 0 = [0, 0, 0, 0]" by code_simp+
  then show ?thesis by simp
qed

lemma continuity_at_iff:
  "continuity_at img (off + 44) v family fwid app_base abi \<longleftrightarrow> continuity_ok img off \<and>
    v = u32_at img (off + 56) \<and> family = u16_at img (off + 60) \<and> fwid = u16_at img (off + 62) \<and>
    app_base = u32_at img (off + 64) \<and> abi = u16_at img (off + 68)"
proof
  assume "continuity_at img (off + 44) v family fwid app_base abi"
  then obtain pre rest where c: "version_valid v" "family \<noteq> 0" "fwid \<noteq> 0" "app_base \<noteq> 0" "abi \<noteq> 0"
    and pre: "length pre = off + 44"
    and img: "img = pre @ ascii ''BLM2SOFT'' @ le_u16 2 @ le_u16 32 @ le_u32 v @ le_u16 family @ le_u16 fwid @ le_u32 app_base @
        le_u16 abi @ le_u16 0 @ le_u32 0 @ rest"
    unfolding continuity_at_def zero_fields by blast
  note f = continuity_fields [of v family fwid app_base abi rest]
  have l: "off + 76 \<le> length img" using pre by (simp add: img)
  have o: "off + 52 = off + 44 + 8" "off + 54 = off + 44 + 10" "off + 56 = off + 44 + 12" "off + 60 = off + 44 + 16"
    "off + 62 = off + 44 + 18" "off + 64 = off + 44 + 20" "off + 68 = off + 44 + 24" "off + 70 = off + 44 + 26" "off + 72 = off + 44 + 28"
    by simp_all
  have e: "slice (off + 44) (off + 52) img = CONTINUITY_MAGIC" "u16_at img (off + 52) = 2" "u16_at img (off + 54) = 32"
    "u32_at img (off + 56) = v" "u16_at img (off + 60) = family" "u16_at img (off + 62) = fwid" "u32_at img (off + 64) = app_base"
    "u16_at img (off + 68) = abi" "u16_at img (off + 70) = 0" "u32_at img (off + 72) = 0"
    unfolding o img at_pre [OF pre] by (rule f)+
  show "continuity_ok img off \<and> v = u32_at img (off + 56) \<and> family = u16_at img (off + 60) \<and> fwid = u16_at img (off + 62) \<and>
    app_base = u32_at img (off + 64) \<and> abi = u16_at img (off + 68)"
    using c l e by (simp add: continuity_ok_def mota_const)
next
  assume a: "continuity_ok img off \<and> v = u32_at img (off + 56) \<and> family = u16_at img (off + 60) \<and> fwid = u16_at img (off + 62) \<and>
    app_base = u32_at img (off + 64) \<and> abi = u16_at img (off + 68)"
  then have l: "off + 76 \<le> length img" by (simp add: continuity_ok_def mota_const)
  let ?pre = "take (off + 44) img" and ?rest = "drop (off + 76) img"
  have "drop (off + 44) img = slice (off + 44) (off + 52) img @ drop (off + 52) img"
    and "drop (off + 52) img = slice (off + 52) (off + 54) img @ drop (off + 54) img"
    and "drop (off + 54) img = slice (off + 54) (off + 56) img @ drop (off + 56) img"
    and "drop (off + 56) img = slice (off + 56) (off + 60) img @ drop (off + 60) img"
    and "drop (off + 60) img = slice (off + 60) (off + 62) img @ drop (off + 62) img"
    and "drop (off + 62) img = slice (off + 62) (off + 64) img @ drop (off + 64) img"
    and "drop (off + 64) img = slice (off + 64) (off + 68) img @ drop (off + 68) img"
    and "drop (off + 68) img = slice (off + 68) (off + 70) img @ drop (off + 70) img"
    and "drop (off + 70) img = slice (off + 70) (off + 72) img @ drop (off + 72) img"
    and "drop (off + 72) img = slice (off + 72) (off + 76) img @ ?rest" by (rule slice_drop_split; simp)+
  moreover have "u16_at img (off + 54) = 32" using a by (simp add: continuity_ok_def word_unat_eq_iff mota_const)
  ultimately have "drop (off + 44) img = ascii ''BLM2SOFT'' @ le_u16 2 @ le_u16 32 @ le_u32 v @ le_u16 family @ le_u16 fwid @
      le_u32 app_base @ le_u16 abi @ le_u16 0 @ le_u32 0 @ ?rest"
    using a l by (simp add: le_at continuity_ok_def CONTINUITY_MAGIC_def mota_const)
  then have "img = ?pre @ ascii ''BLM2SOFT'' @ le_u16 2 @ le_u16 32 @ le_u32 v @ le_u16 family @ le_u16 fwid @
      le_u32 app_base @ le_u16 abi @ le_u16 0 @ le_u32 0 @ ?rest"
    using append_take_drop_id [of "off + 44" img] by simp
  moreover have "length ?pre = off + 44" using l by simp
  moreover have c: "version_valid v" "family \<noteq> 0" "fwid \<noteq> 0" "app_base \<noteq> 0" "abi \<noteq> 0"
    using a by (simp_all add: continuity_ok_def)
  ultimately show "continuity_at img (off + 44) v family fwid app_base abi"
    unfolding continuity_at_def zero_fields using c by blast
qed

section \<open>The image contract, spelled out\<close>

text \<open>
  What an accepted image is, in terms of the bytes of its records. A record counts only at a multiple of four: exactly
  one identity record, at the fixed offset, and exactly one capability marker, whatever its storage byte.
\<close>

definition bootloader_contract ::
  "crypto \<Rightarrow> bytes \<Rightarrow> u32 \<Rightarrow> bytes \<Rightarrow> u32 \<Rightarrow> u32 \<Rightarrow> bytes \<Rightarrow> u16 \<Rightarrow> u16 \<Rightarrow> u32 \<Rightarrow> u16 \<Rightarrow> u8 \<Rightarrow> bool"
where
  "bootloader_contract c img tid hw v b n family fwid app_base abi s \<longleftrightarrow>
    length img = 40960 \<and> vector_ok img \<and>
    manifest_at img 40884 b n \<and> (\<forall>off b' n'. 4 dvd off \<longrightarrow> manifest_at img off b' n' \<longrightarrow> off = 40884) \<and>
    continuity_at img 40928 v family fwid app_base abi \<and>
    hw = hw_text b n @ replicate (32 - length (hw_text b n)) 0 \<and>
    tid = (if b \<in> {0x28860044, 0x28860045} \<and> n = ascii ''XIAO_DFU'' then b else u32_le (take 4 (sha256 c hw))) \<and>
    (\<exists>off. 4 dvd off \<and> marker_at img off s \<and> (\<forall>off' s'. 4 dvd off' \<longrightarrow> marker_at img off' s' \<longrightarrow> off' = off)) \<and>
    s \<in> {9, 10, 14, 0x16} \<and> s \<in> set (qualified_storage b n) \<and>
    (\<forall>p. qualified_platform b n = Some p \<longrightarrow> p = (family, fwid, app_base, abi))"

lemma filter_steps4_single:
  assumes "k \<le> length img" and "\<And>off. Q off \<longleftrightarrow> off + k \<le> length img \<and> P off"
  shows "filter P (steps4 (length img - k)) = [o1] \<longleftrightarrow> 4 dvd o1 \<and> Q o1 \<and> (\<forall>off. 4 dvd off \<longrightarrow> Q off \<longrightarrow> off = o1)"
proof -
  have elem: "off \<in> set (steps4 (length img - k)) \<longleftrightarrow> 4 dvd off \<and> off + k \<le> length img" for off
    using assms(1) by (auto simp: steps4_elem elim!: dvdE)
  have set_eq: "set (filter P (steps4 (length img - k))) = {off. 4 dvd off \<and> Q off}"
    using elem assms(2) by auto
  show ?thesis
  proof
    assume f: "filter P (steps4 (length img - k)) = [o1]"
    then have "{off. 4 dvd off \<and> Q off} = {o1}" using set_eq by simp
    then show "4 dvd o1 \<and> Q o1 \<and> (\<forall>off. 4 dvd off \<longrightarrow> Q off \<longrightarrow> off = o1)" by blast
  next
    assume q: "4 dvd o1 \<and> Q o1 \<and> (\<forall>off. 4 dvd off \<longrightarrow> Q off \<longrightarrow> off = o1)"
    show "filter P (steps4 (length img - k)) = [o1]"
      by (rule filter_single [OF distinct_steps4]) (use q elem assms(2) in blast)+
  qed
qed

lemma identity_offsets_iff:
  assumes "44 \<le> length img"
  shows "identity_offsets img = [o1] \<longleftrightarrow>
    4 dvd o1 \<and> (\<exists>b n. manifest_at img o1 b n) \<and> (\<forall>off. 4 dvd off \<longrightarrow> (\<exists>b n. manifest_at img off b n) \<longrightarrow> off = o1)"
  unfolding identity_offsets_def MANIFEST_SIZE_def
  by (rule filter_steps4_single [OF assms]) (auto simp: manifest_at_iff)

lemma capability_storage_iff:
  assumes "16 \<le> length img"
  shows "capability_storage img = Inr (Some s) \<longleftrightarrow> known_profile s \<and>
    (\<exists>off. 4 dvd off \<and> marker_at img off s \<and> (\<forall>off' s'. 4 dvd off' \<longrightarrow> marker_at img off' s' \<longrightarrow> off' = off))"
proof -
  have "capability_offsets img = [o1] \<longleftrightarrow>
      4 dvd o1 \<and> (\<exists>s. marker_at img o1 s) \<and> (\<forall>off. 4 dvd off \<longrightarrow> (\<exists>s. marker_at img off s) \<longrightarrow> off = o1)" for o1
    unfolding capability_offsets_def by (rule filter_steps4_single [OF assms]) (auto simp: marker_at_iff)
  then show ?thesis using assms by (auto simp: capability_storage_Some marker_at_iff)
qed

lemma known_profile_values: "known_profile s \<longleftrightarrow> s \<in> {9, 10, 14, 0x16}"
  by (auto simp: known_profile_def mota_const)

lemma image_contract_iff:
  "image_contract c img tid hw v b n s \<and> i = (identity_at img CANDIDATE_MANIFEST_OFFSET b n)\<lparr>storage_flags := s\<rparr> \<longleftrightarrow>
    (\<exists>family fwid app_base abi. bootloader_contract c img tid hw v b n family fwid app_base abi s \<and>
      i = \<lparr>manifest_offset = 40884, b_board_id = b, b_device_name = n, boot_version = v, b_softdevice_family = family,
        b_softdevice_fwid = fwid, b_app_base = app_base, b_layout_abi = abi, storage_flags = s\<rparr>)"
proof (cases "length img = 40960")
  case True
  then have l: "44 \<le> length img" "16 \<le> length img" by simp_all
  let ?v = "u32_at img 40940" and ?family = "u16_at img 40944" and ?fwid = "u16_at img 40946"
  let ?base = "u32_at img 40948" and ?abi = "u16_at img 40952"
  have k: "CANDIDATE_MANIFEST_OFFSET = 40884" by (simp add: mota_const)
  have cont: "continuity_at img 40928 v family fwid app_base abi \<longleftrightarrow> continuity_ok img 40884 \<and>
      v = ?v \<and> family = ?family \<and> fwid = ?fwid \<and> app_base = ?base \<and> abi = ?abi" for v family fwid app_base abi
    using continuity_at_iff [of img 40884 v family fwid app_base abi] by simp
  have m: "manifest_at img 40884 b n \<longleftrightarrow> identity_record img 40884 = Some (b, n)" for b n
    using True by (simp add: manifest_at_iff)
  have names: "b \<noteq> 0 \<and> b \<noteq> 0xFFFFFFFF \<and> name_ok n" if "identity_record img 40884 = Some (b, n)"
    using m [of b n] that by (simp add: manifest_at_def)
  let ?hw = "hw_text b n @ replicate (32 - length (hw_text b n)) 0"
  let ?xiao = "b \<in> {0x28860044, 0x28860045} \<and> n = ascii ''XIAO_DFU''"
  have same: "image_contract c img tid hw v b n s \<longleftrightarrow> bootloader_contract c img tid hw v b n ?family ?fwid ?base ?abi s"
  proof (cases "identity_record img 40884 = Some (b, n) \<and> hw = ?hw")
    case rec: True
    have hw: "bootloader_hw_id b n = Inr ?hw" using names rec by (simp add: bootloader_hw_id_Inr)
    have x: "{XIAO_BASE, XIAO_SENSE} = {0x28860044, 0x28860045}" by (simp add: mota_const)
    have tid: "bootloader_target_id c b n = Inr tid \<longleftrightarrow> tid = (if ?xiao then b else u32_le (take 4 (sha256 c ?hw)))"
      unfolding bootloader_target_id_Inr [OF hw] x by (auto simp only: sum.inject)
    have ids: "identity_offsets img = [40884] \<longleftrightarrow> (\<forall>off b' n'. 4 dvd off \<longrightarrow> manifest_at img off b' n' \<longrightarrow> off = 40884)"
    proof -
      have "(4 :: nat) dvd 40884" by simp
      moreover have "\<exists>b n. manifest_at img 40884 b n" using m [of b n] rec by blast
      ultimately show ?thesis unfolding identity_offsets_iff [OF l(1)] by blast
    qed
    have size: "IMAGE_SIZE = 40960" by (simp add: mota_const)
    have r: "identity_record img 40884 = Some (b, n)" and h: "hw_text b n @ replicate (32 - length (hw_text b n)) 0 = hw" using rec by simp_all
    show ?thesis
      unfolding image_contract_def bootloader_contract_def k cont ids m capability_storage_iff [OF l(2)] known_profile_values
        tid [unfolded h] hw [unfolded h] h r size True
      by (simp only: simp_thms sum.inject option.inject conj_ac)
  next
    case False
    then have "\<not> image_contract c img tid hw v b n s"
      using names by (auto simp: image_contract_def k bootloader_hw_id_Inr)
    moreover have "\<not> bootloader_contract c img tid hw v b n ?family ?fwid ?base ?abi s"
      using False m [of b n] by (auto simp: bootloader_contract_def)
    ultimately show ?thesis by blast
  qed
  define ident where "ident v family fwid app_base abi = \<lparr>manifest_offset = 40884, b_board_id = b, b_device_name = n, boot_version = v,
    b_softdevice_family = family, b_softdevice_fwid = fwid, b_app_base = app_base, b_layout_abi = abi, storage_flags = s\<rparr>"
    for v family fwid app_base abi
  have at: "(identity_at img CANDIDATE_MANIFEST_OFFSET b n)\<lparr>storage_flags := s\<rparr> = ident ?v ?family ?fwid ?base ?abi"
    by (simp add: identity_at_def k ident_def)
  have only: "v = ?v \<and> family = ?family \<and> fwid = ?fwid \<and> app_base = ?base \<and> abi = ?abi"
    if "bootloader_contract c img tid hw v b n family fwid app_base abi s" for family fwid app_base abi
    using that unfolding bootloader_contract_def cont by blast
  show ?thesis unfolding at same ident_def [symmetric]
  proof
    assume r: "bootloader_contract c img tid hw v b n ?family ?fwid ?base ?abi s \<and> i = ident ?v ?family ?fwid ?base ?abi"
    then have "v = ?v" using only by blast
    with r show "\<exists>family fwid app_base abi. bootloader_contract c img tid hw v b n family fwid app_base abi s \<and>
      i = ident v family fwid app_base abi" by metis
  next
    assume "\<exists>family fwid app_base abi. bootloader_contract c img tid hw v b n family fwid app_base abi s \<and>
      i = ident v family fwid app_base abi"
    then obtain family fwid app_base abi where r: "bootloader_contract c img tid hw v b n family fwid app_base abi s"
      and i: "i = ident v family fwid app_base abi" by blast
    from only [OF r] r i show "bootloader_contract c img tid hw v b n ?family ?fwid ?base ?abi s \<and> i = ident ?v ?family ?fwid ?base ?abi"
      by simp
  qed
next
  case False
  then show ?thesis by (simp add: image_contract_def bootloader_contract_def mota_const)
qed

lemma validate_bootloader_image_contract:
  "validate_bootloader_image c img tid hw v = Inr i \<longleftrightarrow>
    (\<exists>b n family fwid app_base abi s. bootloader_contract c img tid hw v b n family fwid app_base abi s \<and>
      i = \<lparr>manifest_offset = 40884, b_board_id = b, b_device_name = n, boot_version = v, b_softdevice_family = family,
        b_softdevice_fwid = fwid, b_app_base = app_base, b_layout_abi = abi, storage_flags = s\<rparr>)"
  unfolding validate_bootloader_image_Inr image_contract_iff by blast

end
