(* ===== verification/Mota_Suffix.thy ===== *)
theory Mota_Suffix
  imports Mota_Bsdiff "HOL-Library.List_Lexorder" "HOL-Library.Sublist"
begin

text \<open>
  The match finder of \<open>src/encode.rs\<close> against its specification: the prefix-doubling loop of
  \<open>suffix_array\<close> returns the positions in the lexicographic order of their suffixes, and \<open>search\<close> over
  that array returns a longest match wherever its comparison decides the order of two suffixes. Each round keeps
  \<open>ranked\<close>: the ranks order the suffixes by a prefix whose length doubles.
\<close>

section \<open>Lexicographic order and prefixes\<close>

lemma bytes_less_iff: "bytes_less xs ys \<longleftrightarrow> xs < ys"
  by (induction xs ys rule: bytes_less.induct) simp_all

lemma take_add_le:
  fixes xs ys :: "'a::linorder list"
  shows "take (k + m) xs \<le> take (k + m) ys \<longleftrightarrow>
    take k xs < take k ys \<or> take k xs = take k ys \<and> take m (drop k xs) \<le> take m (drop k ys)"
proof (induction k arbitrary: xs ys)
  case (Suc k)
  then show ?case by (cases xs; cases ys) auto
qed simp

lemma take_le: "take m xs \<le> (xs::'a::linorder list)"
proof (induction m arbitrary: xs)
  case (Suc m)
  then show ?case by (cases xs) auto
qed simp

lemma take_less: "take m xs < take m ys \<Longrightarrow> xs < (ys::'a::linorder list)"
proof (induction m arbitrary: xs ys)
  case (Suc m)
  then show ?case by (cases xs; cases ys) auto
qed simp

section \<open>Dense ranks of a sorted sequence\<close>

text \<open>How often a sequence has changed its value up to a position.\<close>

fun changes :: "(nat \<Rightarrow> 'a) \<Rightarrow> nat \<Rightarrow> int" where
  "changes f 0 = 0"
| "changes f (Suc w) = changes f w + (if f (Suc w) \<noteq> f w then 1 else 0)"

lemma changes_nonneg [simp]: "0 \<le> changes f w"
  by (induction w) simp_all

lemma changes_le: "changes f w \<le> int w"
  by (induction w) simp_all

lemma changes_mono: "v \<le> w \<Longrightarrow> changes f v \<le> changes f w"
  by (induction w) (auto simp: le_Suc_eq intro: order_trans)

lemma changes_less:
  assumes "v < w" and "mono_on {..w} f" and "f v < (f w :: 'a::linorder)"
  shows "changes f v < changes f w"
  using assms
proof (induction w)
  case (Suc w)
  have m: "mono_on {..w} f" using Suc.prems(2) by (rule mono_on_subset) simp
  show ?case
  proof (cases "f (Suc w) = f w")
    case True
    then have "f v < f w" using Suc.prems by simp
    then have "v < w" using Suc.prems(1) by (metis less_antisym less_irrefl)
    then show ?thesis using Suc.IH m \<open>f v < f w\<close> True by simp
  next
    case False
    then show ?thesis using changes_mono [of v w f] Suc.prems(1) by simp
  qed
qed simp

lemma changes_iff:
  assumes "mono_on {..n} f" and "v \<le> n" and "w \<le> n"
  shows "changes f v \<le> changes f w \<longleftrightarrow> (f v \<le> (f w :: 'a::linorder))"
proof
  assume c: "changes f v \<le> changes f w"
  show "f v \<le> f w"
  proof (rule ccontr)
    assume n: "\<not> f v \<le> f w"
    then have "w < v" using assms by (metis atMost_iff linorder_le_less_linear mono_onD)
    then have "changes f w < changes f v"
      using changes_less [of w v f] n assms(2) mono_on_subset [OF assms(1), of "{..v}"] by auto
    with c show False by simp
  qed
next
  assume l: "f v \<le> f w"
  have same: "changes f a = changes f b" if "a \<le> b" "b \<le> n" "f a = f b" for a b
    using that
  proof (induction b)
    case (Suc b)
    show ?case
    proof (cases "a = Suc b")
      case False
      then have ab: "a \<le> b" using Suc.prems by simp
      have "f a \<le> f b" "f b \<le> f (Suc b)"
        using mono_onD [OF assms(1), of a b] mono_onD [OF assms(1), of b "Suc b"] ab Suc.prems(2) by auto
      then have "f b = f (Suc b)" "f a = f b" using Suc.prems(3) by auto
      then show ?thesis using Suc.IH ab Suc.prems by simp
    qed simp
  qed simp
  show "changes f v \<le> changes f w"
  proof (cases "v \<le> w")
    case False
    then have "f w \<le> f v" using mono_onD [OF assms(1), of w v] assms(2) by auto
    then show ?thesis using same [of w v] l False assms(2) by simp
  qed (rule changes_mono)
qed

lemma changes_max: "changes f w = int w \<Longrightarrow> v < w \<Longrightarrow> f (Suc v) \<noteq> f v"
proof (induction w)
  case (Suc w)
  then show ?case using changes_le [of f w] by (cases "v = w") (auto split: if_splits)
qed simp

section \<open>The ranks of one round\<close>

lemma sa_ranks_changes:
  assumes "distinct sa" and "set sa \<subseteq> {..<length tmp}" and "w < length sa"
  shows "sa_ranks rank k sa tmp ! (sa ! w) = changes (\<lambda>v. sa_key rank k (sa ! v)) w"
proof -
  let ?f = "\<lambda>v. sa_key rank k (sa ! v)"
  let ?step = "\<lambda>t w. t[sa ! w := t ! (sa ! (w - 1)) + (if ?f w \<noteq> ?f (w - 1) then 1 else 0)]"
  have b: "sa ! v < length tmp" if "v < length sa" for v
    using assms(2) nth_mem [OF that] by auto
  have "length (foldl ?step (tmp[sa ! 0 := 0]) [1..<Suc m]) = length tmp \<and>
      (\<forall>v \<le> m. foldl ?step (tmp[sa ! 0 := 0]) [1..<Suc m] ! (sa ! v) = changes ?f v)" if "m < length sa" for m
    using that
  proof (induction m)
    case 0
    then show ?case using b [of 0] by simp
  next
    case (Suc m)
    let ?t = "foldl ?step (tmp[sa ! 0 := 0]) [1..<Suc m]"
    have t: "length ?t = length tmp" "\<And>v. v \<le> m \<Longrightarrow> ?t ! (sa ! v) = changes ?f v" using Suc by simp_all
    have u: "foldl ?step (tmp[sa ! 0 := 0]) [1..<Suc (Suc m)] = ?step ?t (Suc m)"
      by (subst upt_Suc_append) (simp_all only: foldl_append foldl.simps le_add1 plus_1_eq_Suc)
    have "?step ?t (Suc m) ! (sa ! v) = changes ?f v" if "v \<le> Suc m" for v
    proof (cases "v = Suc m")
      case True
      then show ?thesis using t b [of "Suc m"] Suc.prems by simp
    next
      case False
      then have "sa ! v \<noteq> sa ! Suc m" using assms(1) that Suc.prems by (simp add: nth_eq_iff_index_eq)
      then show ?thesis using t(2) [of v] False that by simp
    qed
    then show ?case unfolding u using t(1) by simp
  qed
  moreover obtain n where "length sa = Suc n" using assms(3) by (cases "length sa") auto
  ultimately show ?thesis using assms(3) by (simp add: sa_ranks_def less_Suc_eq_le del: upt_Suc)
qed

lemma length_foldl_update: "length (foldl (\<lambda>t w. t[g w := h t w]) t ws) = length t"
  by (induction ws arbitrary: t) simp_all

lemma length_sa_ranks [simp]: "length (sa_ranks rank k sa tmp) = length tmp"
  by (simp add: sa_ranks_def length_foldl_update)


section \<open>Prefix doubling sorts the suffixes\<close>

text \<open>Ranks that order the suffixes by their first \<open>k\<close> bytes.\<close>

definition ranked :: "bytes \<Rightarrow> nat \<Rightarrow> int list \<Rightarrow> bool" where
  "ranked s k rank \<longleftrightarrow> length rank = length s \<and> (\<forall>i < length s. 0 \<le> rank ! i) \<and>
    (\<forall>i < length s. \<forall>j < length s. rank ! i \<le> rank ! j \<longleftrightarrow> take k (drop i s) \<le> take k (drop j s))"

lemma ranked_bytes: "ranked s 1 (map (\<lambda>b. int (unat b)) s)"
proof -
  have "take 1 (drop i s) = [s ! i]" if "i < length s" for i
    using that by (simp add: Cons_nth_drop_Suc [symmetric])
  then show ?thesis by (simp add: ranked_def word_le_def order_le_less [symmetric])
qed

lemma ranked_eq: "ranked s k rank \<Longrightarrow> i < length s \<Longrightarrow> j < length s \<Longrightarrow>
    rank ! i = rank ! j \<longleftrightarrow> take k (drop i s) = take k (drop j s)"
  unfolding ranked_def by (metis order_antisym order_refl)

lemma sa_key_le:
  assumes "ranked s k rank" and "0 < k" and "i < length s" and "j < length s"
  shows "sa_key rank k i \<le> sa_key rank k j \<longleftrightarrow> take (k + k) (drop i s) \<le> take (k + k) (drop j s)"
proof -
  let ?r = "\<lambda>i. if i + k < length rank then rank ! (i + k) else - 1"
  have r: "?r i \<le> ?r j \<longleftrightarrow> take k (drop (i + k) s) \<le> take k (drop (j + k) s)"
  proof (cases "i + k < length s"; cases "j + k < length s")
    assume out: "i + k < length s" "\<not> j + k < length s"
    then have "0 \<le> rank ! (i + k)" using assms(1) by (simp add: ranked_def)
    then have "\<not> rank ! (i + k) \<le> - 1" by linarith
    moreover have "\<not> take k (drop (i + k) s) \<le> []" using out assms(2) by simp
    ultimately
    show ?thesis using out assms(1) by (simp add: ranked_def)
  qed (use assms(1) in \<open>simp_all add: ranked_def\<close>, metis neg_le_0_iff_le order_trans zero_le_one)
  have "rank ! i < rank ! j \<longleftrightarrow> take k (drop i s) < take k (drop j s)"
    using assms(1,3,4) unfolding ranked_def by (metis not_le)
  moreover have "rank ! i = rank ! j \<longleftrightarrow> take k (drop i s) = take k (drop j s)"
    by (rule ranked_eq [OF assms(1,3,4)])
  moreover have "?r i \<le> ?r j \<longleftrightarrow> take k (drop k (drop i s)) \<le> take k (drop k (drop j s))"
    unfolding r by (simp add: add.commute)
  ultimately show ?thesis using order_le_less [of "rank ! i" "rank ! j"]
    unfolding sa_key_def less_eq_prod_simp take_add_le by blast
qed

lemma sorted_mono_on: "sorted (map g xs) \<Longrightarrow> xs \<noteq> [] \<Longrightarrow> mono_on {..length xs - 1} (\<lambda>v. g (xs ! v))"
  by (cases "length xs") (auto simp: mono_on_def sorted_iff_nth_mono less_Suc_eq_le)

lemma ranked_double:
  assumes "ranked s k rank" and "0 < k" and "s \<noteq> []" and "mset sa = mset [0..<length s]"
    and "sorted (map (sa_key rank k) sa)" and "length tmp = length s"
  shows "ranked s (k + k) (sa_ranks rank k sa tmp)"
    and "\<And>v. v < length s \<Longrightarrow> sa_ranks rank k sa tmp ! (sa ! v) = changes (\<lambda>v. sa_key rank k (sa ! v)) v"
proof -
  let ?f = "\<lambda>v. sa_key rank k (sa ! v)"
  have sa: "distinct sa" "set sa = {..<length s}" "length sa = length s"
    using assms(4) mset_eq_imp_distinct_iff [OF assms(4)] mset_eq_setD [OF assms(4)] mset_eq_length [OF assms(4)]
    by (simp_all add: lessThan_atLeast0)
  have c: "sa_ranks rank k sa tmp ! (sa ! v) = changes ?f v" if "v < length s" for v
    using sa_ranks_changes [OF sa(1) _ _] sa assms(6) that by simp
  then show "\<And>v. v < length s \<Longrightarrow> sa_ranks rank k sa tmp ! (sa ! v) = changes ?f v" .
  have m: "mono_on {..length s - 1} ?f"
    using sorted_mono_on [OF assms(5)] sa(3) assms(3) by (metis length_0_conv)
  have at: "\<exists>v < length s. i = sa ! v" if "i < length s" for i
    using that sa by (metis in_set_conv_nth lessThan_iff)
  show "ranked s (k + k) (sa_ranks rank k sa tmp)"
    unfolding ranked_def
  proof (intro conjI allI impI)
    fix i assume "i < length s"
    then show "0 \<le> sa_ranks rank k sa tmp ! i" using at [of i] c by auto
  next
    fix i j assume ij: "i < length s" "j < length s"
    obtain v w where vw: "v < length s" "i = sa ! v" "w < length s" "j = sa ! w" using at ij by metis
    have "changes ?f v \<le> changes ?f w \<longleftrightarrow> ?f v \<le> ?f w"
      by (rule changes_iff [OF m]) (use vw in auto)
    then show "sa_ranks rank k sa tmp ! i \<le> sa_ranks rank k sa tmp ! j \<longleftrightarrow>
        take (k + k) (drop i s) \<le> take (k + k) (drop j s)"
      using c vw sa_key_le [OF assms(1,2) ij] by simp
  qed (simp add: assms(6))
qed

lemma sa_loop_sorted:
  assumes "ranked s (2 ^ e) rank" and "s \<noteq> []" and "mset sa = mset [0..<length s]" and "length tmp = length s"
  shows "sorted (map (\<lambda>i. drop i s) (sa_loop sa rank tmp e))"
  using assms(1,3,4)
proof (induction sa rank tmp e rule: sa_loop.induct)
  case (1 sa rank tmp e)
  let ?k = "2 ^ e :: nat" and ?n = "length sa"
  let ?sa = "sort_key (sa_key rank ?k) sa"
  let ?rank = "sa_ranks rank ?k ?sa tmp"
  have n: "?n = length s" using mset_eq_length [OF "1.prems"(2)] by simp
  have sa: "mset ?sa = mset [0..<length s]" using "1.prems"(2) by simp
  have s: "sorted (map (sa_key rank ?k) ?sa)" by simp
  have k: "0 < ?k" by simp
  have in_range: "?sa ! v < length s" if "v < length s" for v
    using that n mset_eq_setD [OF sa] nth_mem [of v ?sa] by auto
  note r = ranked_double [OF "1.prems"(1) k assms(2) sa s "1.prems"(3)]
  have le: "take (?k + ?k) (drop (?sa ! v) s) \<le> take (?k + ?k) (drop (?sa ! w) s)" if "v \<le> w" "w < length s" for v w
    using sa_key_le [OF "1.prems"(1) k in_range in_range, of v w] s that n
    by (simp add: sorted_iff_nth_mono del: sorted_sort_key)
  consider "nat (?rank ! (?sa ! (?n - 1))) = ?n - 1"
    | "nat (?rank ! (?sa ! (?n - 1))) \<noteq> ?n - 1" "?n \<le> 2 * ?k"
    | "nat (?rank ! (?sa ! (?n - 1))) \<noteq> ?n - 1" "\<not> ?n \<le> 2 * ?k" by blast
  then show ?case
  proof cases
    case 1
    let ?f = "\<lambda>v. sa_key rank ?k (?sa ! v)"
    have "changes ?f (?n - 1) = int (?n - 1)"
      using 1 r(2) [of "?n - 1"] n assms(2) by (simp add: nat_eq_iff)
    then have step: "?f (Suc v) \<noteq> ?f v" if "Suc v < length s" for v
      using changes_max [of ?f "?n - 1" v] that n by simp
    have "drop (?sa ! v) s \<le> drop (?sa ! Suc v) s" if v: "Suc v < length s" for v
    proof -
      have "\<not> ?f (Suc v) \<le> ?f v"
        using step [OF v] s v n by (auto simp: sorted_iff_nth_Suc simp del: sorted_sort_key)
      then have "\<not> take (?k + ?k) (drop (?sa ! Suc v) s) \<le> take (?k + ?k) (drop (?sa ! v) s)"
        using sa_key_le [OF "1.prems"(1) k in_range [OF v] in_range [of v]] v by simp
      then show ?thesis using take_less [of "?k + ?k" "drop (?sa ! v) s"] by (meson not_le order_less_imp_le)
    qed
    then show ?thesis
      using 1 n by (subst sa_loop.simps) (simp add: Let_def sorted_iff_nth_Suc)
  next
    case 2
    then have "drop (?sa ! v) s \<le> drop (?sa ! w) s" if "v \<le> w" "w < length s" for v w
      using le [OF that] n by simp
    then show ?thesis
      using 2 n by (subst sa_loop.simps) (simp add: Let_def sorted_iff_nth_mono)
  next
    case 3
    have "sorted (map (\<lambda>i. drop i s) (sa_loop ?sa ?rank ?rank (Suc e)))"
      by (rule "1.IH" [OF refl refl refl refl 3]) (use r(1) sa "1.prems"(3) in \<open>simp_all add: mult_2\<close>)
    then show ?thesis using 3 by (subst sa_loop.simps) (simp add: Let_def)
  qed
qed

lemma suffix_array_sorted: "sorted (map (\<lambda>i. drop i s) (suffix_array s))"
  using sa_loop_sorted [of s 0 "map (\<lambda>b. int (unat b)) s" "[0..<length s]" "replicate (length s) 0"] ranked_bytes [of s]
  by (simp add: suffix_array_def)

lemma suffix_array_eq: "suffix_array s = sort_key (\<lambda>i. drop i s) [0..<length s]"
proof (rule sort_key_inj_key_eq [symmetric])
  show "inj_on (\<lambda>i. drop i s) (set [0..<length s])"
    by (rule inj_onI) (auto dest: arg_cong [where f = length])
qed (simp_all add: mset_suffix_array suffix_array_sorted)

lemma sentinel_sorted: "sorted (map (\<lambda>i. drop i s) (suffix_array_with_sentinel s))"
  by (simp add: suffix_array_with_sentinel_def suffix_array_sorted)

section \<open>What the search finds\<close>

lemma matchlen_comm: "matchlen a b = matchlen b a"
  by (induction a b rule: matchlen.induct) auto

lemma matchlen_between:
  "a \<le> b \<Longrightarrow> b \<le> c \<Longrightarrow> matchlen a c \<le> matchlen b c \<and> matchlen c a \<le> matchlen b a"
proof (induction a c arbitrary: b rule: matchlen.induct)
  case (1 x as y bs)
  then show ?case by (cases b) auto
qed simp_all

text \<open>One comparison of the search decides the order, unless the suffix is a proper prefix of what is searched.\<close>

lemma search_compare:
  fixes suf new :: bytes
  assumes "\<not> strict_prefix suf new"
  shows "take (min (length suf) (length new)) suf < take (min (length suf) (length new)) new \<longleftrightarrow> suf < new"
proof (cases "length new \<le> length suf")
  case True
  have "take (length new) suf < new \<longleftrightarrow> suf < new"
  proof
    assume "take (length new) suf < new"
    then show "suf < new" using take_less [of "length new" suf new] by simp
  next
    assume l: "suf < new"
    have "take (length new) suf \<le> suf" by (rule take_le)
    then show "take (length new) suf < new" using l by simp
  qed
  then show ?thesis using True by simp
next
  case False
  have ne: "suf \<noteq> take (length suf) new"
    using assms False take_is_prefix [of "length suf" new] by (metis less_irrefl linorder_not_le strict_prefix_def)
  have "suf < take (length suf) new \<longleftrightarrow> suf < new"
  proof
    assume "suf < take (length suf) new"
    then show "suf < new" using take_less [of "length suf" suf new] by simp
  next
    assume l: "suf < new"
    show "suf < take (length suf) new"
    proof (rule ccontr)
      assume "\<not> suf < take (length suf) new"
      then have "take (length suf) new < take (length suf) suf" using ne by simp
      from take_less [OF this] l show False by simp
    qed
  qed
  then show ?thesis using False by simp
qed

lemma search_longest:
  assumes "sorted (map (\<lambda>i. drop i from) sa)" and "\<forall>x \<in> set sa. x \<le> length from"
    and "\<forall>v < length sa. 0 < v \<longrightarrow> \<not> strict_prefix (drop (sa ! v) from) new"
    and "st \<le> en" and "en < length sa"
    and "st = 0 \<and> drop (sa ! 0) from = [] \<or> drop (sa ! st) from \<le> new"
    and "en = length sa - 1 \<or> new \<le> drop (sa ! en) from"
    and "search sa from new st en = Inr (l, p)" and "v < length sa"
  shows "matchlen (drop (sa ! v) from) new \<le> l"
  using assms
proof (induction sa "from" new st en rule: search.induct)
  case (1 sa "from" new st en)
  let ?S = "\<lambda>v. drop (sa ! v) from"
  have le: "?S v \<le> ?S w" if "v \<le> w" "w < length sa" for v w
    using "1.prems"(1) that by (simp add: sorted_iff_nth_mono)
  show ?case
  proof (cases "en < st + 2")
    case True
    have b: "sa ! st \<le> length from" "sa ! en \<le> length from" using "1.prems"(2,4,5) by simp_all
    have l: "l = max (matchlen (?S st) new) (matchlen (?S en) new)"
      using "1.prems"(4,5,8) True b
      by (subst (asm) search.simps) (auto simp: idx_ok rng_def slice_def Let_def split: if_splits)
    have "v \<le> st \<or> en \<le> v" using True "1.prems"(4) by linarith
    then show ?thesis
    proof
      assume v: "v \<le> st"
      then have "?S v \<le> ?S st" using le "1.prems"(4,5) by simp
      moreover have "?S st \<le> new" using "1.prems"(6) by auto
      ultimately show ?thesis using matchlen_between l by (metis max.coboundedI1)
    next
      assume v: "en \<le> v"
      show ?thesis
      proof (cases "en = length sa - 1")
        case True
        then have "v = en" using v "1.prems"(9) by simp
        then show ?thesis using l by simp
      next
        case False
        then have "new \<le> ?S en" "?S en \<le> ?S v" using "1.prems"(7,9) le v by auto
        then show ?thesis using matchlen_between l by (metis matchlen_comm max.coboundedI2)
      qed
    qed
  next
    case False
    define x where "x = st + (en - st) div 2"
    have x: "st < x" "x < en" "x < length sa" using False "1.prems"(5) by (auto simp: x_def)
    have oi: "idx sa x = Inr (sa ! x)" "\<not> length from < sa ! x" using x "1.prems"(2) by (auto simp: idx_ok not_less)
    let ?n = "min (length from - sa ! x) (length new)"
    have c: "bytes_less (slice (sa ! x) (sa ! x + ?n) from) (slice 0 ?n new) \<longleftrightarrow> ?S x < new"
      using search_compare [of "?S x" new] "1.prems"(3) x by (simp add: slice_def bytes_less_iff take_drop)
    show ?thesis
    proof (cases "?S x < new")
      case True
      show ?thesis
        by (rule "1.IH"(1) [OF False x_def oi(1,2) refl]) (use "1.prems" x True oi c False in
          \<open>simp_all add: search.simps [of sa "from" new st en] x_def [symmetric] Let_def\<close>)
    next
      case nl: False
      show ?thesis
        by (rule "1.IH"(2) [OF False x_def oi(1,2) refl]) (use "1.prems" x nl oi c False in
          \<open>simp_all add: not_less search.simps [of sa "from" new st en] x_def [symmetric] Let_def\<close>)
    qed
  qed
qed

text \<open>The search over the whole array, as \<open>bsdiff\<close> calls it.\<close>

lemma search_from_longest:
  assumes "\<forall>p < length from. \<not> strict_prefix (drop p from) new"
  shows "\<exists>l p. search (suffix_array_with_sentinel from) from new 0 (length from) = Inr (l, p) \<and> p \<le> length from \<and>
    take l (drop p from) = take l new \<and> l \<le> length new \<and> (\<forall>q \<le> length from. matchlen (drop q from) new \<le> l)"
proof -
  let ?sa = "suffix_array_with_sentinel from"
  have sa: "length ?sa = Suc (length from)" "\<forall>x \<in> set ?sa. x \<le> length from" using sentinel_ok by auto
  obtain l p where r: "search ?sa from new 0 (length from) = Inr (l, p)" "p \<le> length from" "l = matchlen (drop p from) new"
    using search_ok [of 0 "length from" ?sa "from" new] sa by auto
  have np: "\<forall>v < length ?sa. 0 < v \<longrightarrow> \<not> strict_prefix (drop (?sa ! v) from) new"
  proof (intro allI impI)
    fix v assume v: "v < length ?sa" "0 < v"
    then have "?sa ! v \<in> set (suffix_array from)"
      by (cases v) (simp_all add: suffix_array_with_sentinel_def)
    then show "\<not> strict_prefix (drop (?sa ! v) from) new" using assms suffix_array_perm [of "from"] by auto
  qed
  have "matchlen (drop q from) new \<le> l" if "q \<le> length from" for q
  proof -
    have "set ?sa = {..length from}" using suffix_array_perm [of "from"]
      by (simp add: suffix_array_with_sentinel_def lessThan_Suc_atMost [symmetric] lessThan_Suc)
    then have "q \<in> set ?sa" using that by simp
    then obtain v where "v < length ?sa" "q = ?sa ! v" by (auto simp: in_set_conv_nth)
    then show ?thesis
      using search_longest [OF sentinel_sorted sa(2) np, of 0 "length from" l p v] r(1) sa(1)
      by (simp add: suffix_array_with_sentinel_def)
  qed
  moreover have "take l (drop p from) = take l new" "l \<le> length new"
    using r(3) matchlen_take [of "drop p from" new] matchlen_le [of "drop p from" new] by auto
  ultimately show ?thesis using r by blast
qed

text \<open>Without the assumption a longer match can be missed: a suffix that is a proper prefix sends the search to the left.\<close>

lemma search_misses_longest:
  "search (suffix_array_with_sentinel [1, 2, 1]) [1, 2, 1] [1, 2, 1] 0 3 = Inr (1, 2) \<and>
    matchlen (drop 0 [1, 2, 1]) [1, 2, 1::8 word] = 3"
  by code_simp

end
