(* ===== verification/Mota_Demo.thy ===== *)
theory Mota_Demo
  imports Mota_Args Mota_Attach Mota_Contract Mota_Suffix
begin

text \<open>
  Concrete runs of the builder, on which the conditional theorems are instantiated: a full image, a
  sequential delta and an in-place delta, each computed from \<open>encode_sequential\<close> and
  \<open>encode_in_place\<close> by evaluation, with hash and signature functions that are easy to compute.
  Then served folders, commands and sessions; at the end the expectations of the repository's own unit tests.
\<close>


section \<open>Example inputs\<close>

definition flat_crypto :: crypto where
  "flat_crypto =
    \<lparr>sha2_digest = (\<lambda>x. replicate 32 7), sk_sign = (\<lambda>s m. replicate 64 9), sk_verifying_key = (\<lambda>s. replicate 32 5),
     vk_from_bytes = Some, vk_verify = (\<lambda>p m sg. sg = replicate 64 9),
     hex_upper = (\<lambda>bs. bs)\<rparr>"

definition stamped :: "u32 \<Rightarrow> bytes" where
  "stamped v = endf_fields flat_crypto [] \<lparr>fw_version = v, target_id = 2, hw_id = ascii ''RAK''\<rparr>"

definition demo_opts :: build_opts where
  "demo_opts = \<lparr>o_fw = [1, 2, 3], o_base = None, o_patch_type = Sequential, o_inplace_memory = None,
     o_segment_size = 4096, o_target_id = None, o_fw_version = Some 0x01020300, o_hw_id = Some [82, 65, 75],
     o_sign_seed = Some [1], o_block_size = 16, o_force = False\<rparr>"

definition demo_delta :: "patch_type \<Rightarrow> build_opts" where
  "demo_delta p = demo_opts\<lparr>o_fw := stamped 2, o_base := Some (stamped 1), o_patch_type := p, 
    o_fw_version := None, o_hw_id := None, o_segment_size := 64, o_inplace_memory := Some 256\<rparr>"

lemma demo_delta_fields [simp]:
  "o_fw (demo_delta p) = stamped 2" "o_base (demo_delta p) = Some (stamped 1)" "o_patch_type (demo_delta p) = p"
  "o_inplace_memory (demo_delta p) = Some 256" "o_segment_size (demo_delta p) = 64" "o_target_id (demo_delta p) = None"
  "o_fw_version (demo_delta p) = None" "o_hw_id (demo_delta p) = None" "o_block_size (demo_delta p) = 16"
  "o_force (demo_delta p) = False"
  by (simp_all add: demo_delta_def demo_opts_def)

lemma flat_crypto_ok: "crypto_ok flat_crypto"
  by (simp add: crypto_ok_def sha_ok_def flat_crypto_def)

lemma sha_flat [simp]: "sha256 flat_crypto x = replicate 32 7"
  by (simp add: sha256_def flat_crypto_def)

lemma block_size_ok_16: "block_size_ok 16" by code_simp

lemma demo_full_ok: "is_ok (build demo_crypto demo_opts)"
proof -
  have "length (the_image demo_crypto demo_opts) = 59"
    using has_endf_length [of demo_crypto "[1, 2, 3]"] length_endf_fields [OF crypto_ok_sha [OF demo_crypto_ok]]
    by (auto simp: the_image_def ensure_endf_fst demo_opts_def)
  then show ?thesis
    by (subst build_full_ok [OF demo_crypto_ok]) (simp_all add: demo_opts_def block_size_ok_16 div_ceil_def)
qed

lemma length_stamped [simp]: "length (stamped v) = 56"
  by (simp add: stamped_def length_endf_fields crypto_ok_sha [OF flat_crypto_ok])

lemma has_endf_stamped: "has_endf flat_crypto (stamped v)"
  unfolding stamped_def using has_endf_appended [OF crypto_ok_sha [OF flat_crypto_ok], of "[]"] by simp

lemma parse_ident_stamped: "parse_ident flat_crypto (stamped v) = \<lparr>fw_version = v, target_id = 2, hw_id = ascii ''RAK''\<rparr>"
proof -
  have n: "\<not> has_endf flat_crypto []" using has_endf_length [of flat_crypto "[]"] by auto
  have a: "is_ascii (ascii ''RAK'')" "0 \<notin> set (ascii ''RAK'')" "length (ascii ''RAK'') \<le> 32" by code_simp+
  show ?thesis
  using parse_ident_ensure_endf [OF crypto_ok_sha [OF flat_crypto_ok], of "[]" "\<lparr>fw_version = v, target_id = 2, hw_id = ascii ''RAK''\<rparr>"] a n
  by (simp add: ensure_endf_fst stamped_def)
qed

lemma demo_image: "the_image flat_crypto (demo_delta p) = stamped 2"
  by (simp add: the_image_def ensure_endf_fst has_endf_stamped)

lemma demo_sequential_patch: "encode_sequential (stamped 1) (stamped 2) =
  Inr [2, 56, 0, 2, 0, 56, 1, 16, 0, 0, 1, 1, 1, 40, 0, 0, 1, 103]"
  by code_simp

lemma demo_in_place_patch: "encode_in_place (stamped 1) (stamped 2) 256 64 =
  Inr [18, 128, 4, 128, 1, 128, 3, 56, 56, 0, 2, 0, 56, 1, 16, 0, 0, 1, 1, 1, 40, 0, 0, 1, 103]"
  by code_simp

lemma demo_plan: "plan_inplace flat_crypto (demo_delta p) (stamped 1) (stamped 2) =
  Inr \<lparr>p_memory = 256, p_base_layout = None, p_legacy_auto = False\<rparr>"
proof -
  have l: "parse_nrf52_layout flat_crypto (stamped v) = Inr None" for v
    by (simp add: parse_nrf52_layout_def has_endf_stamped mota_const)
  show ?thesis
    by (simp add: plan_inplace_def l check_layouts_def minimum_inplace_memory_def align_seg_def checked_add64_def
       Let_def)
qed

lemma demo_sequential_ok: "is_ok (build flat_crypto (demo_delta Sequential))"
proof -
  let ?d = "\<lparr>d_codec = DetoolsSequential, d_payload = [2, 56, 0, 2, 0, 56, 1, 16, 0, 0, 1, 1, 1, 40, 0, 0, 1, 103],
    d_base_hash = slice 8 16 (endf_trailer (stamped 1)), d_inplace = None\<rparr>"
  have d: "the_delta flat_crypto (demo_delta Sequential) = Inr ?d"
    by (simp add: the_delta_def demo_image build_delta_def has_endf_stamped
       parse_ident_stamped resolve_ident_def ensure_endf_def demo_sequential_patch)
  have "representable flat_crypto (demo_delta Sequential) ?d"
    by (simp add: representable_def block_size_ok_16 the_leaves_def the_total_def
      leaf_hashes_def leaf_def mh_def chunks_step endf_trailer_def mota_const)
  then show ?thesis using d by (auto simp: is_ok_iff build_Inr [OF flat_crypto_ok] staging_ok_def)
qed

lemma demo_in_place_ok: "is_ok (build flat_crypto (demo_delta InPlace))"
proof -
  let ?d = "\<lparr>d_codec = DetoolsInplace, d_payload = [18, 128, 4, 128, 1, 128, 3, 56, 56, 0, 2, 0, 56, 1, 16, 0, 0, 1, 1, 1, 40, 0, 0, 1, 103],
    d_base_hash = slice 8 16 (endf_trailer (stamped 1)), d_inplace = Some \<lparr>p_memory = 256, p_base_layout = None, p_legacy_auto = False\<rparr>\<rparr>"
  have d: "the_delta flat_crypto (demo_delta InPlace) = Inr ?d"
    using demo_plan [of InPlace] by (simp add: the_delta_def demo_image build_delta_def has_endf_stamped
       parse_ident_stamped resolve_ident_def ensure_endf_def demo_in_place_patch)
  have "representable flat_crypto (demo_delta InPlace) ?d"
    by (simp add: representable_def block_size_ok_16 the_leaves_def the_total_def
      leaf_hashes_def leaf_def mh_def chunks_step endf_trailer_def mota_const)
  then show ?thesis using d by (auto simp: is_ok_iff build_Inr [OF flat_crypto_ok] staging_ok_def validate_staging_fit_def)
qed

definition demo_layout :: nrf52_layout where
  "demo_layout = \<lparr>l_app_base = NRF52_APP_BASE_S140_V6, l_linked_app_end = NRF52_APP_END,
     l_stage_ceiling = NRF52_APP_END, l_flags = NRF52_LAYOUT_FLAG_HYBRID_RAM\<rparr>"

lemma demo_layout_ok: "supported_layout demo_layout"
  by (simp add: supported_layout_def internal_profile_def demo_layout_def)

lemma demo_layout_fits:
  "validate_staging_fit \<lparr>p_memory = 0x3000, p_base_layout = Some demo_layout, p_legacy_auto = False\<rparr> 5000 = Inr ()"
  "\<not> external_backed demo_layout" "hybrid_ram demo_layout"
proof -
  show e: "\<not> external_backed demo_layout" "hybrid_ram demo_layout"
    by (simp_all add: external_backed_def sd_backed_def qspi_backed_def hybrid_ram_def demo_layout_def mota_const)
  show "validate_staging_fit \<lparr>p_memory = 0x3000, p_base_layout = Some demo_layout, p_legacy_auto = False\<rparr> 5000 = Inr ()"
    using e by (simp add: validate_staging_fit_def staged_size_def page_round_up_def checked_add64_def checked_sub32_def
      demo_layout_def mota_const Let_def)
qed

section \<open>Board identities under a concrete digest\<close>

text \<open>A digest under which the inventory is consistent: the first word numbers the boards.\<close>

definition board_index :: "bytes \<Rightarrow> nat" where
  "board_index x = length (takeWhile (\<lambda>b. hw_bytes b \<noteq> x) BOOTLOADER_BOARDS)"

definition boards_crypto :: crypto where
  "boards_crypto = flat_crypto\<lparr>sha2_digest := \<lambda>x. le_u32 (0xFFFFFF00 + of_nat (board_index x)) @ replicate 28 7\<rparr>"

lemma boards_crypto_ok: "crypto_ok boards_crypto"
  using flat_crypto_ok by (simp add: crypto_ok_def sha_ok_def boards_crypto_def)

lemma board_index_less: "board_index x \<le> 28"
  using length_takeWhile_le [of "\<lambda>b. hw_bytes b \<noteq> x" BOOTLOADER_BOARDS]
  by (simp add: board_index_def BOOTLOADER_BOARDS_def)

lemma takeWhile_stops: "x \<in> set xs \<Longrightarrow> \<not> P x \<Longrightarrow> length (takeWhile P xs) < length xs"
  by (induction xs) auto

lemma board_index_nth: "BOOTLOADER_BOARDS ! board_index (hw_bytes b) = b" "board_index (hw_bytes b) < 28"
proof -
  have e: "(\<lambda>x. hw_bytes x \<noteq> hw_bytes b) = (\<lambda>x. x \<noteq> b)" by (simp add: hw_bytes_inject)
  have "length (takeWhile (\<lambda>x. x \<noteq> b) BOOTLOADER_BOARDS) < length BOOTLOADER_BOARDS"
    using boards_complete [of b] by (intro takeWhile_stops) auto
  then show "board_index (hw_bytes b) < 28" by (simp add: board_index_def e BOOTLOADER_BOARDS_def)
  show "BOOTLOADER_BOARDS ! board_index (hw_bytes b) = b"
    using nth_length_takeWhile [of "\<lambda>x. x \<noteq> b" BOOTLOADER_BOARDS]
      \<open>length (takeWhile (\<lambda>x. x \<noteq> b) BOOTLOADER_BOARDS) < length BOOTLOADER_BOARDS\<close>
    by (simp add: board_index_def e)
qed

lemma board_index_inject: "board_index (hw_bytes b) = board_index (hw_bytes b') \<longleftrightarrow> b = b'"
  using board_index_nth(1) by metis

lemma target_boards:
  "target_of boards_crypto b =
    (if b = XiaoNrf52840Ble \<or> b = XiaoNrf52840BleSense then board_board_id b
     else 0xFFFFFF00 + of_nat (board_index (hw_bytes b)))"
  using u32f.dec_enc [of "0xFFFFFF00 + of_nat (board_index (hw_bytes b))"]
  by (simp add: target_of_def sha256_def boards_crypto_def)

lemma unat_target_boards:
  "\<not> (b = XiaoNrf52840Ble \<or> b = XiaoNrf52840BleSense) \<Longrightarrow>
    unat (target_of boards_crypto b) = 0xFFFFFF00 + board_index (hw_bytes b)"
  using board_index_less [of "hw_bytes b"] by (simp add: target_boards unat_word_ariths unat_of_nat)

text \<open>No application target lies in that range, and none is a XIAO board id.\<close>

lemma table_range: "list_all (\<lambda>(i, n). i < 0xFFFFFF00 \<and> i \<noteq> 0x28860044 \<and> i \<noteq> 0x28860045) all_targets"
  unfolding all_targets_def TABLE_def BOOTLOADER_RELEVANT_APPLICATION_TARGETS_def
    TABLE_1_def TABLE_2_def TABLE_3_def TABLE_4_def append.simps list.pred_inject prod.case
  by simp

lemma outside_table: "0xFFFFFF00 \<le> i \<or> i = 0x28860044 \<or> i = 0x28860045 \<Longrightarrow> env_name i = None"
proof (cases "env_name i")
  case (Some n)
  then have "(i, n) \<in> set all_targets" by (simp add: env_name_Some)
  then have "i < 0xFFFFFF00 \<and> i \<noteq> 0x28860044 \<and> i \<noteq> 0x28860045" using table_range by (auto simp: list_all_iff)
  then show "0xFFFFFF00 \<le> i \<or> i = 0x28860044 \<or> i = 0x28860045 \<Longrightarrow> ?thesis" by (simp add: not_le [symmetric])
qed simp

lemma boards_inventory: "validate_bootloader_inventory boards_crypto = Inr ()"
proof -
  have x: "board_board_id XiaoNrf52840Ble = 0x28860044" "board_board_id XiaoNrf52840BleSense = 0x28860045"
    by (simp_all add: mota_const)
  have u: "unat (target_of boards_crypto b) = (if b = XiaoNrf52840Ble then 0x28860044 else if b = XiaoNrf52840BleSense
      then 0x28860045 else 0xFFFFFF00 + board_index (hw_bytes b))" for b
    using unat_target_boards [of b] by (auto simp: target_boards mota_const)
  have "inj (target_of boards_crypto)"
  proof (rule injI)
    fix a b
    assume "target_of boards_crypto a = target_of boards_crypto b"
    then have "unat (target_of boards_crypto a) = unat (target_of boards_crypto b)" by simp
    then show "a = b" unfolding u by (auto simp: board_index_inject split: if_splits)
  qed
  moreover have "target_ok boards_crypto b" for b
  proof -
    have i: "board_index (hw_bytes b) < 28" by (rule board_index_nth)
    have ne: "target_of boards_crypto b \<noteq> 0 \<and> target_of boards_crypto b \<noteq> 0xFFFFFFFF"
      using u [of b] i by (auto simp: word_unat_eq_iff)
    moreover have "0xFFFFFF00 \<le> target_of boards_crypto b \<or> target_of boards_crypto b = 0x28860044 \<or>
        target_of boards_crypto b = 0x28860045"
      using u [of b] by (auto simp: word_le_nat_alt word_unat_eq_iff)
    ultimately show ?thesis using outside_table by (simp add: target_ok_def)
  qed
  ultimately show ?thesis by (simp add: validate_bootloader_inventory_Inr)
qed

definition demo_bootloader :: bootloader_build_opts where
  "demo_bootloader = \<lparr>bo_image = sample_image HeltecT096 STORAGE_INTERNAL_UPDATE 0x01020304, bo_board = HeltecT096,
     bo_storage_profile = STORAGE_INTERNAL_UPDATE, bo_sign_seed = replicate 32 3\<rparr>"

lemma demo_profile_ok:
  "\<exists>i. validate_bootloader_image_for_profile boards_crypto (bo_image demo_bootloader) (bo_board demo_bootloader)
    (bo_storage_profile demo_bootloader) = Inr i \<and> boot_version i = 0x01020304"
  unfolding demo_bootloader_def bootloader_build_opts.simps
  by (rule sample_validates) (simp_all add: board_accepts_storage_profile_def version_valid_def boards_inventory)

lemma demo_bootloader_ok: "is_ok (build_bootloader boards_crypto demo_bootloader)"
  using demo_profile_ok by (auto simp: build_bootloader_eq [OF boards_crypto_ok])

section \<open>Serving the demonstration container\<close>

text \<open>An encoder that knows one prefix, and its inverse.\<close>

definition demo_host :: host where
  "demo_host = \<lparr>zopfli = (\<lambda>n x. Some (if take 3 x = [1, 2, 3] then 0 # drop 3 x else 1 # x)),
     zlib_best = (\<lambda>x. None), hex_lower = (\<lambda>bs. bs),
     write_fault = (\<lambda>d p f. None), read_fault = (\<lambda>d p. False), rename_fault = (\<lambda>d p q. False)\<rparr>"

definition demo_inflate :: "bytes \<Rightarrow> bytes option" where
  "demo_inflate y = (case y of [] \<Rightarrow> None | t # x \<Rightarrow> Some (if t = 0 then [1, 2, 3] @ x else x))"

lemma demo_deflate_ok: "deflate_ok demo_host demo_inflate"
proof -
  have "take 3 x = [1, 2, 3] \<Longrightarrow> [1, 2, 3] @ drop 3 x = x" for x :: bytes
    using append_take_drop_id [of 3 x] by (simp only:)
  then show ?thesis by (auto simp: deflate_ok_def demo_host_def demo_inflate_def)
qed

lemma demo_deflate_raw: "deflate_raw demo_host x = Some (if take 3 x = [1, 2, 3] then 0 # drop 3 x else 1 # x)"
  by (simp add: deflate_raw_def zopfli_raw_def zlib_best_raw_def demo_host_def mota_const)

lemma demo_storage_ok: "storage_ok demo_host"
  by (simp add: demo_host_def storage_ok_def)

lemma demo_hex_inj: "inj (hex_lower demo_host)"
  by (simp add: demo_host_def inj_def)

lemma demo_served:
  obtains s where "served_ok demo_crypto s" and "s_path s = [ascii ''demo.mota'']" and "is_full (s_manifest s)"
    and "served_blocks s \<noteq> []"
    and "take 3 (served_blocks s ! 0) = [1, 2, 3]" and "length (served_blocks s ! 0) = 16"
proof -
  obtain b where b: "build demo_crypto demo_opts = Inr b" using demo_full_ok by (auto simp: is_ok_iff)
  let ?s = "\<lparr>s_path = [ascii ''demo.mota''], s_bytes = bt_bytes b, s_manifest = bt_manifest b,
    s_cache = unat (m_block_count (bt_manifest b))\<rparr>"
  have ok: "served_ok demo_crypto ?s"
    using built_verifies [OF demo_crypto_ok b] by (simp add: served_ok_def)
  obtain d where d: "the_delta demo_crypto demo_opts = Inr d" and r: "representable demo_crypto demo_opts d"
    and m: "bt_manifest b = the_record demo_crypto demo_opts d" and p: "payload_of b = d_payload d"
    by (rule build_result [OF demo_crypto_ok b]) 
  have "d = \<lparr>d_codec = Full, d_payload = the_image demo_crypto demo_opts, d_base_hash = replicate 8 0, d_inplace = None\<rparr>"
    using d by (simp add: the_delta_def demo_opts_def)
  then have dp: "d_payload d = the_image demo_crypto demo_opts" and dc: "d_codec d = Full" by simp_all
  have bs: "unat (block_size (bt_manifest b)) = 16"
    unfolding m using representable_record(4) [OF demo_crypto_ok r] by (simp add: demo_opts_def)
  have full: "is_full (bt_manifest b)"
    by (simp add: m the_record_def built_flags dc)
  have img: "the_image demo_crypto demo_opts = [1, 2, 3] @ endf_fields demo_crypto [1, 2, 3] (resolve_ident demo_crypto demo_opts)"
    using has_endf_length [of demo_crypto "[1, 2, 3]"] by (auto simp: the_image_def ensure_endf_fst demo_opts_def)
  then have len: "length (the_image demo_crypto demo_opts) = 59"
    by (simp add: length_endf_fields [OF crypto_ok_sha [OF demo_crypto_ok]])
  have pay: "served_payload ?s = the_image demo_crypto demo_opts"
    using p dp by (simp add: served_payload_def payload_of_def)
  have blocks: "served_blocks ?s = take 16 (the_image demo_crypto demo_opts) # chunks 16 (drop 16 (the_image demo_crypto demo_opts))"
    unfolding served_blocks_def pay using bs len chunks_step [of 16 "the_image demo_crypto demo_opts"] by fastforce
  show thesis
    by (rule that [OF ok]) (use blocks full img len in simp_all)
qed

text \<open>A hex file of one record in the bootloader region.\<close>

definition demo_input :: input_host where
  "demo_input = \<lparr>fetch_url = (\<lambda>u. None), read_file = (\<lambda>p. None),
     hex_reader = (\<lambda>x. [Some (ExtendedLinearAddress 0xF), Some (Data 0x4000 [1, 2, 3]), Some EndOfFile])\<rparr>"

section \<open>The commands on a small file system\<close>

definition demo_hex :: "bytes \<Rightarrow> bytes" where
  "demo_hex bs = concat (map (\<lambda>b. [hex_digit (unat b div 16), hex_digit (unat b mod 16)]) bs)"

fun demo_unhex :: "bytes \<Rightarrow> bytes option" where
  "demo_unhex (a # b # r) =
    (case (digit_value 16 a, digit_value 16 b, demo_unhex r) of
       (Some x, Some y, Some bs) \<Rightarrow> Some (of_nat (16 * x + y) # bs) | _ \<Rightarrow> None)"
| "demo_unhex [] = Some []"
| "demo_unhex [a] = None"

lemma byte_nibbles: "unat (b :: u8) div 16 < 16" "unat b mod 16 < 16"
proof -
  have "unat b < 256" using unsigned_less [of b] by simp
  then show "unat b div 16 < 16" "unat b mod 16 < 16" by (simp_all add: less_mult_imp_div_less)
qed

lemma demo_unhex_hex: "demo_unhex (demo_hex bs) = Some bs"
proof (induction bs)
  case (Cons b bs)
  have "demo_hex (b # bs) = hex_digit (unat b div 16) # hex_digit (unat b mod 16) # demo_hex bs"
    by (simp add: demo_hex_def)
  then show ?case using Cons by (simp add: hex_digit_value [OF byte_nibbles(1)] hex_digit_value [OF byte_nibbles(2)])
qed (simp add: demo_hex_def)

definition cli_crypto :: crypto where
  "cli_crypto = demo_crypto\<lparr>hex_upper := demo_hex\<rparr>"

lemma cli_crypto_ok: "crypto_ok cli_crypto"
  using demo_crypto_ok by (simp add: crypto_ok_def sha_ok_def cli_crypto_def)

definition demo_files :: cli_host where
  "demo_files = \<lparr>inputs = \<lparr>fetch_url = (\<lambda>u. None), read_file = [ascii ''fw.bin'' \<mapsto> [1, 2, 3], ascii ''fw.hex'' \<mapsto> [58]],
       hex_reader = (\<lambda>x. [Some (Data 0x10 [1, 2, 3]), Some EndOfFile])\<rparr>,
     writable = (\<lambda>p. True), torn = (\<lambda>p old new. old), make_dirs = (\<lambda>d w. w), hex_decode = demo_unhex\<rparr>"

lemma demo_hex_ok: "hex_ok cli_crypto demo_files"
proof -
  have "is_ascii_digit (hex_digit d) \<or> (65 \<le> hex_digit d \<and> hex_digit d \<le> 70)" if "d < 16" for d
    using that by (simp add: is_ascii_digit_def word_le_nat_alt unat_hex_digit)
  note d = this [OF byte_nibbles(1)] this [OF byte_nibbles(2)]
  have "list_all (\<lambda>b. is_ascii_digit b \<or> (65 \<le> b \<and> b \<le> 70)) (demo_hex bs)" for bs
    using d by (auto simp: demo_hex_def list_all_iff)
  then show ?thesis by (simp add: hex_ok_def cli_crypto_def demo_files_def demo_unhex_hex)
qed

definition demo_args :: build_args where
  "demo_args = \<lparr>a_fw = ascii ''fw.bin'', a_base = None, a_patch_type = CliSequential, a_inplace_memory = None,
     a_segment_size = 4096, a_target_env = None, a_target_id = None, a_fw_version = Some (ascii ''1.2.3''),
     a_hw_id = Some (ascii ''RAK''), a_sign = Some (ascii ''k''), a_block_size = 16, a_force = False,
     a_out_dir = ascii ''.'', a_out = Some (ascii ''o.mota'')\<rparr>"

lemma demo_keygen: "\<exists>h1. cmd_keygen cli_crypto (replicate 32 5) demo_files (Some (ascii ''k'')) =
    (Inr (demo_hex (ed25519_public_from_seed cli_crypto (replicate 32 5))), h1)"
  by (simp add: cmd_keygen_eq) (simp add: demo_files_def cli_crypto_def)

lemma demo_command:
  assumes "cmd_keygen cli_crypto (replicate 32 5) demo_files (Some (ascii ''k'')) = (Inr shown, h1)"
  shows "\<exists>r h2. cmd_build True cli_crypto h1 demo_args = (Inr r, h2) \<and> r_out_path r = ascii ''o.mota''"
proof -
  have "length (replicate 32 (5 :: u8)) = 32" by simp
  note key = keygen_files [OF cli_crypto_ok demo_hex_ok this assms]
  have ne: "ascii ''fw.bin'' \<notin> {ascii ''k'', ascii ''k'' @ ascii ''.pub''}" by (simp add: ascii_def)
  have fw: "read_file (inputs h1) (ascii ''fw.bin'') = Some [1, 2, 3]"
    using key(5) [OF ne] by (simp add: file_at_def demo_files_def)
  have u: "is_url (ascii ''fw.bin'') = False" "ends_with (to_ascii_lowercase (ascii ''fw.bin'')) (ascii ''.hex'') = False"
    by code_simp+
  have v: "pack_version (ascii ''1.2.3'') = Inr 0x01020300"
    by (simp add: pack_version_def ascii_def dec_value_def is_ascii_digit_def four_parts)
  let ?opts = "\<lparr>o_fw = [1, 2, 3], o_base = None, o_patch_type = Sequential, o_inplace_memory = None,
     o_segment_size = 4096, o_target_id = None, o_fw_version = Some 0x01020300, o_hw_id = Some (ascii ''RAK''),
     o_sign_seed = Some (replicate 32 5), o_block_size = 16, o_force = False\<rparr>"
  have o: "build_opts_of True cli_crypto h1 demo_args = Inr ?opts"
    using key(1) by (simp add: build_opts_of_def demo_args_def read_input_def read_raw_input_def fw u v context_msg_def)
  have "length (the_image cli_crypto ?opts) = 59"
    using has_endf_length [of cli_crypto "[1, 2, 3]"] length_endf_fields [OF crypto_ok_sha [OF cli_crypto_ok]]
    by (auto simp: the_image_def ensure_endf_fst)
  then have "is_ok (build cli_crypto ?opts)"
    by (subst build_full_ok [OF cli_crypto_ok]) (simp_all add: block_size_ok_16 div_ceil_def)
  then obtain b where b: "build cli_crypto ?opts = Inr b" by (auto simp: is_ok_iff)
  have "writable (prepare_out h1 (a_out demo_args) (a_out_dir demo_args)) p" for p
  proof -
    have "path_parent (ascii ''o.mota'') = Some []" by code_simp
    then show ?thesis using key(4) by (simp add: demo_files_def prepare_out_def demo_args_def)
  qed
  then show ?thesis
    unfolding cmd_build_eq [OF cli_crypto_ok] o bindr_simps b by (simp add: Let_def out_path_def demo_args_def)
qed

definition demo_serve :: serve_host where
  "demo_serve = \<lparr>walk = (\<lambda>d r. []), 
     tcp_connect = (\<lambda>h p. Some \<lparr>tcp_link = \<lparr>l_in = [Got 65], l_out = [], l_broken = False, l_stuck = False\<rparr>,
       tcp_timeout = None, tcp_refuses_timeout = False\<rparr>),
     port_open = (\<lambda>d b t dtr. None), handler_installs = True\<rparr>"

definition demo_serve_args :: serve_args where
  "demo_serve_args = \<lparr>s_dir = ascii ''d'', s_serial = None, s_tcp = Some (ascii ''10.0.0.1:5001''), s_baud = 115200,
     s_no_recursive = False, s_no_enable = False, s_tempradio = None, s_seed = None, s_verbose = False\<rparr>"

lemma demo_open: "open_link demo_serve demo_serve_args = Inr \<lparr>l_in = [Got 65], l_out = [], l_broken = False, l_stuck = False\<rparr>"
proof -
  have "tcp_address (ascii ''10.0.0.1:5001'') = Inr (ascii ''10.0.0.1'', 5001)"
    by (simp add: tcp_address_def rsplit_once_def ascii_def from_str_radix_def digit_value_def)
  then show ?thesis by (simp add: open_link_def demo_serve_args_def demo_serve_def open_tcp_def set_read_timeout_def)
qed

lemma demo_handler [simp]: "handler_installs demo_serve"
  by (simp add: demo_serve_def)

lemma demo_served_session: "\<exists>sr. cmd_serve demo_crypto demo_host demo_files demo_serve demo_serve_args
    (\<lambda>k. False) (\<lambda>k. 0) (\<lambda>k. False) Map.empty = Inr sr"
proof -
  let ?l = "\<lparr>l_in = [Got 65], l_out = [], l_broken = False, l_stuck = False\<rparr>"
  obtain outcome lines l' d' where
    "serve_session demo_host (seeder_new [] (Some [ascii ''d''])) False False (\<lambda>k. False) (\<lambda>k. 0) (\<lambda>k. False) ?l Map.empty =
      Inr (outcome, lines, l', d')"
    using serve_session_ok by blast
  moreover have "folder_scan demo_crypto (walk demo_serve (s_dir demo_serve_args) (\<not> s_no_recursive demo_serve_args)) = Inr ([], [])"
    by (simp add: demo_serve_def folder_scan_def)
  moreover have "seeded_core demo_crypto demo_files demo_serve_args [] = Inr (seeder_new [] (Some [ascii ''d'']))"
    by (simp add: seeded_core_def demo_serve_args_def)
  moreover have "send_tempradio ?l (s_tempradio demo_serve_args) = Inr ?l"
    by (simp add: send_tempradio_def demo_serve_args_def)
  ultimately show ?thesis
    by (simp add: cmd_serve_def demo_open Let_def) (simp add: demo_serve_args_def)
qed

lemma demo_inputs_ok: "inputs_ok demo_files"
  by (simp add: inputs_ok_def short_records_def hex_sources_fit_def demo_files_def)

definition demo_world :: world where
  "demo_world = \<lparr>w_encoders = demo_host, w_serve = demo_serve, w_rand = replicate 32 5, w_stop = (\<lambda>k. False),
     w_clock = (\<lambda>k. 0), w_stop2 = (\<lambda>k. False)\<rparr>"

section \<open>Command lines\<close>

text \<open>A parser of \<open>--name value\<close>, \<open>--name\<close> and positional arguments that enforces the declarations.\<close>

fun demo_split :: "arg_spec list \<Rightarrow> bytes list \<Rightarrow> matches \<Rightarrow> matches option" where
  "demo_split specs [] m = Some m"
| "demo_split specs (t # ts) m =
    (case List.find (\<lambda>s. ar_long s \<noteq> [] \<and> ascii (''--'' @ ar_long s) = t) specs of
       Some s \<Rightarrow>
         if ar_form s = Switch then demo_split specs ts (fun_upd m (ar_id s) [[]])
         else (case ts of [] \<Rightarrow> None | v # vs \<Rightarrow> demo_split specs vs (fun_upd m (ar_id s) (m (ar_id s) @ [v])))
     | None \<Rightarrow>
         case List.find (\<lambda>s. ar_form s = Single \<or> ar_form s = Many) specs of
           None \<Rightarrow> None
         | Some s \<Rightarrow> if take 1 t = [45] then None else demo_split specs ts (fun_upd m (ar_id s) (m (ar_id s) @ [t])))"

definition demo_clap :: clap where
  "demo_clap =
    \<lparr>cl_matches = (\<lambda>cmds argv.
       case argv of _ # name # ts \<Rightarrow>
         (case List.find (\<lambda>(n, _). ascii n = name) cmds of
            None \<Rightarrow> Inl False
          | Some (n, specs) \<Rightarrow>
              case demo_split specs ts (\<lambda>_. []) of
                None \<Rightarrow> Inl False
              | Some m \<Rightarrow> if map_of cmds n = Some specs \<and> admitted specs m then Inr (n, m) else Inl False)
       | _ \<Rightarrow> Inl False),
     cl_u32 = (\<lambda>v. map_option of_nat (from_str_radix (2 ^ 32) 10 v)),
     cl_usize = from_str_radix (2 ^ 64) 10\<rparr>"

lemma demo_clap_ok: "clap_ok demo_clap"
proof -
  have "\<exists>specs. map_of cmds name = Some specs \<and> admitted specs m" if "cl_matches demo_clap cmds argv = Inr (name, m)" for cmds argv name m
    using that by (auto simp: demo_clap_def split: list.splits option.splits if_splits)
  then show ?thesis by (auto simp: clap_ok_def demo_clap_def from_str_radix_dec)
qed

definition demo_argv :: "bytes list" where
  "demo_argv = map ascii [''motatool'', ''serve'', ''--dir'', ''store'', ''--tcp'', ''node:5001'', ''--no-recursive'']"

definition demo_matches :: matches where
  "demo_matches = (\<lambda>_. [])(''dir'' := [ascii ''store''], ''tcp'' := [ascii ''node:5001''], ''no_recursive'' := [[]])"

lemma demo_split_argv: "demo_split SERVE_ARGS (drop 2 demo_argv) (\<lambda>_. []) = Some demo_matches"
  by (simp add: demo_argv_def demo_matches_def SERVE_ARGS_def an_arg_def ascii_def)

lemma demo_argv_matches: "cl_matches demo_clap SUBCOMMANDS demo_argv = Inr (''serve'', demo_matches)"
proof -
  have "List.find (\<lambda>(n, _). ascii n = ascii ''serve'') SUBCOMMANDS = Some (''serve'', SERVE_ARGS)"
    by (simp add: SUBCOMMANDS_def ascii_def)
  moreover have "admitted SERVE_ARGS demo_matches"
    unfolding admitted_serve by (simp add: demo_matches_def SERVE_ARGS_def an_arg_def given_def)
  ultimately show ?thesis using demo_split_argv
    by (simp add: demo_clap_def demo_argv_def subcommand_specs numeral_2_eq_2 ascii_def)
qed

lemma demo_argv_command: "\<exists>a. command_of demo_clap ''serve'' demo_matches = Inr (Serve a) \<and> s_tcp a = Some (ascii ''node:5001'')"
proof -
  have "typed_arg (cl_u32 demo_clap) SERVE_ARGS demo_matches ''baud'' = Inr 115200"
    by (simp add: typed_arg_def required_value_def arg_value_def demo_matches_def defaults demo_clap_def from_str_radix_dec)
  moreover have "utf8_ok (ascii ''store'')" "utf8_ok (ascii ''node:5001'')" by code_simp+
  ultimately show ?thesis
    by (simp add: command_of_def serve_args_of_def Let_def text_arg_def required_value_def opt_arg_def arg_value_def
        demo_matches_def no_defaults text_value_def)
qed

lemma demo_argv_valid: "v \<in> set (demo_matches ident) \<Longrightarrow> valid_value demo_clap ''serve'' ident v"
proof -
  have "utf8_ok (ascii ''store'')" "utf8_ok (ascii ''node:5001'')" by code_simp+
  then show "v \<in> set (demo_matches ident) \<Longrightarrow> valid_value demo_clap ''serve'' ident v"
    by (auto simp: demo_matches_def valid_value_def split: if_splits)
qed

text \<open>The directory a path is in.\<close>

lemma path_parent_examples:
  "path_parent (ascii ''a/b.mota'') = Some (ascii ''a'')" "path_parent (ascii ''b.mota'') = Some []"
  "path_parent (ascii ''/b'') = Some (ascii ''/'')" "path_parent (ascii ''/'') = None" "path_parent [] = None"
  "path_parent (ascii ''a//b/.'') = Some (ascii ''a'')" "path_parent (ascii ''../b/'') = Some (ascii ''..'')"
  by code_simp+

section \<open>The known answers of the repository's own tests\<close>

text \<open>What the unit tests under \<open>src/\<close> expect of the code, evaluated on the definitions.\<close>

lemma varint_tests:
  "pack_size 0 = [0x00] \<and> pack_size 1 = [0x01] \<and> pack_size (- 1) = [0x41] \<and> pack_size 0x3f = [0x3f] \<and>
    pack_size 0x40 = [0x80, 0x01] \<and> crle_pack_size 0 = [0x00] \<and> crle_pack_size 1 = [0x01] \<and>
    crle_pack_size 0x7f = [0x7f] \<and> crle_pack_size 0x80 = [0x80, 0x01]"
  by code_simp

lemma crle_tests: "crle_compress [1, 2, 3] = [CRLE_SCATTERED, 3, 1, 2, 3] \<and> crle_compress (replicate 6 7) = [CRLE_REPEATED, 6, 7]"
  by code_simp

lemma version_tests:
  "pack_version (ascii ''1.17.0'') = Inr 0x01110000 \<and> version_str 0x01110000 = ascii ''1.17.0'' \<and>
    pack_version (ascii ''1.17.1.02'') = Inr 0x01110102 \<and> version_str 0x01110102 = ascii ''1.17.1.2''"
proof -
  have "replicate 4 (0 :: u32) = [0, 0, 0, 0]" by (simp add: eval_nat_numeral)
  then show ?thesis
    by (simp add: pack_version_def version_str_def ascii_def dec.simps Let_def push_bit_eq_mult drop_bit_eq_div
      dec_value_def is_ascii_digit_def)
qed

lemma bootloader_version_tests:
  "bootloader_version_str 0x020403FF = ascii ''2.4.3'' \<and> bootloader_version_str 0x0204030D = ascii ''2.4.3-preview.13''"
  by code_simp

lemma workspace_test: "minimum_inplace_memory 1 0x6001 4096 = Inr 0x7000 \<and> minimum_inplace_memory 707348 707396 4096 = Inr 0xAF000"
  by (simp add: minimum_inplace_memory_def align_seg_def checked_add64_def Let_def)

lemma reply_tests:
  "line_verdict (DeviceLine (ascii ''  OK folder attached (serial): advertising 1/1 host mOTAs'')) = Some Attached \<and>
    line_verdict (DeviceLine (ascii ''ERR folder source unavailable'')) = Some (Failed ''node rejected `ota folder on`'')"
  by code_simp

end
