(* ===== verification/Spec2Isabelle.thy ===== *)
theory Spec2Isabelle
  imports Mota_Demo
begin

text \<open>
  \<^bold>\<open>A verification library for motatool.\<close>

  The program (\<open>src/src/*.rs\<close>, Rust) packages firmware for the over-the-air updates of MeshCore nodes. It
  builds containers (\<open>.mota\<close>) from a full image, a delta against a base image or a bootloader image; verifies
  and inspects them; makes keys; measures transport sizes; and serves a folder of containers to a node over a
  byte stream, capturing what the node stores. \<open>main.rs\<close> dispatches to one command each; \<open>build.rs\<close> and
  \<open>bootloader.rs\<close> build; \<open>encode.rs\<close> makes the deltas; \<open>format.rs\<close> is the container that \<open>verify.rs\<close> checks and
  \<open>serve.rs\<close> serves; \<open>endf.rs\<close>, \<open>targets.rs\<close>, \<open>merkle.rs\<close>, \<open>crypto.rs\<close>, \<open>transport.rs\<close> and \<open>input.rs\<close> are used
  by them.

  \<^bold>\<open>Conventions\<close> (\<open>Mota_Prelude\<close>). A field with a width is a word of that width; a \<open>usize\<close> is a \<open>nat\<close>; bytes and
  strings are byte lists. A fallible function returns \<open>'a result\<close>: \<open>Inl (Bail msg)\<close> for an error value,
  \<open>Inl Panic\<close> for a panic (index or slice out of range, checked arithmetic, \<open>unwrap\<close>), \<open>Inr x\<close> for a value.
  Definitions have the names of the source; constants form the collection \<open>mota_const\<close>.

  \<^bold>\<open>The theories and the code they model.\<close>
  \<^item> \<open>Mota_Format\<close>, \<open>Mota_Manifest\<close>: \<open>format.rs\<close>. Constants, \<open>manifest\<close>, its accessors, \<open>Manifest::parse\<close>. The
    parser accepts exactly the image of a serializer, and everything it returns is well-typed.
  \<^item> \<open>Mota_Crypto\<close>, \<open>Mota_Merkle\<close>: \<open>crypto.rs\<close>, \<open>merkle.rs\<close>. The root loop computes the left-balanced hash tree.
  \<^item> \<open>Mota_Versions\<close>, \<open>Mota_Endf\<close>: \<open>endf.rs\<close>. Versions, the identity trailer, the nRF52 layout record.
  \<^item> \<open>Mota_Targets\<close>: \<open>targets.rs\<close>. The table of targets.
  \<^item> \<open>Mota_Crc\<close>, \<open>Mota_Boards\<close>, \<open>Mota_Bootloader\<close>, \<open>Mota_Package\<close>: \<open>bootloader.rs\<close>. The checksum, the 28 boards and
    their identities, the image validation, the signed package. For every board and profile an image is
    constructed that validates. \<open>Mota_Contract\<close>: what the validation accepts, by the bytes of the records.
  \<^item> \<open>Mota_Crle\<close>, \<open>Mota_Bsdiff\<close>, \<open>Mota_Suffix\<close>, \<open>Mota_Patch\<close>: \<open>encode.rs\<close>. Varints and run-length compression,
    the suffix array and the search, the bsdiff loops, the two patch formats. The decoders are specifications
    (the real decoder is the firmware's); a patch rebuilds its target byte for byte.
  \<^item> \<open>Mota_Verify\<close>, \<open>Mota_Build\<close>: \<open>verify.rs\<close>, \<open>build.rs\<close>. What is built verifies; \<open>verify\<close> accepts exactly the intact
    containers; two intact containers with one manifest have one payload, or exhibit a hash collision.
  \<^item> \<open>Mota_Hex\<close>: \<open>input.rs\<close> and the region extraction of \<open>bootloader.rs\<close>. Extraction succeeds exactly when the records
    are well-formed and agree on the region; the flat reader panics exactly when a record overruns the address space.
  \<^item> \<open>Mota_Transport\<close>: \<open>transport.rs\<close>. The choice of an encoding and the accounting per block.
  \<^item> \<open>Mota_Seeder\<close>, \<open>Mota_Stream\<close>, \<open>Mota_Session\<close>, \<open>Mota_Store\<close>: \<open>serve.rs\<close>. The folder scan, the request handler with
    its capture store, the framing and the stream state, the serving loop and the attach handshake. The store
    on files refines a map from ids to captures; whatever a node sends, a session keeps the store's invariants.
    \<open>Mota_Attach\<close>: the handshake and the loops on links that never end, and the run on console lines.
  \<^item> \<open>Mota_Cli\<close>, \<open>Mota_Commands\<close>, \<open>Mota_Main\<close>: \<open>main.rs\<close>. Numbers and labels, the seven commands on a file system
    with directories and failing writes, the dispatch and the exit code.
  \<^item> \<open>Mota_Args\<close>: the argument structs of \<open>main.rs\<close> as tables of declarations, the command read out of the values
    given, and the program from \<open>argv\<close> to its exit code. What the crate lets through is a well-formed command, or
    one of the values given is not valid.
  \<^item> \<open>Mota_Demo\<close>: concrete runs on which the conditional properties are instantiated.

  \<^bold>\<open>Interfaces.\<close> Locales state what one part relies on from another and are interpreted on the model's definitions:
  \<open>match_finder\<close> (the bsdiff loops over a search that answers with positions inside the buffers, interpreted on
  \<open>search\<close> over the suffix array), \<open>link_relation\<close> (what one event and one written line keep, the loops and the
  session keep; interpreted for the disk and for the link), \<open>le_field\<close> and \<open>byte_codec\<close> (round trips of fixed-width
  numbers and of varints in front of other data).

  \<^bold>\<open>Loops and bounds.\<close> There is no fuel: every loop of the source is a total function with a measure. The search
  halves its interval, the doubling loop of the suffix array doubles its step up to the length, the bsdiff
  loops advance the scan position, the segment loop of the in-place encoder advances in the image, the stream
  loops consume the list of what the link returns (a read that times out is an element of it), so the functions
  are total. The list is what has been observed of a link, which may go on for ever: the loops do not end because it
  ends. \<open>Mota_Attach\<close> shows it: on an endless stream the handshake ends at the deadline and the serving loop at the stop
  flag, after at most 525 reads for each step before, and every longer prefix of the stream gives the same run. The clock and the stop flags are functions of the number of the query. Sums of
  buffer lengths are natural numbers, being below \<open>2 ^ 63\<close> on the hosts the tool runs on; where the source
  computes in 32 bits (block counts, image sizes, addresses of HEX records, staging sizes) the model does so too, with its
  checks and its wrap-around or panic.

  \<^bold>\<open>Parameters.\<close> Third-party code is an argument: SHA-256, Ed25519 and upper-case hex (record \<open>crypto\<close>, laws \<open>crypto_ok\<close>),
  zopfli, flate2, lower-case hex and the faults of the file
  system (\<open>host\<close>, \<open>deflate_ok\<close>, \<open>storage_ok\<close>), the HEX record parser and downloads (\<open>input_host\<close>), files, the
  decoder of hex keys, ports, sockets, clock, random seed (\<open>cli_host\<close>, \<open>serve_host\<close>, \<open>world\<close>), the argument parser
  (\<open>clap\<close>, \<open>clap_ok\<close>: its documented rules on required, conflicting and repeated arguments, and that its number
  parsers read decimals). No law says that
  hashes do not collide or signatures cannot be forged.

  \<^bold>\<open>Not modelled.\<close> The signal handler, which sets the stop flag; the text on the console, of which only the
  parts are given; the help texts; a write to a link that delivers a part of its bytes, and a link that breaks in
  mid-session (a link takes every write or none); the recursive walk of a folder (a crate); the file systems behind paths (links, permissions),
  of which a command sees whether a path can be read and written; \<open>lib.rs\<close>, which declares the modules;
  and the tests. These are calls into the operating system or third-party crates with no logic of their own.

  \<^bold>\<open>The properties\<close> below are about the program as a whole first (commands that compose, builds that verify, deltas that
  rebuild, no panics, the safety of the store), then about its components. Where a property has a
  hypothesis, a theorem after it applies it to concrete inputs.
\<close>

text \<open>
  C1. The commands compose: after keygen wrote a key pair, any successful build that signs with the private key file leaves a package that verify, given the public key file, accepts with exit code success - provided the package was not written over the public key file.
\<close>

theorem keygen_build_verify_chain:
  assumes "crypto_ok c" and "hex_ok c h" and "length rand = 32"
    and "cmd_keygen c rand h (Some k) = (Inr shown, h1)"
    and "cmd_build checks c h1 a = (Inr r, h2)" and "a_sign a = Some k"
    and "r_out_path r \<noteq> k @ ascii ''.pub''"
  shows "\<exists>lns. cmd_verify c h2 (Some (k @ ascii ''.pub'')) [r_out_path r] = Inr (True, lns)"
  by (rule keygen_build_verify [OF assms])

theorem keygen_build_verify_chain_witness:
  "\<exists>h1 h2 shown r lns. cmd_keygen cli_crypto (replicate 32 5) demo_files (Some (ascii ''k'')) = (Inr shown, h1) \<and>
    cmd_build True cli_crypto h1 demo_args = (Inr r, h2) \<and>
    cmd_verify cli_crypto h2 (Some (ascii ''k'' @ ascii ''.pub'')) [ascii ''o.mota''] = Inr (True, lns)"
proof -
  obtain shown h1 where k: "cmd_keygen cli_crypto (replicate 32 5) demo_files (Some (ascii ''k'')) = (Inr shown, h1)"
    using demo_keygen by blast
  obtain r h2 where b: "cmd_build True cli_crypto h1 demo_args = (Inr r, h2)" "r_out_path r = ascii ''o.mota''"
    using demo_command [OF k] by blast
  have l: "length (replicate 32 (5 :: u8)) = 32" by simp
  have s: "a_sign demo_args = Some (ascii ''k'')" by (simp add: demo_args_def)
  have ne: "r_out_path r \<noteq> ascii ''k'' @ ascii ''.pub''" by (simp add: b(2) ascii_def)
  show ?thesis
    using keygen_build_verify_chain [OF cli_crypto_ok demo_hex_ok l k b(1) s ne] k b by auto
qed

text \<open>
  C2. Whatever the builder returns, full image or delta, signed or not, passes the verifier with no problem at all and parses back to the manifest the builder reports.
\<close>

theorem build_verifies:
  assumes "crypto_ok c" and "build c opts = Inr b"
  shows "verify c (bt_bytes b) = Inr [] \<and> manifest_parse c (bt_bytes b) = Inr (bt_manifest b)"
  by (rule build_result [OF assms]) (auto simp: verify_nil [OF crypto_ok_sha [OF assms(1)]])

theorem build_verifies_witness:
  "\<exists>b. build demo_crypto demo_opts = Inr b \<and> verify demo_crypto (bt_bytes b) = Inr []"
  using demo_full_ok build_verifies [OF demo_crypto_ok, of demo_opts] by (auto simp: is_ok_iff)

text \<open>
  C3. The verifier reports no problem exactly for the containers whose header, geometry, Merkle leaves and root, image hash (full images), signature (signed ones) and approval bytes are all consistent with one manifest.
\<close>

theorem verify_accepts_exactly_intact:
  assumes "sha_ok c"
  shows "verify c blob = Inr [] \<longleftrightarrow>
    (\<exists>m payload. manifest_wf c m payload \<and> length payload = unat (m_payload_size m) \<and>
       m_merkle_root m = mth c (leaf_hashes c payload (unat (block_size m))) \<and>
       (is_full m \<longrightarrow> m_image_hash m = sha256 c payload) \<and>
       (is_signed m \<longrightarrow>
          ed25519_verify c (m_signer m) (take SIGNED_LEN (manifest_bytes m)) (m_signature m)) \<and>
       m_approval m = APPROVAL_NONE \<and>
       blob = container m (concat (leaf_hashes c payload (unat (block_size m)))) payload)"
  using verify_nil [OF assms, of blob] by (simp add: intact_def intact_container_def conj_assoc)

theorem verify_accepts_exactly_intact_witness:
  "\<exists>b m payload. build demo_crypto demo_opts = Inr b \<and> m_approval m = APPROVAL_NONE \<and>
    bt_bytes b = container m (concat (leaf_hashes demo_crypto payload (unat (block_size m)))) payload"
proof -
  obtain b where b: "build demo_crypto demo_opts = Inr b" using demo_full_ok by (auto simp: is_ok_iff)
  show ?thesis
    using verify_accepts_exactly_intact [OF crypto_ok_sha [OF demo_crypto_ok], of "bt_bytes b"]
      built_verifies(1) [OF demo_crypto_ok b] b by blast
qed

text \<open>
  C4. A sequential delta container carries a payload from which the decoder rebuilds exactly the announced target image out of the announced base image, and the hashes in its manifest are those of the two images.
\<close>

theorem sequential_delta_rebuilds_image:
  assumes "crypto_ok c" and "build c opts = Inr b"
    and "o_base opts = Some base" and "o_patch_type opts = Sequential"
  defines "img \<equiv> fst (ensure_endf c (o_fw opts) (resolve_ident c opts))"
  shows "apply_sequential base (payload_of b) = Some img \<and> m_image_hash (bt_manifest b) = sha256 c img \<and>
    has_endf c base \<and> m_base_hash (bt_manifest b) = slice 8 16 (endf_trailer base) \<and>
    bt_inplace_memory b = None \<and> m_codec_id (bt_manifest b) = 1"
  using build_sequential [OF assms(1-4)] unfolding img_def by (simp add: the_image_def)

theorem sequential_delta_rebuilds_image_witness:
  "\<exists>b. build flat_crypto (demo_delta Sequential) = Inr b \<and>
    apply_sequential (stamped 1) (payload_of b) = Some (stamped 2)"
proof -
  obtain b where b: "build flat_crypto (demo_delta Sequential) = Inr b"
    using demo_sequential_ok by (auto simp: is_ok_iff)
  show ?thesis
    using sequential_delta_rebuilds_image [OF flat_crypto_ok b, of "stamped 1"] b demo_image [of Sequential]
    by (simp add: the_image_def)
qed

text \<open>
  C5. An in-place delta container reports the window size it was planned for; in any window of that size that starts with the base image, running the in-place decoder over the payload leaves exactly the target image, and the window is large enough for both images.
\<close>

theorem in_place_delta_rebuilds_image:
  assumes "crypto_ok c" and "build c opts = Inr b"
    and "o_base opts = Some base" and "o_patch_type opts = InPlace"
  defines "img \<equiv> fst (ensure_endf c (o_fw opts) (resolve_ident c opts))"
  shows "\<exists>memory. bt_inplace_memory b = Some memory \<and>
    length base + 2 * unat (o_segment_size opts) \<le> unat memory \<and> length img \<le> unat memory \<and>
    unat memory mod unat (o_segment_size opts) = 0 \<and>
    (\<forall>win. length win = unat memory \<and> take (length base) win = base \<longrightarrow>
       apply_window win (payload_of b) = Some img)"
  using build_in_place [OF assms(1-4)] unfolding img_def by (simp add: the_image_def)

theorem in_place_delta_rebuilds_image_witness:
  "\<exists>b memory. build flat_crypto (demo_delta InPlace) = Inr b \<and> bt_inplace_memory b = Some memory \<and>
    apply_window (stamped 1 @ replicate (unat memory - 56) 0) (payload_of b) = Some (stamped 2)"
proof -
  obtain b where b: "build flat_crypto (demo_delta InPlace) = Inr b"
    using demo_in_place_ok by (auto simp: is_ok_iff)
  then obtain memory where "bt_inplace_memory b = Some memory" "56 \<le> unat memory"
    "\<forall>win. length win = unat memory \<and> take 56 win = stamped 1 \<longrightarrow> apply_window win (payload_of b) = Some (stamped 2)"
    using in_place_delta_rebuilds_image [OF flat_crypto_ok b, of "stamped 1"] demo_image [of InPlace]
    by (auto simp: the_image_def)
  with b show ?thesis by (intro exI [of _ b] exI [of _ memory]) simp
qed

text \<open>
  C6. The whole program, from the words of its command line to the exit code, never panics, whatever the files, links and arguments are, provided the argument parser enforces the declarations, hex records have at most 255 bytes and no source named .hex has a data record that reaches the end of the 32-bit address space: every other failure becomes an exit code. The last condition is exact for the flat hex reader: with overflow checks it panics on a source if and only if the name ends in .hex, the bytes read are UTF-8 and a data record before the end of the file reaches the end of the address space; the bootloader reader, which checks its additions, never panics.
\<close>

theorem program_never_panics:
  assumes "crypto_ok c" and "inputs_ok h" and "clap_ok cl"
  shows "(\<exists>success h' d'. program checks c cl w argv h d = (Inr success, h', d')) \<and>
    (\<forall>ih src. (\<forall>bs. short_records (hex_reader ih bs)) \<longrightarrow>
      (read_input True ih src = Inl Panic \<longleftrightarrow>
        hex_name src \<and> (\<exists>raw. read_raw_input ih src = Inr raw \<and> utf8_ok raw \<and> \<not> hex_fits 0 (hex_reader ih raw))) \<and>
      read_bootloader_hex ih src \<noteq> Inl Panic)"
proof (intro conjI)
  show "\<exists>success h' d'. program checks c cl w argv h d = (Inr success, h', d')"
    using program_no_panic [OF assms, of checks w argv d] program_code [of checks c cl w argv h d]
    by (cases "program checks c cl w argv h d") auto
qed (use read_input_panic read_bootloader_no_panic in blast)

theorem program_never_panics_witness:
  "(\<exists>success h' d'. program True cli_crypto demo_clap demo_world demo_argv demo_files Map.empty = (Inr success, h', d')) \<and>
    read_input True (inputs demo_files) (ascii ''fw.hex'') \<noteq> Inl Panic \<and> read_bootloader_hex (inputs demo_files) (ascii ''fw.hex'') \<noteq> Inl Panic"
proof -
  note p = program_never_panics [OF cli_crypto_ok demo_inputs_ok demo_clap_ok, of True demo_world demo_argv Map.empty]
  have s: "\<forall>bs. short_records (hex_reader (inputs demo_files) bs)"
    using demo_inputs_ok by (simp add: inputs_ok_def)
  have "hex_fits 0 (hex_reader (inputs demo_files) raw)" for raw
    by (simp add: demo_files_def)
  with p s show ?thesis by blast
qed

text \<open>
  C7. Whatever bytes arrive on the link during a serve command, and whatever operations of the file system fail, no file outside the capture store changes, and a published file is unchanged or replaced by one whose header carries the magic and its own length.
\<close>

theorem serve_protects_files:
  assumes "cmd_serve c e h s a stop clock stop2 d = Inr sr"
  shows "(sr_disk sr (store_path e [s_dir a] mid False) = d (store_path e [s_dir a] mid False) \<or>
      (\<exists>f. sr_disk sr (store_path e [s_dir a] mid False) = Some f \<and> header_ok f)) \<and>
    (\<not> store_file e [s_dir a] p \<longrightarrow> sr_disk sr p = d p)"
  using cmd_serve_store [OF assms] by blast

theorem serve_protects_files_witness:
  "\<exists>sr. cmd_serve demo_crypto demo_host demo_files demo_serve demo_serve_args (\<lambda>k. False) (\<lambda>k. 0) (\<lambda>k. False) Map.empty = Inr sr \<and>
    sr_disk sr [ascii ''x''] = None"
proof -
  obtain sr where sr: "cmd_serve demo_crypto demo_host demo_files demo_serve demo_serve_args
      (\<lambda>k. False) (\<lambda>k. 0) (\<lambda>k. False) Map.empty = Inr sr"
    using demo_served_session by blast
  have "\<not> store_file demo_host [s_dir demo_serve_args] [ascii ''x'']"
    by (simp add: store_file_def store_path_def)
  with serve_protects_files [OF sr] sr show ?thesis by auto
qed

text \<open>
  C8. The capture store, on a file system that does what it is asked, refines a map from ids to captures: for any sequence of well-formed storage requests, in any interleaving of ids, the replies and the files afterwards are those of the abstract map, where a request concerns only the capture of the id it names.
\<close>

theorem store_refines_captures_map:
  assumes "inj (hex_lower h)" and "c_store_dir core = Some dir" and "storage_ok h"
    and "list_all (\<lambda>(op, args). storage_request op args) rs"
  shows "\<exists>d'. handle_all h core d rs = Inr (fst (capture_all (c_seed core) rs (captures h dir d)), d') \<and>
    captures h dir d' = snd (capture_all (c_seed core) rs (captures h dir d))"
  by (rule store_refines_captures [OF assms(1,2,3)]) (use assms(4) in \<open>simp add: list_all_iff\<close>)

theorem store_refines_captures_map_witness:
  "\<exists>d'. handle_all demo_host (seeder_new [] (Some [])) Map.empty
      [(OP_BEGIN, begin_args [1, 2, 3, 4] 9), (OP_STAT, [5, 6, 7, 8])] =
    Inr ([Some (STATUS_OK, []), Some (STATUS_OK, 0 # le_u32 0)], d') \<and>
    captures demo_host [] d' [1, 2, 3, 4] = \<lparr>in_progress = Some (replicate 9 0xFF), published = None\<rparr>"
proof -
  let ?core = "seeder_new [] (Some [])" and ?rs = "[(OP_BEGIN, begin_args [1, 2, 3, 4] 9), (OP_STAT, [5, 6, 7, 8])]"
  have d: "c_store_dir ?core = Some []" "c_seed ?core = None" by (simp_all add: seeder_new_def)
  have q: "list_all (\<lambda>(op, args). storage_request op args) ?rs"
    by (simp add: storage_request_def request_ok_def request_lens begin_args_def)
  have u: "slice 4 8 (begin_args [1, 2, 3, 4] 9) = le_u32 9" by (simp add: begin_args_def slice_def)
  have v: "u32_le (slice 4 8 (begin_args [1, 2, 3, 4] 9)) = 9" by (simp only: u u32f.dec_enc)
  have o: "capture_all None ?rs (captures demo_host [] Map.empty) =
      ([Some (STATUS_OK, []), Some (STATUS_OK, 0 # le_u32 0)],
       (captures demo_host [] Map.empty)([1, 2, 3, 4] := \<lparr>in_progress = Some (replicate 9 0xFF), published = None\<rparr>))"
    unfolding capture_all.simps capture_op_def v
    by (simp add: request_lens begin_args_def captures_def staged_def fun_eq_iff)
  show ?thesis
    using store_refines_captures_map [OF demo_hex_inj d(1) demo_storage_ok q, of Map.empty] unfolding d(2) o by auto
qed

text \<open>
  C9. The prefix-doubling suffix array is the list of all positions sorted by their suffixes in byte order, and the sentinel array puts the empty suffix first.
\<close>

theorem suffix_array_sorts_suffixes:
  "suffix_array s = sort_key (\<lambda>i. drop i s) [0..<length s] \<and>
    suffix_array_with_sentinel s = sort_key (\<lambda>i. drop i s) [0..<Suc (length s)]"
proof -
  have "sort_key (\<lambda>i. drop i s) [0..<Suc (length s)] = suffix_array_with_sentinel s"
  proof (rule sort_key_inj_key_eq)
    show "inj_on (\<lambda>i. drop i s) (set [0..<Suc (length s)])"
      by (rule inj_onI) (auto dest: arg_cong [where f = length])
  qed (simp_all add: suffix_array_with_sentinel_def mset_suffix_array suffix_array_sorted)
  then show ?thesis by (simp add: suffix_array_eq)
qed

text \<open>
  C10. Two files that both verify and carry the same manifest are the same file, byte for byte, unless the truncated hash collides on two strings hashed while their Merkle roots are computed.
\<close>

theorem verified_files_are_bound:
  assumes "sha_ok c"
    and "verify c x = Inr []" and "manifest_parse c x = Inr m"
    and "verify c y = Inr []" and "manifest_parse c y = Inr m"
  shows "x = y \<or> (\<exists>p q. collision (mh c 4) (hashed_inputs c m p) (hashed_inputs c m q))"
  using verified_same_manifest [OF assms] .

theorem verified_files_are_bound_witness:
  "\<exists>b. build demo_crypto demo_opts = Inr b \<and> (\<forall>y. verify demo_crypto y = Inr [] \<and>
      manifest_parse demo_crypto y = Inr (bt_manifest b) \<longrightarrow>
    bt_bytes b = y \<or> (\<exists>p q. collision (mh demo_crypto 4)
       (hashed_inputs demo_crypto (bt_manifest b) p) (hashed_inputs demo_crypto (bt_manifest b) q)))"
proof -
  obtain b where b: "build demo_crypto demo_opts = Inr b" using demo_full_ok by (auto simp: is_ok_iff)
  note r = built_verifies [OF demo_crypto_ok b]
  show ?thesis
    using verified_files_are_bound [OF crypto_ok_sha [OF demo_crypto_ok] r] b by blast
qed

text \<open>
  C11. For every served container, a node that asks for a block and for its leaf at the offsets the description announces receives exactly the block of the verified payload and its leaf hash; the announced Merkle root is the tree hash of those leaves, and for a full image the blocks together have the announced image hash.
\<close>

theorem node_can_check_blocks:
  assumes "sha_ok c" and "served_ok c s" and "folder_at (c_folder core) (unat i) = Some s"
    and "k < length (served_blocks s)"
  defines "m \<equiv> s_manifest s" and "b \<equiv> served_blocks s ! k"
  shows "handle h core d OP_DESCRIBE [i] = Inr (Some (STATUS_OK,
      m_merkle_root m @ le_u32 (m_target_id m) @ le_u32 (m_fw_version m) @ [m_codec_id m, m_flags m] @
      le_u32 (of_nat (length (s_bytes s))) @ le_u32 (of_nat (leaves_off m)) @ le_u32 (m_block_count m) @
      le_u32 (of_nat (payload_off m)) @ le_u32 (m_payload_size m) @
      [m_block_size_log2 m, SOURCE_CAP_DEFLATE_BLOCK, 0, 0]), d) \<and>
    handle h core d OP_READ ([i] @ le_u32 (of_nat (payload_off m + k * unat (block_size m))) @ le_u16 (of_nat (length b))) =
      Inr (Some (STATUS_OK, b), d) \<and>
    handle h core d OP_READ ([i] @ le_u32 (of_nat (leaves_off m + 4 * k)) @ le_u16 4) = Inr (Some (STATUS_OK, leaf c b), d) \<and>
    m_merkle_root m = mth c (map (leaf c) (served_blocks s)) \<and>
    (is_full m \<longrightarrow> m_image_hash m = sha256 c (concat (served_blocks s)))"
  using handle_describe [OF assms(3)] describe_eq [OF served_geometry(6) [OF assms(2)]]
    fetch_block [OF assms(1-4)] by (simp add: m_def b_def Let_def)

theorem node_can_check_blocks_witness:
  "\<exists>s. served_ok demo_crypto s \<and> m_image_hash (s_manifest s) = sha256 demo_crypto (concat (served_blocks s)) \<and>
    handle demo_host (seeder_new [s] None) Map.empty OP_READ
      ([0] @ le_u32 (of_nat (leaves_off (s_manifest s))) @ le_u16 4) =
      Inr (Some (STATUS_OK, leaf demo_crypto (served_blocks s ! 0)), Map.empty)"
proof (rule demo_served)
  fix s
  assume s: "served_ok demo_crypto s" "served_blocks s \<noteq> []" "is_full (s_manifest s)"
  have f: "folder_at (c_folder (seeder_new [s] None)) (unat (0 :: u8)) = Some s"
    by (simp add: seeder_new_def folder_at_def)
  show ?thesis
    using node_can_check_blocks [where h = demo_host and d = Map.empty, OF crypto_ok_sha [OF demo_crypto_ok] s(1) f, of 0] s
    by auto
qed

text \<open>
  C12. A bootloader package is built exactly when the image satisfies the contract of the chosen board and storage profile; the package then has the fixed size, verifies without a problem, parses back to the reported manifest and carries the image unchanged.
\<close>

theorem bootloader_package_verifies:
  assumes "crypto_ok c"
  shows "(is_ok (build_bootloader c opts) \<longleftrightarrow>
      is_ok (validate_bootloader_image_for_profile c (bo_image opts) (bo_board opts) (bo_storage_profile opts))) \<and>
    (\<forall>b. build_bootloader c opts = Inr b \<longrightarrow>
      verify c (bt_bytes b) = Inr [] \<and> manifest_parse c (bt_bytes b) = Inr (bt_manifest b) \<and>
      length (bt_bytes b) = PACKAGE_SIZE \<and>
      slice (payload_off (bt_manifest b)) (payload_off (bt_manifest b) + IMAGE_SIZE) (bt_bytes b) = bo_image opts)"
  using bootloader_built_verifies [OF assms] by (auto simp: build_bootloader_eq [OF assms] is_ok_iff)

theorem bootloader_package_verifies_witness:
  "\<exists>b. build_bootloader boards_crypto demo_bootloader = Inr b \<and> verify boards_crypto (bt_bytes b) = Inr [] \<and>
    length (bt_bytes b) = PACKAGE_SIZE"
  using bootloader_package_verifies [OF boards_crypto_ok, of demo_bootloader] demo_bootloader_ok
  by (auto simp: is_ok_iff)

text \<open>
  C13. Parsing succeeds with a manifest exactly on the serialisation of that manifest with leaves and payload of the announced sizes, when the manifest is well-formed; a parsed file is therefore the serialisation of what was read from it.
\<close>

theorem parse_accepts_exactly_containers:
  "manifest_parse c blob = Inr m \<longleftrightarrow>
    (\<exists>leaves payload. manifest_wf c m payload \<and> length leaves = 4 * unat (m_block_count m) \<and>
       length payload = unat (m_payload_size m) \<and> blob = container m leaves payload)"
proof
  assume "manifest_parse c blob = Inr m"
  from parse_Inr_container [OF this] show "\<exists>leaves payload. manifest_wf c m payload \<and>
      length leaves = 4 * unat (m_block_count m) \<and> length payload = unat (m_payload_size m) \<and>
      blob = container m leaves payload" by blast
qed (auto intro: parse_container)

text \<open>
  C14. A build without a base succeeds exactly when the block size is a power of two between 2 and 2048 and the stamped image needs at most 65535 blocks; no other input makes it fail.
\<close>

theorem full_build_succeeds_iff:
  assumes "crypto_ok c" and "o_base opts = None"
  shows "is_ok (build c opts) \<longleftrightarrow>
    1 < o_block_size opts \<and> o_block_size opts \<le> MAX_APPLICATION_BLOCK_SIZE \<and>
    is_power_of_two (o_block_size opts) \<and>
    div_ceil (length (fst (ensure_endf c (o_fw opts) (resolve_ident c opts)))) (unat (o_block_size opts)) \<le> 0xFFFF"
  using build_full_ok [OF assms] by (simp add: block_size_ok_def the_image_def conj_assoc)

theorem full_build_succeeds_iff_witness:
  "\<not> is_ok (build demo_crypto (demo_opts\<lparr>o_block_size := 1\<rparr>))"
  by (subst full_build_succeeds_iff [OF demo_crypto_ok]) (simp_all add: demo_opts_def)

text \<open>
  C15. No byte string and no combination of options makes the parser, the verifier or the builder panic: every out-of-range index, overflow or unwrap of the source is guarded, and failures are reported as errors.
\<close>

theorem library_never_panics:
  "manifest_parse c blob \<noteq> Inl Panic \<and> verify c blob \<noteq> Inl Panic \<and> build c opts \<noteq> Inl Panic"
  by (simp add: manifest_parse_no_panic verify_no_panic build_no_panic)

text \<open>
  C16. The verify command never panics; it exits with success exactly when the expected key, if given, can be read and every listed file can be read, verifies and - with a key given - is signed by that very key.
\<close>

theorem verify_command_exact:
  "\<exists>success lns. cmd_verify c h pub_key files = Inr (success, lns) \<and>
    (success \<longleftrightarrow> (\<exists>expect. transpose_opt (load_key32 h) pub_key = Inr expect \<and> list_all (\<lambda>file.
       \<exists>blob m. file_at h file = Some blob \<and> verify c blob = Inr [] \<and> manifest_parse c blob = Inr m \<and>
         (case expect of None \<Rightarrow> True | Some want \<Rightarrow> is_signed m \<and> m_signer m = want)) files))"
proof -
  have "accepted c h expect = (\<lambda>f. \<exists>blob m. file_at h f = Some blob \<and> verify c blob = Inr [] \<and> manifest_parse c blob = Inr m \<and>
         (case expect of None \<Rightarrow> True | Some want \<Rightarrow> is_signed m \<and> m_signer m = want))" for expect
    by (auto simp: fun_eq_iff accepted_def split: option.splits)
  then show ?thesis
    using cmd_verify_total [of c h pub_key files] cmd_verify_success [of c h pub_key files] by auto
qed

text \<open>
  C17. Both build commands touch nothing when their inputs or options are rejected or no package can be built. Otherwise the only file that changes is the output - the --out path, or the suggested name in the output directory: if that path is writable after its directories are created, the command succeeds, reports the path and the file is exactly the container, which verify accepts; if not, it fails with the write error and the file holds what the failed write left. The internal check of the freshly built package never fails.
\<close>

theorem build_commands_write_verified:
  assumes "crypto_ok c"
  shows "(case bindr (build_opts_of checks c h a) (build c) of
      Inl e \<Rightarrow> cmd_build checks c h a = (Inl e, h)
    | Inr x \<Rightarrow> writes_output c h (a_out a) (a_out_dir a) x r_out_path (cmd_build checks c h a)) \<and>
    (case bootloader_input c h b of
      Inl e \<Rightarrow> cmd_build_bootloader c h b = (Inl e, h)
    | Inr x \<Rightarrow> writes_output c h (b_out b) (b_out_dir b) x br_out_path (cmd_build_bootloader c h b)) \<and>
    checked_build c msg (bindr (build_opts_of checks c h a) (build c)) = bindr (build_opts_of checks c h a) (build c) \<and>
    checked_build c msg (bootloader_input c h b) = bootloader_input c h b"
  by (intro conjI cmd_build_outcome cmd_build_bootloader_outcome checked_build_build checked_build_bootloader assms)

theorem build_commands_write_verified_witness:
  "\<exists>shown h1 r h2. cmd_keygen cli_crypto (replicate 32 5) demo_files (Some (ascii ''k'')) = (Inr shown, h1) \<and>
    cmd_build True cli_crypto h1 demo_args = (Inr r, h2) \<and> accepted cli_crypto h2 None (ascii ''o.mota'') \<and>
    file_at h2 (ascii ''k'') = file_at h1 (ascii ''k'')"
proof -
  obtain shown h1 where k: "cmd_keygen cli_crypto (replicate 32 5) demo_files (Some (ascii ''k'')) = (Inr shown, h1)"
    using demo_keygen by blast
  obtain r h2 where b: "cmd_build True cli_crypto h1 demo_args = (Inr r, h2)" "r_out_path r = ascii ''o.mota''"
    using demo_command [OF k] by blast
  note c1 = conjunct1 [OF build_commands_write_verified [where checks = True and h = h1 and a = demo_args, OF cli_crypto_ok]]
  show ?thesis
  proof (cases "bindr (build_opts_of True cli_crypto h1 demo_args) (build cli_crypto)")
    case (Inr x)
    have "ascii ''k'' \<noteq> ascii ''o.mota''" by (simp add: ascii_def)
    moreover obtain p where "r_out_path r = p" "accepted cli_crypto h2 None p" "\<forall>q. q \<noteq> p \<longrightarrow> file_at h2 q = file_at h1 q"
      using c1 b(1) by (auto simp: Inr writes_output_def Let_def split: if_splits)
    ultimately have "accepted cli_crypto h2 None (ascii ''o.mota'')" "file_at h2 (ascii ''k'') = file_at h1 (ascii ''k'')"
      using b(2) by auto
    then show ?thesis using k b(1) by blast
  qed (use c1 b(1) in simp)
qed

text \<open>
  C18. The serve command, given a serial port or an address as its argument parser demands, never panics, whatever is in the folder, the seed and the input of the link; once it runs it lists every served container and writes to the link only the optional tempradio command, at most three attach commands, well-formed response frames and - with console control - the one detach command, which closes the transcript after a failed attach too.
\<close>

theorem serve_command_transcript:
  assumes "s_tcp a \<noteq> None \<or> s_serial a \<noteq> None"
  shows "cmd_serve c e h s a stop clock stop2 d \<noteq> Inl Panic \<and>
    (\<forall>sr. cmd_serve c e h s a stop clock stop2 d = Inr sr \<longrightarrow>
      (\<exists>l0 motas warns n rs. open_link s a = Inr l0 \<and>
        folder_scan c (walk s (s_dir a) (\<not> s_no_recursive a)) = Inr (motas, warns) \<and> length (sr_folder sr) = length motas \<and>
        l_out (sr_link sr) = l_out l0 @
          (case s_tempradio a of None \<Rightarrow> [] | Some t \<Rightarrow> [ascii ''tempradio '' @ t @ [13, 10]]) @
          (if l_broken l0 then [] else replicate n FOLDER_ON @ rs @ (if s_tcp a = None \<and> \<not> s_no_enable a then [FOLDER_OFF] else [])) \<and>
        n \<le> 3 \<and> list_all is_response rs))"
  using cmd_serve_no_panic [OF assms] cmd_serve_transcript [of c e h s a stop clock stop2 d]
  unfolding list_all_iff by blast

theorem serve_command_transcript_witness:
  "\<exists>sr n rs. cmd_serve demo_crypto demo_host demo_files demo_serve demo_serve_args (\<lambda>k. False) (\<lambda>k. 0) (\<lambda>k. False) Map.empty =
      Inr sr \<and> l_out (sr_link sr) = replicate n FOLDER_ON @ rs \<and> n \<le> 3 \<and> list_all is_response rs"
proof -
  have a: "s_tcp demo_serve_args \<noteq> None \<or> s_serial demo_serve_args \<noteq> None" by (simp add: demo_serve_args_def)
  obtain sr where sr: "cmd_serve demo_crypto demo_host demo_files demo_serve demo_serve_args
      (\<lambda>k. False) (\<lambda>k. 0) (\<lambda>k. False) Map.empty = Inr sr"
    using demo_served_session by blast
  have f: "s_tempradio demo_serve_args = None" "s_tcp demo_serve_args \<noteq> None" by (simp_all add: demo_serve_args_def)
  show ?thesis
    using serve_command_transcript [OF a, of demo_crypto demo_host demo_files demo_serve "\<lambda>k. False" "\<lambda>k. 0" "\<lambda>k. False" Map.empty]
      sr f by (auto simp: demo_open)
qed

text \<open>
  C19. Every command line the argument parser lets through yields a command in which a served node is reached by exactly one of a serial port and an address, at most one of the two target options is given and at least one file is to be verified, unless one of the values given is not valid: no required argument is missing and no default is rejected.
\<close>

theorem command_lines_constrained:
  assumes "clap_ok cl" and "cl_matches cl SUBCOMMANDS argv = Inr (name, m)"
  shows "(\<exists>cmd. command_of cl name m = Inr cmd \<and> command_wf cmd) \<or>
    (\<exists>ident. \<exists>v \<in> set (m ident). \<not> valid_value cl name ident v)"
proof -
  obtain specs where "map_of SUBCOMMANDS name = Some specs" "admitted specs m"
    using assms unfolding clap_ok_def by blast
  then show ?thesis using command_of_ok [OF assms(1)] command_of_wf by blast
qed

theorem command_lines_constrained_witness:
  "\<exists>a. command_of demo_clap ''serve'' demo_matches = Inr (Serve a) \<and> s_tcp a = Some (ascii ''node:5001'') \<and> s_serial a = None"
proof -
  obtain a where a: "command_of demo_clap ''serve'' demo_matches = Inr (Serve a)" "s_tcp a = Some (ascii ''node:5001'')"
    using demo_argv_command by blast
  have "\<not> (\<exists>ident. \<exists>v \<in> set (demo_matches ident). \<not> valid_value demo_clap ''serve'' ident v)"
    using demo_argv_valid by blast
  then have "command_wf (Serve a)"
    using command_lines_constrained [OF demo_clap_ok demo_argv_matches] a(1) by auto
  with a show ?thesis by auto
qed

text \<open>
  C20. A capture by a node - the announced length, pieces of the file in any order and with any overlap that cover it, the end mark - is answered OK throughout and publishes exactly the file, whatever the store held before and whatever seed was staged, as long as the file is a container (it starts with the magic and its header announces its own length) and the file system does what it is asked.
\<close>

theorem capture_stores_container:
  assumes "length mid = 4" and "c_store_dir core = Some dir" and "length blob < 2 ^ 32"
    and "header_ok blob" and "covers blob pieces" and "storage_ok h"
  shows "handle_all h core d (capture_requests mid blob pieces) =
    Inr (replicate (length pieces + 2) (Some (STATUS_OK, [])),
      d(store_path h dir mid True := None, store_path h dir mid False \<mapsto> blob))"
  using assms(4) by (intro capture_ok assms(1-3,5,6)) (simp_all add: header_ok_def)

theorem capture_stores_container_witness:
  "\<exists>xs. handle_all demo_host (set_seed [9, 9] 1 (seeder_new [] (Some []))) Map.empty
      (capture_requests [1, 2, 3, 4] (MAGIC @ le_u32 12 @ [7, 7, 7, 7]) [(5, 7), (0, 6)]) =
    Inr (xs, [store_path demo_host [] [1, 2, 3, 4] False \<mapsto> MAGIC @ le_u32 12 @ [7, 7, 7, 7]])"
proof -
  let ?core = "set_seed [9, 9] 1 (seeder_new [] (Some []))" and ?blob = "MAGIC @ le_u32 12 @ [7, 7, 7, 7]"
  have dir: "c_store_dir ?core = Some []" by (simp add: set_seed_def seeder_new_def)
  have lm: "length MAGIC = 4" by (simp add: MAGIC_def ascii_def)
  have l: "length ?blob = 12" by (simp add: lm)
  have "u32_le (slice 4 8 ?blob) = 12" using u32f.dec_slice_append [of MAGIC 12 "[7, 7, 7, 7]"] lm by simp
  then have hd: "header_ok ?blob" by (simp add: header_ok_def l lm)
  have "covers ?blob [(5, 7), (0, 6)]"
    unfolding covers_def l by (auto simp: in_piece_def mota_const)
  from capture_stores_container [where d = Map.empty and h = demo_host, OF _ dir _ hd this demo_storage_ok] l
  show ?thesis by (simp add: fun_upd_idem)
qed

text \<open>
  C21. The search finds a longest match: no position of the old image shares a longer prefix with the data searched, provided no nonempty suffix of the old image is a proper prefix of that data (there the comparison of the code cannot tell the order, and a longer match can be missed).
\<close>

theorem search_finds_longest:
  assumes "\<forall>p < length from. \<not> strict_prefix (drop p from) new"
  shows "\<exists>l p. search (suffix_array_with_sentinel from) from new 0 (length from) = Inr (l, p) \<and> p \<le> length from \<and>
    take l (drop p from) = take l new \<and> l \<le> length new \<and> (\<forall>q \<le> length from. matchlen (drop q from) new \<le> l)"
  by (rule search_from_longest [OF assms])

theorem search_finds_longest_witness:
  "\<exists>l p. search (suffix_array_with_sentinel [3, 1, 2]) [3, 1, 2] [1, 3 :: 8 word] 0 3 = Inr (l, p) \<and> 1 \<le> l"
proof -
  have p: "\<forall>p < length [3, 1, 2 :: 8 word]. \<not> strict_prefix (drop p [3, 1, 2]) [1, 3 :: 8 word]"
    by (simp add: less_Suc_eq all_conj_distrib)
  have m: "matchlen (drop 1 [3, 1, 2]) [1, 3 :: 8 word] = 1" by simp
  obtain l p where r: "search (suffix_array_with_sentinel [3, 1, 2]) [3, 1, 2] [1, 3 :: 8 word] 0 (length [3, 1, 2 :: 8 word]) = Inr (l, p)"
    and le: "\<forall>q \<le> length [3, 1, 2 :: 8 word]. matchlen (drop q [3, 1, 2]) [1, 3 :: 8 word] \<le> l"
    using search_finds_longest [OF p] by blast
  have "1 \<le> l" using spec [OF le, of 1] m by simp
  with r show ?thesis by (auto simp: numeral_3_eq_3)
qed

text \<open>
  C22. When the encoders are correct, a successful DEFLATE slice request changes nothing, and its reply is the length of one stream followed by the requested slice of it; that stream is strictly shorter than the block and inflates to exactly the block the request names.
\<close>

theorem deflate_slices_inflate:
  assumes "deflate_ok h inflate" and "served_ok c s" and "folder_at (c_folder core) (unat i) = Some s"
    and "handle h core d OP_DEFLATE_BLOCK ([i] @ le_u16 k @ le_u16 off @ le_u16 len) = Inr (Some (STATUS_OK, reply), d')"
  shows "d' = d \<and> unat k < length (served_blocks s) \<and>
    (\<exists>e. inflate e = Some (served_blocks s ! unat k) \<and> length e < length (served_blocks s ! unat k) \<and>
       unat off + unat len \<le> length e \<and> unat len \<le> DEFLATE_READ_MAX \<and>
       reply = le_u16 (of_nat (length e)) @ slice (unat off) (unat off + unat len) e)"
proof -
  have "unat (ucast k :: u32) = unat k" by (simp add: unsigned_ucast_eq take_bit_nat_eq_self less_trans [OF unsigned_less])
  with assms(3,4) obtain e where e: "cached_deflate_block h s (ucast k) = Some e" "d' = d"
      "unat off + unat len \<le> length e" "unat len \<le> DEFLATE_READ_MAX"
      "reply = le_u16 (of_nat (length e)) @ slice (unat off) (unat off + unat len) e"
    unfolding handle_deflate by (auto simp: mota_const split: if_splits option.splits)
  note b = cached_block [OF assms(2) e(1)] and u = \<open>unat (ucast k :: u32) = unat k\<close>
  show ?thesis using e b u inflate_deflate_raw [OF assms(1) b(2)] by auto
qed

theorem deflate_slices_inflate_witness:
  "\<exists>s e reply. served_ok demo_crypto s \<and>
    handle demo_host (seeder_new [s] None) Map.empty OP_DEFLATE_BLOCK ([0] @ le_u16 0 @ le_u16 0 @ le_u16 3) =
      Inr (Some (STATUS_OK, reply), Map.empty) \<and>
    demo_inflate e = Some (served_blocks s ! 0) \<and> reply = le_u16 (of_nat (length e)) @ slice 0 3 e"
proof (rule demo_served)
  fix s
  assume s: "served_ok demo_crypto s" "served_blocks s \<noteq> []" "take 3 (served_blocks s ! 0) = [1, 2, 3]"
    "length (served_blocks s ! 0) = 16"
  let ?core = "seeder_new [s] None" and ?e = "0 # drop 3 (served_blocks s ! 0)"
  have f: "folder_at (c_folder ?core) (unat (0 :: u8)) = Some s" by (simp add: seeder_new_def folder_at_def)
  have pos: "0 < unat (m_block_count (s_manifest s))"
    using s(2) served_geometry(5) [OF s(1)] by (metis length_greater_0_conv)
  then have r: "raw_block s 0 = Some (served_blocks s ! 0)"
    by (simp add: raw_block_eq [OF s(1)] word_less_nat_alt)
  from pos have "cached_deflate_block demo_host s 0 = Some ?e"
    using s r by (simp add: cached_deflate_block_def demo_deflate_raw served_ok_def)
  define reply where "reply = le_u16 (of_nat (length ?e)) @ slice 0 3 ?e"
  have x: "handle demo_host ?core Map.empty OP_DEFLATE_BLOCK ([0] @ le_u16 0 @ le_u16 0 @ le_u16 3) =
      Inr (Some (STATUS_OK, reply), Map.empty)"
    using f s(4) \<open>cached_deflate_block demo_host s 0 = Some ?e\<close>
    unfolding handle_deflate by (simp add: mota_const reply_def)
  from deflate_slices_inflate [OF demo_deflate_ok s(1) f x]
  obtain e where "demo_inflate e = Some (served_blocks s ! 0)" "reply = le_u16 (of_nat (length e)) @ slice 0 3 e" by auto
  with s(1) x show ?thesis by blast
qed

text \<open>
  C23. A complete, well-formed request with a correct checksum on the link is answered by exactly one response frame, the one that carries the handler's reply; with any other checksum byte nothing is written, nothing is stored and exactly the request is consumed.
\<close>

theorem framing_separates:
  assumes "request_ok op args" and "pending_m st = False" and "deferred st = None" and "\<not> l_broken l"
    and "l_in l = map Got (REQ_MAGIC @ [op] @ args @ [x]) @ rest"
  shows "\<exists>status payload d1 log. handle h core d op args = Inr (Some (status, payload), d1) \<and>
    pump2 h core verbose st l d =
      (if x = xor_bytes args op
       then Inr (SeederFrame log, st\<lparr>line := []\<rparr>, l\<lparr>l_in := rest, l_out := l_out l @ [response_frame op status payload]\<rparr>, d1)
       else Inr (SeederFrame None, st\<lparr>line := []\<rparr>, l\<lparr>l_in := rest\<rparr>, d))"
  by (rule pump2_request [OF assms])

theorem framing_separates_witness:
  "\<exists>payload d1 log. pump2 demo_host (seeder_new [] None) False stream_default
      \<lparr>l_in = map Got (REQ_MAGIC @ [OP_COUNT] @ [] @ [OP_COUNT]) @ [Got 65], l_out = [], l_broken = False, l_stuck = False\<rparr> Map.empty =
    Inr (SeederFrame log, stream_default, \<lparr>l_in = [Got 65], l_out = [response_frame OP_COUNT STATUS_OK payload], l_broken = False, l_stuck = False\<rparr>, d1)"
proof -
  have "request_ok OP_COUNT []" by (simp add: request_ok_def request_lens mota_const)
  from framing_separates [OF this, where st = stream_default and x = OP_COUNT and rest = "[Got 65]"
    and l = "\<lparr>l_in = map Got (REQ_MAGIC @ [OP_COUNT] @ [] @ [OP_COUNT]) @ [Got 65], l_out = [], l_broken = False, l_stuck = False\<rparr>"
    and h = demo_host and core = "seeder_new [] None" and verbose = False and d = Map.empty]
  show ?thesis by (auto simp: stream_default_def xor_bytes_def handle_def)
qed

text \<open>
  C24. The attach handshake always ends, also on a node that never stops sending or never says anything: on any endless stream of reads, if the clock shows the timeout when step K begins, it has ended after at most 525 K reads, with one outcome that every longer observation of the stream gives too. It sends the enable command at most as often as the policy allows attempts (once if it allows none), reports success or rejection only when the last line it read is such an acknowledgement, and a timeout only when the clock has passed the deadline.
\<close>

theorem attach_handshake_backed:
  "\<exists>outcome lines l' d'. attach_serial_folder_with_policy h core verbose stop clock policy l d = Inr (outcome, lines, l', d') \<and>
    (\<exists>n rs. l_out l' = l_out l @ replicate n FOLDER_ON @ rs \<and> list_all is_response rs \<and> n \<le> max 1 (max_attempts policy)) \<and>
    (outcome = Attached \<longrightarrow> lines \<noteq> [] \<and> is_attach_ok (normalize_console_reply (last lines))) \<and>
    (outcome = Failed ''node rejected `ota folder on`'' \<longrightarrow>
      lines \<noteq> [] \<and> is_attach_err (normalize_console_reply (last lines))) \<and>
    (outcome = Failed ''timed out waiting for `OK folder attached`'' \<longrightarrow>
      (\<exists>k. clock 0 + timeout policy \<le> clock (2 * k + 1))) \<and>
    (\<forall>K s. clock 0 + timeout policy \<le> clock (2 * K + 1) \<longrightarrow>
      (\<exists>outcome lines n l' d'. n \<le> 525 * K \<and>
        (\<forall>N \<ge> 525 * K. attach_serial_folder_with_policy h core verbose stop clock policy (l\<lparr>l_in := stake N s\<rparr>) d =
          Inr (outcome, lines, l'\<lparr>l_in := stake (N - n) (sdrop n s)\<rparr>, d'))))"
proof -
  obtain outcome lines l' d' where a:
      "attach_serial_folder_with_policy h core verbose stop clock policy l d = Inr (outcome, lines, l', d')"
    and o: "handshake_out (Suc (max_attempts policy - 1)) False l l'"
    and b: "backed clock (clock 0 + timeout policy) outcome lines"
    using attach_ok [of h core verbose stop clock policy l d] by blast
  have "Suc (max_attempts policy - 1) = max 1 (max_attempts policy)" by simp
  with o have "\<exists>n rs. l_out l' = l_out l @ replicate n FOLDER_ON @ rs \<and> list_all is_response rs \<and> n \<le> max 1 (max_attempts policy)"
    unfolding handshake_out_def list_all_iff by metis
  with a b attach_endless show ?thesis unfolding backed_def by blast
qed

theorem attach_handshake_backed_witness:
  "(\<exists>outcome lines l' d' n rs.
    attach_serial_folder_with_policy demo_host (seeder_new [] None) False (\<lambda>k. False) (\<lambda>k. 5000 * k) default_policy
      \<lparr>l_in = [Timeout, Timeout], l_out = [], l_broken = False, l_stuck = False\<rparr> Map.empty = Inr (outcome, lines, l', d') \<and>
    l_out l' = replicate n FOLDER_ON @ rs \<and> n \<le> 3) \<and>
  (\<exists>outcome lines n l' d'. n \<le> 525 \<and>
    (\<forall>N \<ge> 525. attach_serial_folder_with_policy demo_host (seeder_new [] None) False (\<lambda>k. False) (\<lambda>k. 5000 * k) default_policy
      \<lparr>l_in = stake N (sconst Timeout), l_out = [], l_broken = False, l_stuck = False\<rparr> Map.empty =
      Inr (outcome, lines, l'\<lparr>l_in := stake (N - n) (sdrop n (sconst Timeout))\<rparr>, d')))"
proof
  let ?l = "\<lparr>l_in = [Timeout, Timeout], l_out = [], l_broken = False, l_stuck = False\<rparr>"
  note t = attach_handshake_backed [of demo_host "seeder_new [] None" False "\<lambda>k. False" "\<lambda>k. 5000 * k" default_policy ?l Map.empty]
  have m: "max 1 (max_attempts default_policy) = 3" by (simp add: default_policy_def mota_const)
  obtain outcome lines l' d' n rs where
    "attach_serial_folder_with_policy demo_host (seeder_new [] None) False (\<lambda>k. False) (\<lambda>k. 5000 * k) default_policy
      ?l Map.empty = Inr (outcome, lines, l', d')" "l_out l' = l_out ?l @ replicate n FOLDER_ON @ rs" "n \<le> 3"
    using t unfolding m by blast
  then show "\<exists>outcome lines l' d' n rs.
    attach_serial_folder_with_policy demo_host (seeder_new [] None) False (\<lambda>k. False) (\<lambda>k. 5000 * k) default_policy
      ?l Map.empty = Inr (outcome, lines, l', d') \<and> l_out l' = replicate n FOLDER_ON @ rs \<and> n \<le> 3" by auto
  have d: "5000 * 0 + timeout default_policy \<le> 5000 * (2 * 1 + 1)" by (simp add: default_policy_def mota_const)
  have "\<exists>outcome lines n l' d'. n \<le> 525 * 1 \<and>
    (\<forall>N \<ge> 525 * 1. attach_serial_folder_with_policy demo_host (seeder_new [] None) False (\<lambda>k. False) (\<lambda>k. 5000 * k) default_policy
      (?l\<lparr>l_in := stake N (sconst Timeout)\<rparr>) Map.empty =
      Inr (outcome, lines, l'\<lparr>l_in := stake (N - n) (sdrop n (sconst Timeout))\<rparr>, d'))"
    using t d by blast
  then show "\<exists>outcome lines n l' d'. n \<le> 525 \<and>
    (\<forall>N \<ge> 525. attach_serial_folder_with_policy demo_host (seeder_new [] None) False (\<lambda>k. False) (\<lambda>k. 5000 * k) default_policy
      \<lparr>l_in = stake N (sconst Timeout), l_out = [], l_broken = False, l_stuck = False\<rparr> Map.empty =
      Inr (outcome, lines, l'\<lparr>l_in := stake (N - n) (sdrop n (sconst Timeout))\<rparr>, d'))" by simp
qed

text \<open>
  C25. On a link that takes what is written, when the node's console output before the first retry (every query of the clock up to the end of the answer is less than two seconds after the start, and nobody interrupts) is a run of lines, with read timeouts anywhere between or inside them, none of which is a verdict but the last, the handshake ends at once with the verdict of that line, having sent the command once and read exactly up to the end of that line, and shows exactly the non-empty lines. A line is at most 512 bytes of UTF-8 text (the limit of the line buffer) and does not contain the bytes MS, which start a binary request.
\<close>

theorem attach_answer_in_time:
  assumes "\<forall>j \<le> 2 * length reads. \<not> stop j \<and> clock j < clock 0 + 2000"
    and "l_in l = reads @ rest" and "\<not> l_broken l \<and> \<not> l_stuck l"
    and "filter (\<lambda>x. x \<noteq> Timeout) reads = map Got (concat (map (\<lambda>c. c @ [10]) (ls @ [cs])))" and "last reads \<noteq> Timeout"
    and "\<forall>c \<in> set (ls @ [cs]). 10 \<notin> set c \<and> utf8_len c \<le> 512 \<and> (\<forall>u v. c \<noteq> u @ [77, 83] @ v)"
    and "\<forall>c \<in> set ls. line_verdict (DeviceLine (trim_line_end c)) = None"
    and "line_verdict (DeviceLine (trim_line_end cs)) = Some outcome"
  shows "attach_serial_folder h core verbose stop clock l d =
    Inr (outcome, filter (\<lambda>c. c \<noteq> []) (map trim_line_end (ls @ [cs])), l\<lparr>l_in := rest, l_out := l_out l @ [FOLDER_ON]\<rparr>, d)"
  by (rule attach_answer [OF assms(1-5) _ assms(7,8)]) (use assms(6) in \<open>simp add: console_line_def\<close>)

theorem attach_answer_in_time_witness:
  "attach_serial_folder demo_host (seeder_new [] None) False (\<lambda>k. False) (\<lambda>k. if k < 100 then 0 else 5000)
      \<lparr>l_in = Timeout # map Got (ascii ''BOOT M'' @ [13, 10]) @ map Got (ascii ''  -> OK fold'') @ [Timeout, Timeout] @
         map Got (ascii ''er attached: 3'' @ [13, 10]) @ [Timeout], l_out = [], l_broken = False, l_stuck = False\<rparr> Map.empty =
    Inr (Attached, [ascii ''BOOT M'', ascii ''  -> OK folder attached: 3''],
      \<lparr>l_in = [Timeout], l_out = [FOLDER_ON], l_broken = False, l_stuck = False\<rparr>, Map.empty)"
proof -
  let ?l1 = "ascii ''BOOT M'' @ [13]" and ?cs = "ascii ''  -> OK folder attached: 3'' @ [13]"
  let ?reads = "Timeout # map Got (ascii ''BOOT M'' @ [13, 10]) @ map Got (ascii ''  -> OK fold'') @ [Timeout, Timeout] @
         map Got (ascii ''er attached: 3'' @ [13, 10])"
  let ?l = "\<lparr>l_in = ?reads @ [Timeout], l_out = [], l_broken = False, l_stuck = False\<rparr>"
  let ?clock = "\<lambda>k. if k < 100 then 0 else 5000 :: nat"
  have t: "trim_line_end ?cs = ascii ''  -> OK folder attached: 3''" "trim_line_end ?l1 = ascii ''BOOT M''" by code_simp+
  have v: "line_verdict (DeviceLine (trim_line_end ?cs)) = Some Attached" "line_verdict (DeviceLine (trim_line_end ?l1)) = None"
    unfolding t by code_simp+
  have f: "filter (\<lambda>x. x \<noteq> Timeout) ?reads = map Got (concat (map (\<lambda>c. c @ [10]) ([?l1] @ [?cs])))"
    by (simp add: ascii_def)
  have n: "length ?reads = 39" by simp
  have s: "\<forall>c \<in> set ([?l1] @ [?cs]). 10 \<notin> set c \<and> utf8_len c \<le> 512 \<and> (\<forall>u v. c \<noteq> u @ [77, 83] @ v)"
  proof
    fix c assume "c \<in> set ([?l1] @ [?cs])"
    then have c: "c = ?l1 \<or> c = ?cs" by simp
    have "10 \<notin> set c" "83 \<notin> set c" "utf8_len c \<le> 512" using c by (auto simp: ascii_def utf8_len_def)
    then show "10 \<notin> set c \<and> utf8_len c \<le> 512 \<and> (\<forall>u v. c \<noteq> u @ [77, 83] @ v)" by auto
  qed
  show ?thesis
    using attach_answer_in_time [where stop = "\<lambda>k. False" and clock = ?clock and rest = "[Timeout]" and d = Map.empty
    and h = demo_host and core = "seeder_new [] None" and verbose = False and reads = ?reads and l = ?l and ls = "[?l1]" and cs = ?cs,
    OF _ _ _ f _ s _ v(1)] v(2) n
    by (simp add: ascii_def t [unfolded ascii_def, simplified])
qed

text \<open>
  C26. A folder scan never fails or panics: it serves exactly the regular files whose extension is mota and whose contents verify without a problem, each with its parsed manifest, sorted by path.
\<close>

theorem folder_scan_exact:
  "\<exists>motas warns. folder_scan c entries = Inr (motas, warns) \<and> sorted (map s_path motas) \<and>
    mset motas = mset (map (served_of c) (filter (mota_entry c) entries)) \<and> list_all (served_ok c) motas"
proof -
  obtain motas warns where s: "folder_scan c entries = Inr (motas, warns)"
    using folder_scan_Inr [of c entries] by blast
  show ?thesis using s folder_scan_ok [OF s] by (auto simp: list_all_iff)
qed

text \<open>
  C27. When the staging check passes for a base with an internal staging area, a page-aligned region that holds the whole container (less at most 64 KiB kept in RAM on hybrid boards) fits between the in-place window and the staging ceiling, with no wrap-around.
\<close>

theorem staged_container_fits:
  assumes "validate_staging_fit plan n = Inr ()" and "p_base_layout plan = Some l" and "\<not> external_backed l"
  shows "\<exists>staged. staged mod 4096 = 0 \<and> n \<le> staged + (if hybrid_ram l then 65536 else 0) \<and>
    l_app_base l \<le> l_stage_ceiling l \<and>
    unat (p_memory plan) + staged \<le> unat (l_stage_ceiling l) - unat (l_app_base l)"
  by (rule validate_staging_fit_internal [OF assms])

theorem staged_container_fits_witness:
  "\<exists>staged. staged mod 4096 = 0 \<and> 5000 \<le> staged + (65536 :: nat) \<and>
    l_app_base demo_layout \<le> l_stage_ceiling demo_layout \<and>
    unat (0x3000 :: u32) + staged \<le> unat (l_stage_ceiling demo_layout) - unat (l_app_base demo_layout)"
  using staged_container_fits [of "\<lparr>p_memory = 0x3000, p_base_layout = Some demo_layout, p_legacy_auto = False\<rparr>" 5000 demo_layout]
    demo_layout_fits by simp

text \<open>
  C28. Every manifest the parser returns is well-typed: its array fields have exactly the lengths the source declares, blocks are between 2 and 2048 bytes, there are between 1 and 65535 of them, they cover the payload, and the file is exactly as long as the manifest says.
\<close>

theorem parsed_manifests_typed:
  assumes "manifest_parse c blob = Inr m"
  shows "length (m_merkle_root m) = 4 \<and> length (m_image_hash m) = 32 \<and> length (m_hw_id m) = 32 \<and>
    length (m_base_hash m) = 8 \<and> length (m_signer m) = 32 \<and> length (m_signature m) = 64 \<and> length (m_approval m) = 4 \<and>
    unat (block_size m) \<in> {2..2048} \<and> 1 \<le> unat (m_block_count m) \<and> unat (m_block_count m) \<le> 0xFFFF \<and>
    (unat (m_block_count m) - 1) * unat (block_size m) < unat (m_payload_size m) \<and>
    unat (m_payload_size m) \<le> unat (m_block_count m) * unat (block_size m) \<and>
    length blob = 210 + 4 * unat (m_block_count m) + unat (m_payload_size m)"
proof -
  have "field_lengths m" using parse_Inr_container(2) [OF assms] unfolding manifest_wf_def by blast
  then show ?thesis using parse_geometry [OF assms] by (simp add: field_lengths_def)
qed

theorem parsed_manifests_typed_witness:
  "\<exists>b. build demo_crypto demo_opts = Inr b \<and> length (m_hw_id (bt_manifest b)) = 32"
proof -
  obtain b where b: "build demo_crypto demo_opts = Inr b" using demo_full_ok by (auto simp: is_ok_iff)
  show ?thesis using parsed_manifests_typed [OF built_verifies(2) [OF demo_crypto_ok b]] b by blast
qed

text \<open>
  C29. The streaming peak computation of the Merkle root equals the recursive left-balanced hash tree, for any number of leaves, and never fails.
\<close>

theorem merkle_root_is_tree_hash: "root c leaves = Inr (mth c leaves)"
  by (rule root_mth)

text \<open>
  C30. Stamping an image of less than 2^32 bytes that is not stamped already appends the 56-byte trailer, is idempotent, is recognised afterwards, and the identity read back is the one that was stamped (a NUL-free ASCII hardware id of at most 32 bytes).
\<close>

theorem endf_stamp_round_trip:
  assumes "sha_ok c" and "length img < 2 ^ 32" and "\<not> has_endf c img"
    and "length (hw_id ident) \<le> 32" and "is_ascii (hw_id ident)" and "0 \<notin> set (hw_id ident)"
  defines "out \<equiv> fst (ensure_endf c img ident)"
  shows "has_endf c out \<and> take (length img) out = img \<and> length out = length img + 56 \<and>
    parse_ident c out = ident \<and> fst (ensure_endf c out other) = out"
  using has_endf_ensure_endf [OF assms(1,2), of ident] parse_ident_ensure_endf [OF assms(1-6)] assms(3)
    length_endf_fields [OF assms(1), of img ident] ensure_endf_idem [of c out other]
  by (simp add: out_def ensure_endf_fst)

theorem endf_stamp_round_trip_witness:
  "parse_ident demo_crypto (fst (ensure_endf demo_crypto [1, 2, 3]
     \<lparr>fw_version = 7, target_id = 9, hw_id = [82, 65, 75]\<rparr>)) = \<lparr>fw_version = 7, target_id = 9, hw_id = [82, 65, 75]\<rparr>"
  using endf_stamp_round_trip [OF crypto_ok_sha [OF demo_crypto_ok], of "[1, 2, 3]"
      "\<lparr>fw_version = 7, target_id = 9, hw_id = [82, 65, 75]\<rparr>"] has_endf_length [of demo_crypto "[1, 2, 3]"]
  by (auto simp: is_ascii_def)

text \<open>
  C31. Exactly the images of the form body, the bytes EndF, the body's length as a 32-bit little-endian word, the first eight bytes of the body's SHA-256, version, target and a 32-byte hardware id are recognised as trailed; of those the identity read back is the version, the target and the hardware id (as a C string) in those places, and stamping leaves them alone and returns that hash; every other image has the default identity. So a trailer belongs to one body up to the truncated hash.
\<close>

theorem endf_trailer_exact:
  assumes "sha_ok c"
  shows "(has_endf c img \<longleftrightarrow>
      (\<exists>body v t hw. length body < 2 ^ 32 \<and> length hw = 32 \<and>
        img = body @ [69, 110, 100, 70] @ le_u32 (of_nat (length body)) @ take 8 (sha256 c body) @ le_u32 v @ le_u32 t @ hw)) \<and>
    (\<forall>body v t hw. length body < 2 ^ 32 \<longrightarrow> length hw = 32 \<longrightarrow>
      img = body @ [69, 110, 100, 70] @ le_u32 (of_nat (length body)) @ take 8 (sha256 c body) @ le_u32 v @ le_u32 t @ hw \<longrightarrow>
      parse_ident c img = \<lparr>fw_version = v, target_id = t, hw_id = cstr hw\<rparr> \<and>
      ensure_endf c img ident = (img, take 8 (sha256 c body))) \<and>
    (\<not> has_endf c img \<longrightarrow> parse_ident c img = fw_ident_default) \<and>
    (\<forall>body1 body2 tr. has_endf c (body1 @ tr) \<longrightarrow> has_endf c (body2 @ tr) \<longrightarrow> length tr = 56 \<longrightarrow>
      length body1 = length body2 \<and> take 8 (sha256 c body1) = take 8 (sha256 c body2))"
  (is "_ \<and> ?ident \<and> ?default \<and> ?binding")
proof (intro conjI)
  show ?ident using has_endf_trailed(2,3) [OF assms] by (auto simp: trailed_def)
  show ?default by (simp add: parse_ident_def)
  show ?binding using has_endf_binding unfolding mh_def by blast
qed (use has_endf_iff [OF assms, of img] in \<open>auto simp: trailed_def\<close>)

theorem endf_trailer_exact_witness:
  "has_endf demo_crypto ([1, 2] @ [69, 110, 100, 70, 2, 0, 0, 0, 13, 38, 63, 88, 7, 7, 7, 7, 3, 0, 0, 0, 9, 0, 0, 0] @ [82, 65, 75] @ replicate 29 0) \<and>
   fw_version (parse_ident demo_crypto ([1, 2] @ [69, 110, 100, 70, 2, 0, 0, 0, 13, 38, 63, 88, 7, 7, 7, 7, 3, 0, 0, 0, 9, 0, 0, 0] @ [82, 65, 75] @ replicate 29 0)) = 3 \<and>
   \<not> has_endf demo_crypto ([1, 3] @ [69, 110, 100, 70, 2, 0, 0, 0, 13, 38, 63, 88, 7, 7, 7, 7, 3, 0, 0, 0, 9, 0, 0, 0] @ [82, 65, 75] @ replicate 29 0)"
proof -
  let ?tr = "[69, 110, 100, 70, 2, 0, 0, 0, 13, 38, 63, 88, 7, 7, 7, 7, 3, 0, 0, 0, 9, 0, 0, 0] @ [82, 65, 75] @ replicate 29 (0 :: u8)"
  let ?hw = "[82, 65, 75] @ replicate 29 (0 :: u8)"
  have h: "take 8 (sha256 demo_crypto [1, 2]) = [13, 38, 63, 88, 7, 7, 7, 7]" "take 8 (sha256 demo_crypto [1, 3]) \<noteq> [13, 38, 63, 88, 7, 7, 7, 7]"
    by (simp_all add: sha256_def demo_crypto_def) (simp add: numeral_eq_Suc)
  have w: "le_u32 2 = [2, 0, 0, 0]" "le_u32 3 = [3, 0, 0, 0]" "le_u32 9 = [9, 0, 0, 0]" by code_simp+
  have b: "[1, 2] @ ?tr = [1, 2] @ [69, 110, 100, 70] @ le_u32 (of_nat (length [1, 2 :: u8])) @ take 8 (sha256 demo_crypto [1, 2]) @ le_u32 3 @ le_u32 9 @ ?hw"
    unfolding h by (simp add: w)
  have l: "length [1, 2 :: u8] < 2 ^ 32" "length ?hw = 32" by simp_all
  note t = endf_trailer_exact [OF crypto_ok_sha [OF demo_crypto_ok], of "[1, 2] @ ?tr"]
  have e: "has_endf demo_crypto ([1, 2] @ ?tr)" using t [THEN conjunct1] l b by blast
  have "parse_ident demo_crypto ([1, 2] @ ?tr) = \<lparr>fw_version = 3, target_id = 9, hw_id = cstr ?hw\<rparr>"
    by (rule t [THEN conjunct2, THEN conjunct1, rule_format, OF l b, THEN conjunct1])
  then have p: "fw_version (parse_ident demo_crypto ([1, 2] @ ?tr)) = 3" by simp
  have "length ?tr = 56" by simp
  then have "\<not> has_endf demo_crypto ([1, 3] @ ?tr)" using t [THEN conjunct2, THEN conjunct2, THEN conjunct2, rule_format, OF e] h by metis
  with e p show ?thesis by blast
qed

text \<open>
  C32. Layout validation accepts exactly the external-flash, internal-ExtraFS and internal families of layouts, with the application base of one of the two SoftDevice lines and the linked end each family allows.
\<close>

theorem layout_validation_exact: "layout_validate l = Inr () \<longleftrightarrow> supported_layout l"
  by (rule layout_validate_Inr)

text \<open>
  C33. A layout that the record builder accepts, appended to an image body and stamped, is read back from the stamped image unchanged.
\<close>

theorem layout_record_round_trip:
  assumes "sha_ok c" and "length (body @ layout_record l) < 2 ^ 32" and "build_nrf52_layout l = Inr record"
    and "\<not> has_endf c (body @ record)"
  shows "parse_nrf52_layout c (fst (ensure_endf c (body @ record) ident)) = Inr (Some l)"
proof -
  have s: "supported_layout l" and r: "record = layout_record l"
    using assms(3) by (auto simp: build_nrf52_layout_eq layout_validate_Inr)
  show ?thesis
    using parse_nrf52_layout_record [OF assms(1,2) s, of ident] assms(4) by (simp add: ensure_endf_fst r)
qed

theorem layout_record_round_trip_witness:
  "parse_nrf52_layout flat_crypto (fst (ensure_endf flat_crypto (layout_record demo_layout)
     \<lparr>fw_version = 1, target_id = 2, hw_id = []\<rparr>)) = Inr (Some demo_layout)"
  using layout_record_round_trip [OF crypto_ok_sha [OF flat_crypto_ok], of "[]" demo_layout "layout_record demo_layout"
      "\<lparr>fw_version = 1, target_id = 2, hw_id = []\<rparr>"]
    has_endf_length [of flat_crypto "layout_record demo_layout"]
  by (auto simp: build_nrf52_layout_eq layout_validate_Inr demo_layout_ok)

text \<open>
  C34. A bootloader image is accepted exactly when it has the fixed size and a sane vector table; holds at the fixed offset, and at no other multiple of four, an identity record (magic, version, sizes, board id, padded printable name) whose last word is the CRC-32 of the image with that word zeroed, followed by a valid continuity extension; holds at exactly one multiple of four a capability marker, for one of the four known storage profiles; and its outer version, hardware id and target id are those of the record, and storage and platform those of the built-in tables for it. The returned identity holds the fields of these records.
\<close>

theorem bootloader_contract_exact:
  "validate_bootloader_image c img tid hw v = Inr i \<longleftrightarrow>
    (\<exists>b n family fwid app_base abi s. bootloader_contract c img tid hw v b n family fwid app_base abi s \<and>
      i = \<lparr>manifest_offset = 40884, b_board_id = b, b_device_name = n, boot_version = v, b_softdevice_family = family,
        b_softdevice_fwid = fwid, b_app_base = app_base, b_layout_abi = abi, storage_flags = s\<rparr>)"
  by (rule validate_bootloader_image_contract)

text \<open>
  C35. The image checksum changes whenever up to four consecutive bytes outside the checksum field change.
\<close>

theorem crc_detects_bursts:
  assumes "length p + length w \<le> k \<or> k + 4 \<le> length p"
    and "length w = length w'" and "length w \<le> 4" and "w \<noteq> w'"
  shows "bootloader_image_crc32 (p @ w @ q) k \<noteq> bootloader_image_crc32 (p @ w' @ q) k"
  using image_crc_burst [OF assms(1-3)] assms(4) by blast

theorem crc_detects_bursts_witness:
  "bootloader_image_crc32 ([1] @ [2] @ [0, 0, 0, 0]) 2 \<noteq> bootloader_image_crc32 ([1] @ [3] @ [0, 0, 0, 0]) 2"
  using crc_detects_bursts [of "[1]" "[2]" 2 "[3]" "[0, 0, 0, 0]"] by simp

text \<open>
  C36. The compiled-in board inventory passes its check exactly when no board's target id is zero, all ones or an application target, and no two boards share one.
\<close>

theorem inventory_check_exact:
  "validate_bootloader_inventory c = Inr () \<longleftrightarrow>
    (\<forall>b. target_of c b \<noteq> 0 \<and> target_of c b \<noteq> 0xFFFFFFFF \<and> env_name (target_of c b) = None) \<and> inj (target_of c)"
  by (simp add: validate_bootloader_inventory_Inr target_ok_def)

text \<open>
  C37. The transport sizes are reported exactly for a non-empty payload, a power-of-two block size up to 2048 and encodable blocks, and then every reported number is the sum over the blocks: each block counts its DEFLATE stream when that is non-empty and shorter than the block, the block itself otherwise, and 171-byte packets rounded up.
\<close>

theorem transport_size_exact:
  assumes "length payload < 2 ^ 64"
  shows "deflate_transport_size_of h payload bs = Inr r \<longleftrightarrow>
    payload \<noteq> [] \<and> transport_block_size_ok bs \<and> (\<forall>b \<in> set (chunks bs payload). deflate_raw h b \<noteq> None) \<and>
    r = \<lparr>ts_payload_bytes = length payload, ts_block_size = bs, ts_block_count = length (chunks bs payload),
         ts_wire_bytes = sum_list (map (wire_len h) (chunks bs payload)),
         ts_deflate_bytes = sum_list (map (wire_len h) (filter (uses_deflate h) (chunks bs payload))),
         ts_deflate_blocks = length (filter (uses_deflate h) (chunks bs payload)),
         ts_data_packets = sum_list (map (\<lambda>b. div_ceil (wire_len h b) 171) (chunks bs payload))\<rparr>"
  by (rule deflate_transport_size_Inr [OF assms])

theorem transport_size_exact_witness:
  "deflate_transport_size_of demo_host [1, 2, 3, 4, 5] 4 =
    Inr \<lparr>ts_payload_bytes = 5, ts_block_size = 4, ts_block_count = 2, ts_wire_bytes = 3, ts_deflate_bytes = 2,
         ts_deflate_blocks = 1, ts_data_packets = 2\<rparr>"
proof -
  have "list_ex (\<lambda>k. (4 :: nat) = 2 ^ k) [0..<64]" by (rule iffD2 [OF list_ex_iff]) (rule bexI [of _ 2], simp_all)
  then have "transport_block_size_ok 4" by (simp add: transport_block_size_ok_def mota_const)
  then show ?thesis
    unfolding transport_size_exact [of "[1, 2, 3, 4, 5]", simplified]
    by (simp add: chunks_step demo_deflate_raw wire_len_def wire_form_def uses_deflate_def div_ceil_def)
qed

text \<open>
  C38. The bootloader region is extracted from an Intel HEX text exactly when the text is UTF-8, its records are well-formed up to the end-of-file record without address overflow, no byte of the region is given two values, and at least one is given; the image then holds the given bytes and erased flash elsewhere. No text makes the extraction panic.
\<close>

theorem hex_extraction_exact:
  fixes h bs
  defines "items \<equiv> hex_reader h bs"
  defines "cells \<equiv> region (hex_cells 0 items)"
  assumes "short_records items"
  shows "(extract_bootloader_region_from_hex h bs = Inr img \<longleftrightarrow>
      utf8_ok bs \<and> hex_wf 0 items \<and> functional cells \<and> cells \<noteq> [] \<and>
      img = map (\<lambda>i. case map_of cells i of Some b \<Rightarrow> b | None \<Rightarrow> 0xFF) [0..<IMAGE_SIZE]) \<and>
    extract_bootloader_region_from_hex h bs \<noteq> Inl Panic"
  using extract_exact [of h bs] assms(3) unfolding items_def cells_def by simp

theorem hex_extraction_exact_witness:
  "\<exists>img. extract_bootloader_region_from_hex demo_input (ascii '':'') = Inr img \<and>
    take 4 img = [1, 2, 3, 0xFF] \<and> length img = IMAGE_SIZE"
proof -
  let ?bs = "ascii '':''" and ?cells = "[(0, 1), (1, 2), (2, 3)] :: (nat \<times> u8) list"
  let ?img = "map (\<lambda>i. case map_of ?cells i of Some b \<Rightarrow> b | None \<Rightarrow> 0xFF) [0..<IMAGE_SIZE]"
  have items: "hex_reader demo_input ?bs = [Some (ExtendedLinearAddress 0xF), Some (Data 0x4000 [1, 2, 3]), Some EndOfFile]"
    by (simp add: demo_input_def)
  have "(ucast (0xF :: u16) :: u32) = 0xF" by simp
  then have "linear_base 0xF = 0xF0000" by (simp only: linear_base_def push_bit_eq_mult) simp
  then have u: "unat (linear_base 0xF) = 0xF0000" by simp
  have s: "short_records (hex_reader demo_input ?bs)" by (auto simp: items short_records_def)
  have "hex_cells 0 (hex_reader demo_input ?bs) = [(0xF4000, 1), (0xF4001, 2), (0xF4002, 3)]"
    by (simp add: items u upt_rec)
  then have c: "region (hex_cells 0 (hex_reader demo_input ?bs)) = ?cells" by (simp add: region_def)
  have "hex_wf 0 (hex_reader demo_input ?bs)" by (simp add: items u)
  moreover have "functional ?cells" by (auto simp: functional_def)
  moreover have "utf8_ok ?bs" by code_simp
  ultimately have x: "extract_bootloader_region_from_hex demo_input ?bs = Inr ?img"
    using hex_extraction_exact [OF s, unfolded c, of ?img] by simp
  have "[0..<4] = [0, 1, 2, 3 :: nat]" by (simp add: upt_rec)
  then have "take 4 ?img = [1, 2, 3, 0xFF]" by (simp add: take_map take_upt mota_const)
  with x show ?thesis by (intro exI [of _ ?img]) simp
qed

text \<open>
  C39. The board names of the command line select exactly the accepted pairs of a board and a storage profile: each name gives an accepted pair, whose printed profile name is that very name, and each accepted pair has exactly one value; an argument is read as a value exactly when it is its name or an alias.
\<close>

theorem board_names_exact:
  "(board_accepts_storage_profile board p \<longleftrightarrow> (\<exists>!b. cli_profile b = (board, p))) \<and>
    board_profile_name (fst (cli_profile n)) (snd (cli_profile n)) = Some (value_name n) \<and>
    (board_named v = Some n \<longleftrightarrow> v \<in> ascii ` set (value_name n # value_aliases n))"
proof (intro conjI)
  show "board_accepts_storage_profile board p \<longleftrightarrow> (\<exists>!b. cli_profile b = (board, p))"
    using accepted_is_cli [of board p] cli_accepted cli_profile_inject by (metis fst_conv snd_conv)
  show "board_profile_name (fst (cli_profile n)) (snd (cli_profile n)) = Some (value_name n)"
    by (rule value_name_profile)
  show "board_named v = Some n \<longleftrightarrow> v \<in> ascii ` set (value_name n # value_aliases n)"
    by (rule board_named_iff)
qed

text \<open>
  C40. Numbers and versions survive printing and reading: the number parser of the command line reads the decimal and the 0x-prefixed eight-digit form of every 32-bit value back as that value, the port parser every 16-bit decimal, and the version parser every printed version.
\<close>

theorem numbers_round_trip:
  "parse_u32_auto (dec (unat v)) = Inr v \<and> parse_u32_auto (ascii ''0x'' @ hex8 v) = Inr v \<and>
    from_str_radix (2 ^ 16) 10 (dec (unat port)) = Some (unat (port :: u16)) \<and> pack_version (version_str v) = Inr v"
proof -
  have "unat port < 2 ^ 16" using unsigned_less [of port] by simp
  then have "from_str_radix (2 ^ 16) 10 (dec (unat port)) = Some (unat port)" by (subst from_str_radix_dec) simp_all
  then show ?thesis using parse_u32_auto_round_trip [of v] pack_version_version_str [of v] by blast
qed

section \<open>Further theorems\<close>

text \<open>
  Results about single components that the properties above use or generalise.
\<close>

theorem parsed_geometry:
  assumes "manifest_parse c blob = Inr m"
  shows "length blob = 8 + 197 + 4 * unat (m_block_count m) + unat (m_payload_size m) + 5 \<and>
    2 \<le> unat (block_size m) \<and> unat (block_size m) \<le> 2048 \<and>
    1 \<le> unat (m_block_count m) \<and> unat (m_block_count m) \<le> 0xFFFF \<and>
    (unat (m_block_count m) - 1) * unat (block_size m) < unat (m_payload_size m) \<and>
    unat (m_payload_size m) \<le> unat (m_block_count m) * unat (block_size m)"
  using parse_geometry [OF assms] by simp

theorem sequential_patch_decodes:
  "\<exists>patch. encode_sequential base target = Inr patch \<and> apply_sequential base patch = Some target"
  by (rule encode_sequential_ok)

theorem in_place_patch_decodes:
  assumes "0 < unat seg" and "unat mem mod unat seg = 0" and "2 * unat seg \<le> unat mem"
    and "length base \<le> unat mem" and "length target \<le> unat mem"
  shows "\<exists>patch. encode_in_place base target mem seg = Inr patch \<and>
    (\<forall>win. length win = unat mem \<and> take (length base) win = base \<longrightarrow> apply_window win patch = Some target)"
  by (rule encode_in_place_ok [OF assms])

theorem bsdiff_stream_decodes:
  "\<exists>st. bsdiff old new body = Inr (body @ st) \<and>
    (\<forall>rest. apply_stream old 0 (length new) (st @ rest) = Some (new, rest))"
  by (rule bsdiff_ok)

theorem match_search_is_genuine:
  "distinct (suffix_array s) \<and> set (suffix_array s) = {..<length s} \<and>
    (\<exists>len pos. search (suffix_array_with_sentinel old) old new 0 (length old) = Inr (len, pos) \<and>
       pos \<le> length old \<and> len = matchlen (drop pos old) new \<and> take len (drop pos old) = take len new)"
proof -
  have "\<exists>len pos. search (suffix_array_with_sentinel old) old new 0 (length old) = Inr (len, pos) \<and>
      pos \<le> length old \<and> len = matchlen (drop pos old) new"
    by (rule search_ok) (use sentinel_ok [of old] in auto)
  then show ?thesis using suffix_array_perm [of s] matchlen_take by metis
qed

theorem crle_round_trip:
  "crle_expand (crle_compress data) = Some data \<and> unpack_size (pack_size x @ rest) = Some (x, rest) \<and>
    unpack_more (crle_pack_size n @ rest) = Some (n, rest)"
  by (simp add: crle_expand_compress unpack_size_pack_size unpack_more_crle_pack_size)

theorem version_round_trip: "pack_version (version_str v) = Inr v"
  by (rule pack_version_version_str)

theorem bootloader_validation_never_panics:
  "validate_bootloader_image c img tid hw v \<noteq> Inl Panic \<and>
    validate_bootloader_image_for_profile c img board p \<noteq> Inl Panic"
  by (simp add: validate_bootloader_image_no_panic profile_no_panic)

theorem hardware_ids_are_injective:
  assumes "bootloader_hw_id b n = Inr hw" and "bootloader_hw_id b' n' = Inr hw"
  shows "b = b' \<and> n = n'"
  by (rule bootloader_hw_id_inject [OF assms])

theorem boards_resolve_uniquely:
  "distinct BOOTLOADER_BOARDS \<and> b \<in> set BOOTLOADER_BOARDS \<and>
    board_from_identity (board_board_id b) (ascii (board_device_name b)) = Some b \<and>
    board_storage_profile b \<in> set (qualified_storage (board_board_id b) (ascii (board_device_name b))) \<and>
    qualified_platform (board_board_id b) (ascii (board_device_name b)) =
      Some (softdevice_family (board_compatibility b), softdevice_fwid (board_compatibility b),
        compat_app_base (board_compatibility b), compat_layout_abi (board_compatibility b))"
  by (simp add: boards_distinct boards_complete board_from_identity_board board_storage_qualified
      board_platform_qualified)

theorem target_lookup_exact: "env_name i = Some n \<longleftrightarrow> (i, n) \<in> set all_targets"
  by (rule env_name_Some)

theorem store_is_protected:
  assumes "inj (hex_lower h)" and "c_store_dir core = Some dir" and "handle_all h core d requests = Inr (replies, d')"
  shows "(d' (store_path h dir mid False) = d (store_path h dir mid False) \<or>
      (\<exists>f. d' (store_path h dir mid False) = Some f \<and> header_ok f)) \<and>
    (list_all (\<lambda>(op, args). take 4 args \<noteq> mid) requests \<longrightarrow>
      d' (store_path h dir mid part) = d (store_path h dir mid part))"
  using handle_all_keeps_published [OF assms(3)] handle_all_frame [OF assms(1,3,2), of mid part]
  by (simp add: list_all_iff)

theorem session_transcript:
  "\<exists>outcome lines l' d' n rs.
    serve_session h core verbose enable stop clock stop2 l d = Inr (outcome, lines, l', d') \<and>
    l_out l' = l_out l @ (if l_broken l then [] else replicate n FOLDER_ON @ rs @ (if enable then [FOLDER_OFF] else [])) \<and>
    n \<le> 3 \<and> (\<not> enable \<longrightarrow> n = 0) \<and> list_all is_response rs"
  using serve_session_ok [of h core verbose enable stop clock stop2 l d]
  by (auto simp: transcript_def list_all_iff)

theorem inspect_command_exact:
  "cmd_inspect c h file \<noteq> Inl Panic \<and>
    ((\<exists>r. cmd_inspect c h file = Inr r \<and> ir_manifest r = m) \<longleftrightarrow>
     (\<exists>blob. file_at h file = Some blob \<and> manifest_parse c blob = Inr m))"
  using cmd_inspect_no_panic cmd_inspect_total by blast

end
